(* ===== verification/Upq_Prelude.thy ===== *)
theory Upq_Prelude
  imports Main "HOL-Library.Word"
begin

text \<open>
  Shared material of the development: the C++ types every component uses, the parts of the
  C++ standard library the sources call on strings and integers (written out as functions on
  lists), the interfaces (locales) several components promise, and the generic lemmas.

  \<^item> \<^verbatim>\<open>std::string\<close> and \<^verbatim>\<open>std::string_view\<close> are \<^typ>\<open>string\<close> (a list of 8-bit characters),
    \<^verbatim>\<open>std::vector<uint8_t>\<close> is a list of \<^typ>\<open>8 word\<close>;
  \<^item> \<^verbatim>\<open>size_t\<close> offsets into such a container are \<^typ>\<open>nat\<close>: on the 64-bit targets of the library
    no sum of two container sizes reaches \<open>2 ^ 64\<close>;
  \<^item> \<^verbatim>\<open>uint32_t\<close> and \<^verbatim>\<open>uint64_t\<close> values whose wrap-around can be observed are words.
\<close>

section \<open>Types and fact collections\<close>

type_synonym byte = "8 word"
type_synonym bytes = "byte list"
type_synonym u16 = "16 word"
type_synonym u32 = "32 word"
type_synonym u64 = "64 word"

named_theorems text_simps \<open>rewrite rules on characters, strings and bytes\<close>
named_theorems ops_defs \<open>definitions of the operations of a component\<close>
named_theorems frame_simps \<open>what an operation leaves unchanged\<close>

section \<open>Characters and bytes\<close>

text \<open>The casts \<^verbatim>\<open>(uint8_t)c\<close> and \<^verbatim>\<open>(const char*)&b\<close>, and the numeric value of an \<^verbatim>\<open>unsigned char\<close>.\<close>

definition ord :: "char \<Rightarrow> nat" where
  "ord c = of_char c"

definition byte_of_char :: "char \<Rightarrow> byte" where
  "byte_of_char c = of_char c"

definition char_of_byte :: "byte \<Rightarrow> char" where
  "char_of_byte b = char_of (unat b)"

definition bytes_of_string :: "string \<Rightarrow> bytes" where
  "bytes_of_string s = map byte_of_char s"

definition string_of_bytes :: "bytes \<Rightarrow> string" where
  "string_of_bytes bs = map char_of_byte bs"

definition NUL :: char where
  "NUL = CHR 0x00"

text \<open>\<^verbatim>\<open>std::isspace\<close>, \<^verbatim>\<open>std::isdigit\<close>, \<^verbatim>\<open>std::isalnum\<close> and \<^verbatim>\<open>std::tolower\<close> in the C locale.\<close>

definition is_digit :: "char \<Rightarrow> bool" where
  "is_digit c \<longleftrightarrow> 48 \<le> ord c \<and> ord c \<le> 57"

definition is_upper :: "char \<Rightarrow> bool" where
  "is_upper c \<longleftrightarrow> 65 \<le> ord c \<and> ord c \<le> 90"

definition is_lower :: "char \<Rightarrow> bool" where
  "is_lower c \<longleftrightarrow> 97 \<le> ord c \<and> ord c \<le> 122"

definition is_space :: "char \<Rightarrow> bool" where
  "is_space c \<longleftrightarrow> ord c = 32 \<or> (9 \<le> ord c \<and> ord c \<le> 13)"

definition is_alnum :: "char \<Rightarrow> bool" where
  "is_alnum c \<longleftrightarrow> is_digit c \<or> is_upper c \<or> is_lower c"

definition to_lower :: "char \<Rightarrow> char" where
  "to_lower c = (if is_upper c then char_of (ord c + 32) else c)"

section \<open>Decimal numbers\<close>

text \<open>
  \<^verbatim>\<open>std::to_string\<close> / \<^verbatim>\<open>std::to_chars\<close> on integers, and the digit loop of \<^verbatim>\<open>std::from_chars\<close> and
  \<^verbatim>\<open>strtoull\<close>.
\<close>

definition digit_char :: "nat \<Rightarrow> char" where
  "digit_char d = char_of (48 + d)"

definition digit_val :: "char \<Rightarrow> nat" where
  "digit_val c = ord c - 48"

fun show_nat :: "nat \<Rightarrow> string" where
  "show_nat n = (if n < 10 then [digit_char n] else show_nat (n div 10) @ [digit_char (n mod 10)])"

declare show_nat.simps [simp del]

definition show_int :: "int \<Rightarrow> string" where
  "show_int i = (if i < 0 then CHR ''-'' # show_nat (nat (- i)) else show_nat (nat i))"

definition digits_val :: "string \<Rightarrow> nat" where
  "digits_val ds = fold (\<lambda>c n. n * 10 + digit_val c) ds 0"

text \<open>
  \<^verbatim>\<open>std::from_chars(begin, end, v)\<close> for an integer type of \<open>w\<close> bits, followed by the test
  \<^verbatim>\<open>ec == std::errc() && ptr == end\<close> that every caller makes: an optional minus sign (signed
  types only), at least one digit, nothing else, and a value the type can hold.
\<close>

definition from_chars_all :: "bool \<Rightarrow> nat \<Rightarrow> string \<Rightarrow> int option" where
  "from_chars_all sgnd w s =
     (let neg = sgnd \<and> s \<noteq> [] \<and> hd s = CHR ''-'';
          ds = (if neg then tl s else s);
          v = (if neg then - int (digits_val ds) else int (digits_val ds));
          lo = (if sgnd then - (2 ^ (w - 1)) else 0);
          hi = (if sgnd then 2 ^ (w - 1) else 2 ^ w)
      in if ds = [] \<or> \<not> list_all is_digit ds then None
         else if lo \<le> v \<and> v < hi then Some v else None)"

definition int_in_range :: "bool \<Rightarrow> nat \<Rightarrow> int \<Rightarrow> bool" where
  "int_in_range sgnd w v \<longleftrightarrow>
     (if sgnd then - (2 ^ (w - 1)) \<le> v \<and> v < 2 ^ (w - 1) else 0 \<le> v \<and> v < 2 ^ w)"

section \<open>Searching in strings\<close>

definition starts_with :: "string \<Rightarrow> string \<Rightarrow> bool" where
  "starts_with s p \<longleftrightarrow> take (length p) s = p"

fun contains_sub :: "string \<Rightarrow> string \<Rightarrow> bool" where
  "contains_sub [] p = (p = [])"
| "contains_sub (c # s) p = (starts_with (c # s) p \<or> contains_sub s p)"

text \<open>\<^verbatim>\<open>s.find(c)\<close>: the first position of a character.\<close>

fun find_char :: "char \<Rightarrow> string \<Rightarrow> nat option" where
  "find_char c [] = None"
| "find_char c (x # s) = (if x = c then Some 0 else map_option Suc (find_char c s))"

text \<open>The escape loop \<^verbatim>\<open>for (char c : in) { if (p(c)) out.push_back(e); out.push_back(c); }\<close>.\<close>

fun escape_with :: "(char \<Rightarrow> bool) \<Rightarrow> char \<Rightarrow> string \<Rightarrow> string" where
  "escape_with p e [] = []"
| "escape_with p e (c # cs) = (if p c then [e, c] else [c]) @ escape_with p e cs"

section \<open>Interfaces\<close>

text \<open>
  An encoder and a decoder that promise a round trip on the valid values. The client's facts
  (injectivity, and that a decoded value is the only one) are proved once here.
\<close>

locale codec =
  fixes enc :: "'a \<Rightarrow> 'b"
    and dec :: "'b \<Rightarrow> 'a option"
    and valid :: "'a \<Rightarrow> bool"
  assumes dec_enc: "valid x \<Longrightarrow> dec (enc x) = Some x"
begin

lemma enc_inj_on: "inj_on enc (Collect valid)"
proof (rule inj_onI)
  fix x y
  assume "x \<in> Collect valid" "y \<in> Collect valid" "enc x = enc y"
  then have "Some x = Some y"
    by (metis dec_enc mem_Collect_eq)
  then show "x = y" by simp
qed

lemma enc_eq_iff: "valid x \<Longrightarrow> valid y \<Longrightarrow> enc x = enc y \<longleftrightarrow> x = y"
  using enc_inj_on by (auto dest: inj_onD)

lemma dec_map_enc: "list_all valid xs \<Longrightarrow> map (dec \<circ> enc) xs = map Some xs"
  by (induction xs) (auto simp: dec_enc)

end

text \<open>
  A transition system with an inductive invariant: what holds initially and is kept by every
  step holds after any number of steps, in any interleaving of them.
\<close>

locale inv_system =
  fixes init :: "'s \<Rightarrow> bool"
    and step :: "'s \<Rightarrow> 's \<Rightarrow> bool"
    and I :: "'s \<Rightarrow> bool"
  assumes init_inv: "init s \<Longrightarrow> I s"
    and step_inv: "step s t \<Longrightarrow> I s \<Longrightarrow> I t"
begin

lemma steps_inv: "step\<^sup>*\<^sup>* s t \<Longrightarrow> I s \<Longrightarrow> I t"
  by (induction rule: rtranclp_induct) (auto intro: step_inv)

lemma reachable_inv: "init s \<Longrightarrow> step\<^sup>*\<^sup>* s t \<Longrightarrow> I t"
  by (blast intro: steps_inv init_inv)

end

section \<open>Lemmas on characters and bytes\<close>

lemma ord_less [simp]: "ord c < 256"
  by (simp add: ord_def)

lemma char_of_ord [simp]: "char_of (ord c) = c"
  by (simp add: ord_def)

lemma ord_char_of [simp]: "n < 256 \<Longrightarrow> ord (char_of n) = n"
  by (simp add: ord_def)

lemma ord_inject: "ord c = ord d \<longleftrightarrow> c = d"
  by (metis char_of_ord)

lemma unat_byte_of_char [simp]: "unat (byte_of_char c) = ord c"
proof -
  have "byte_of_char c = word_of_nat (ord c)"
    by (simp add: byte_of_char_def ord_def of_nat_of_char)
  then show ?thesis
    by (simp add: unat_of_nat take_bit_nat_eq_self)
qed

lemma char_of_byte_of_char [simp]: "char_of_byte (byte_of_char c) = c"
  by (simp add: char_of_byte_def)

lemma unat_byte_less [simp]: "unat (b :: byte) < 256"
proof -
  have "unat b < 2 ^ LENGTH(8)" by (rule unsigned_less)
  then show ?thesis by simp
qed

lemma ord_char_of_byte [simp]: "ord (char_of_byte b) = unat b"
  by (simp add: char_of_byte_def)

lemma byte_of_char_of_byte [simp]: "byte_of_char (char_of_byte b) = b"
  by (metis ord_char_of_byte unat_byte_of_char word_unat_eq_iff)

lemma string_bytes_string [simp, text_simps]: "string_of_bytes (bytes_of_string s) = s"
  by (induction s) (auto simp: string_of_bytes_def bytes_of_string_def)

lemma bytes_string_bytes [simp, text_simps]: "bytes_of_string (string_of_bytes bs) = bs"
  by (induction bs) (auto simp: string_of_bytes_def bytes_of_string_def)

lemma length_bytes_of_string [simp, text_simps]: "length (bytes_of_string s) = length s"
  by (simp add: bytes_of_string_def)

lemma length_string_of_bytes [simp, text_simps]: "length (string_of_bytes bs) = length bs"
  by (simp add: string_of_bytes_def)

lemma bytes_of_string_append [text_simps]:
  "bytes_of_string (s @ t) = bytes_of_string s @ bytes_of_string t"
  by (simp add: bytes_of_string_def)

lemma byte_of_char_eq_iff [simp]: "byte_of_char c = byte_of_char d \<longleftrightarrow> c = d"
  by (metis char_of_byte_of_char)

lemma byte_of_char_0 [simp]: "byte_of_char c = 0 \<longleftrightarrow> c = NUL"
proof -
  have "byte_of_char NUL = 0" by (simp add: byte_of_char_def NUL_def)
  then show ?thesis by (metis byte_of_char_eq_iff)
qed

lemma zero_in_bytes_of_string: "0 \<in> set (bytes_of_string s) \<longleftrightarrow> NUL \<in> set s"
  by (force simp: bytes_of_string_def image_iff)


section \<open>Decimal round trip\<close>

lemma ord_digit_char: "d < 10 \<Longrightarrow> ord (digit_char d) = 48 + d"
  by (simp add: digit_char_def)

lemma is_digit_digit_char [simp]: "d < 10 \<Longrightarrow> is_digit (digit_char d)"
  by (simp add: is_digit_def ord_digit_char)

lemma digit_val_digit_char [simp]: "d < 10 \<Longrightarrow> digit_val (digit_char d) = d"
  by (simp add: digit_val_def ord_digit_char)

lemma digits_val_snoc [simp]: "digits_val (ds @ [c]) = digits_val ds * 10 + digit_val c"
  by (simp add: digits_val_def)

lemma digits_val_Nil [simp]: "digits_val [] = 0"
  by (simp add: digits_val_def)

lemma digits_val_show_nat [simp]: "digits_val (show_nat n) = n"
proof (induction n rule: show_nat.induct)
  case (1 n)
  have "digits_val [digit_char n] = digits_val [] * 10 + digit_val (digit_char n)"
    using digits_val_snoc [of "[]" "digit_char n"] by simp
  with 1 show ?case by (simp add: show_nat.simps [of n] div_mult_mod_eq)
qed

lemma show_nat_digits: "list_all is_digit (show_nat n)"
proof (induction n rule: show_nat.induct)
  case (1 n)
  then show ?case by (simp add: show_nat.simps [of n])
qed

lemma show_nat_not_Nil [simp]: "show_nat n \<noteq> []"
  by (simp add: show_nat.simps [of n])

lemma digit_not_special: "is_digit c \<Longrightarrow> c \<noteq> CHR ''-'' \<and> c \<noteq> CHR 0x22 \<and> c \<noteq> CHR '','' \<and> c \<noteq> CHR 0x5C"
  by (auto simp: is_digit_def ord_def)

lemma hd_show_nat: "hd (show_nat n) \<noteq> CHR ''-''"
  using show_nat_digits [of n] digit_not_special by (cases "show_nat n") auto

text \<open>What \<^verbatim>\<open>std::to_string\<close> prints, \<^verbatim>\<open>std::from_chars\<close> reads back, for every value of the type.\<close>

lemma from_chars_show_int:
  assumes "int_in_range sgnd w v"
  shows "from_chars_all sgnd w (show_int v) = Some v"
proof (cases "v < 0")
  case True
  with assms have "sgnd" by (auto simp: int_in_range_def split: if_splits)
  with True assms show ?thesis
    by (simp add: from_chars_all_def show_int_def int_in_range_def show_nat_digits)
next
  case False
  with assms hd_show_nat [of "nat v"] show ?thesis
    by (auto simp: from_chars_all_def show_int_def int_in_range_def show_nat_digits Let_def)
qed

interpretation decimal: codec show_int "from_chars_all sgnd w" "int_in_range sgnd w"
  for sgnd w
  by unfold_locales (rule from_chars_show_int)

lemma from_chars_in_range: "from_chars_all sgnd w s = Some v \<Longrightarrow> int_in_range sgnd w v"
  by (auto simp: from_chars_all_def int_in_range_def Let_def split: if_splits)

section \<open>Escaping\<close>

text \<open>The reader of an escaped text: an escape character stands for the one behind it.\<close>

fun unescape :: "char \<Rightarrow> string \<Rightarrow> string" where
  "unescape e [] = []"
| "unescape e (c # cs) =
     (if c = e then (case cs of [] \<Rightarrow> [c] | d # ds \<Rightarrow> d # unescape e ds) else c # unescape e cs)"

lemma unescape_escape: "p e \<Longrightarrow> unescape e (escape_with p e s) = s"
  by (induction s) auto

lemma escape_with_append: "escape_with p e (s @ t) = escape_with p e s @ escape_with p e t"
  by (induction s) auto

lemma escape_with_id: "(\<forall>c \<in> set s. \<not> p c) \<Longrightarrow> escape_with p e s = s"
  by (induction s) auto

section \<open>Lists joined by a separator\<close>

fun join_with :: "'a list \<Rightarrow> 'a list list \<Rightarrow> 'a list" where
  "join_with sep [] = []"
| "join_with sep [x] = x"
| "join_with sep (x # xs) = x @ sep @ join_with sep xs"

lemma join_with_Cons: "join_with sep (x # xs) = (if xs = [] then x else x @ sep @ join_with sep xs)"
  by (cases xs) auto

end
