(* ===== verification/Pg_Types.thy ===== *)
theory Pg_Types
  imports Upq_Prelude
begin

text \<open>
  The data model of \<^verbatim>\<open>include/upq/PgTypes.h\<close>: error codes, error details, query options, query
  results with their typed accessors, and the conversion of one text cell into a C++ value
  (\<^verbatim>\<open>QueryResult::parse_cell\<close>).

  A C++ target type is a value of \<open>cpp_type\<close> and a C++ value a value of \<open>cpp_val\<close>: the
  template that the compiler instantiates per type is one function on \<open>cpp_type\<close>, its
  \<^verbatim>\<open>if constexpr\<close> chain the equations of that function in the same order. What lies outside the
  repository, the JSON back end, user-defined stream extractors and floating-point
  conversion, is a field of the record \<open>externs\<close> and never defined here.
\<close>

section \<open>Error codes\<close>

datatype PgErrorCode =
    OK | InvalidFuture | ConnectionClosed | SocketReadFailed | ProtocolCorrupt
  | ParserTruncatedField | ParserTruncatedRow | ParserTruncatedHeader | ServerError
  | AuthFailed | AwaitCanceled | TooManyConnections | Unknown

text \<open>The enumerators \<^verbatim>\<open>None\<close> and \<^verbatim>\<open>Other\<close> are \<open>NoClass\<close> and \<open>OtherClass\<close> here.\<close>

datatype PgSqlStateClass =
    NoClass | ConnectionError | SyntaxError | UndefinedObject | ConstraintViolation
  | UniqueViolation | CheckViolation | NotNullViolation | ForeignKeyViolation | Deadlock
  | SerializationFailure | PrivilegeError | DataException | TransactionState
  | InternalError | OtherClass

fun toString_code :: "PgErrorCode \<Rightarrow> string" where
  "toString_code OK = ''OK''"
| "toString_code InvalidFuture = ''InvalidFuture''"
| "toString_code ConnectionClosed = ''ConnectionClosed''"
| "toString_code SocketReadFailed = ''SocketReadFailed''"
| "toString_code ProtocolCorrupt = ''ProtocolCorrupt''"
| "toString_code ParserTruncatedField = ''ParserTruncatedField''"
| "toString_code ParserTruncatedRow = ''ParserTruncatedRow''"
| "toString_code ParserTruncatedHeader = ''ParserTruncatedHeader''"
| "toString_code ServerError = ''ServerError''"
| "toString_code AuthFailed = ''AuthFailed''"
| "toString_code AwaitCanceled = ''AwaitCanceled''"
| "toString_code TooManyConnections = ''TooManyConnections''"
| "toString_code Unknown = ''Unknown''"

fun toString_class :: "PgSqlStateClass \<Rightarrow> string" where
  "toString_class NoClass = ''None''"
| "toString_class ConnectionError = ''ConnectionError''"
| "toString_class SyntaxError = ''SyntaxError''"
| "toString_class UndefinedObject = ''UndefinedObject''"
| "toString_class ConstraintViolation = ''ConstraintViolation''"
| "toString_class UniqueViolation = ''UniqueViolation''"
| "toString_class CheckViolation = ''CheckViolation''"
| "toString_class NotNullViolation = ''NotNullViolation''"
| "toString_class ForeignKeyViolation = ''ForeignKeyViolation''"
| "toString_class Deadlock = ''Deadlock''"
| "toString_class SerializationFailure = ''SerializationFailure''"
| "toString_class PrivilegeError = ''PrivilegeError''"
| "toString_class DataException = ''DataException''"
| "toString_class TransactionState = ''TransactionState''"
| "toString_class InternalError = ''InternalError''"
| "toString_class OtherClass = ''Other''"

section \<open>Error details, options, results\<close>

record PgErrorDetail =
  ed_sqlstate :: string
  ed_message :: string
  ed_detail :: string
  ed_hint :: string
  ed_category :: PgSqlStateClass

definition no_detail :: PgErrorDetail where
  "no_detail = \<lparr>ed_sqlstate = [], ed_message = [], ed_detail = [], ed_hint = [],
     ed_category = NoClass\<rparr>"

record PgOpError =
  oe_code :: PgErrorCode
  oe_error :: string
  oe_err_detail :: PgErrorDetail

definition op_error :: "PgErrorCode \<Rightarrow> string \<Rightarrow> PgOpError" where
  "op_error c e = \<lparr>oe_code = c, oe_error = e, oe_err_detail = no_detail\<rparr>"

record QueryOpts =
  qo_io_deadline_ms :: u64
  qo_retry_on_connection_loss :: bool
  qo_idempotent :: bool
  qo_retry_budget_ms :: u64

definition default_opts :: QueryOpts where
  "default_opts = \<lparr>qo_io_deadline_ms = 0, qo_retry_on_connection_loss = False,
     qo_idempotent = False, qo_retry_budget_ms = 0\<rparr>"

record Row =
  cols :: "string list"

record QueryResult =
  qr_columns :: "string list"
  qr_rows :: "Row list"
  qr_ok :: bool
  qr_code :: PgErrorCode
  qr_error :: string
  qr_err_detail :: PgErrorDetail
  qr_rows_valid :: bool
  qr_rows_affected :: u64

text \<open>The value-initialised \<^verbatim>\<open>QueryResult{}\<close>.\<close>

definition empty_result :: QueryResult where
  "empty_result = \<lparr>qr_columns = [], qr_rows = [], qr_ok = False, qr_code = Unknown,
     qr_error = [], qr_err_detail = no_detail, qr_rows_valid = True, qr_rows_affected = 0\<rparr>"

record PgCopyResult =
  cr_ok :: bool
  cr_code :: PgErrorCode
  cr_error :: string
  cr_err_detail :: PgErrorDetail
  cr_rows_affected :: u64

definition empty_copy :: PgCopyResult where
  "empty_copy = \<lparr>cr_ok = False, cr_code = Unknown, cr_error = [], cr_err_detail = no_detail,
     cr_rows_affected = 0\<rparr>"

record PgCursorChunk =
  cc_rows :: "Row list"
  cc_columns :: "string list"
  cc_done :: bool
  cc_ok :: bool
  cc_code :: PgErrorCode
  cc_error :: string
  cc_err_detail :: PgErrorDetail

definition empty_chunk :: PgCursorChunk where
  "empty_chunk = \<lparr>cc_rows = [], cc_columns = [], cc_done = False, cc_ok = False,
     cc_code = Unknown, cc_error = [], cc_err_detail = no_detail\<rparr>"

section \<open>Accessors of a row and of a result\<close>

text \<open>
  \<^verbatim>\<open>Row::at\<close> and \<^verbatim>\<open>QueryResult::at\<close> throw \<^verbatim>\<open>std::out_of_range\<close>, which is \<open>None\<close>. The non-const
  overloads are declared \<^verbatim>\<open>noexcept\<close>, so for them \<open>None\<close> is \<^verbatim>\<open>std::terminate\<close>.
\<close>

definition row_at :: "Row \<Rightarrow> nat \<Rightarrow> string option" where
  "row_at r i = (if i < length (cols r) then Some (cols r ! i) else None)"

definition qr_at :: "QueryResult \<Rightarrow> nat \<Rightarrow> Row option" where
  "qr_at q i = (if i < length (qr_rows q) then Some (qr_rows q ! i) else None)"

definition qr_empty :: "QueryResult \<Rightarrow> bool" where
  "qr_empty q \<longleftrightarrow> qr_ok q \<and> qr_rows_valid q \<and> qr_rows q = []"

definition qr_has_rows :: "QueryResult \<Rightarrow> bool" where
  "qr_has_rows q \<longleftrightarrow> qr_ok q \<and> qr_rows_valid q \<and> qr_rows q \<noteq> []"

definition qr_row_count :: "QueryResult \<Rightarrow> nat" where
  "qr_row_count q = length (qr_rows q)"

definition qr_col_count :: "QueryResult \<Rightarrow> nat" where
  "qr_col_count q = (case qr_rows q of [] \<Rightarrow> 0 | r # _ \<Rightarrow> length (cols r))"

definition qr_invariant :: "QueryResult \<Rightarrow> bool" where
  "qr_invariant q \<longleftrightarrow> (case qr_rows q of [] \<Rightarrow> True | r # _ \<Rightarrow> cols r \<noteq> [])"

fun index_from :: "nat \<Rightarrow> string list \<Rightarrow> string \<Rightarrow> nat option" where
  "index_from i [] name = None"
| "index_from i (c # cs) name = (if c = name then Some i else index_from (Suc i) cs name)"

definition column_index :: "QueryResult \<Rightarrow> string \<Rightarrow> nat option" where
  "column_index q name = index_from 0 (qr_columns q) name"

section \<open>C++ target types and values\<close>

datatype cpp_type =
    TString
  | TStringView
  | TBool
  | TInt bool nat              \<comment> \<open>signed?, width in bits\<close>
  | TFloat nat                 \<comment> \<open>width in bits: \<^verbatim>\<open>float\<close> 32, \<^verbatim>\<open>double\<close> 64\<close>
  | TEnum "(int \<times> string) list option" bool nat
      \<comment> \<open>\<^verbatim>\<open>enum_meta<E>::mapping\<close> if specialised; underlying type\<close>
  | TOptional cpp_type
  | TVector cpp_type
  | TJson bool                 \<comment> \<open>\<^verbatim>\<open>PgJson<T, Strict>\<close>\<close>
  | TNumRange cpp_type
  | TStreamed                  \<comment> \<open>a class type with \<^verbatim>\<open>operator>>\<close>\<close>
  | TAggregate                 \<comment> \<open>a reflected aggregate\<close>
  | TUnsupported

datatype 'x cpp_val =
    VStr string
  | VBool bool
  | VInt int
  | VFloat 'x
  | VEnum int
  | VOpt "'x cpp_val option"
  | VVec "'x cpp_val list"
  | VJson 'x
  | VRange "'x cpp_val option" "'x cpp_val option" bool bool bool
      \<comment> \<open>lo, hi, lo_inclusive, hi_inclusive, empty\<close>
  | VUser 'x
  | VNone                      \<comment> \<open>\<^verbatim>\<open>T{}\<close> of a type no decoder accepts\<close>

text \<open>
  The conversions that are not code of the repository. \<open>x_strtod\<close> and \<open>x_from_chars\<close> succeed
  only when the whole text was consumed, as both callers require; \<open>x_json\<close> is
  \<^verbatim>\<open>usub::pg::json::parse<T, Strict>\<close>, which returns the value or an error text; \<open>x_istream\<close> is
  \<^verbatim>\<open>(iss >> tmp) && fully_consumed(iss)\<close>.
\<close>

record 'x externs =
  x_strtod :: "nat \<Rightarrow> string \<Rightarrow> 'x option"
  x_from_chars :: "nat \<Rightarrow> string \<Rightarrow> 'x option"
  x_json :: "bool \<Rightarrow> string \<Rightarrow> string + 'x"
  x_istream :: "string \<Rightarrow> 'x option"
  x_zero :: "'x"               \<comment> \<open>a value-initialised float, JSON value or user object\<close>

definition parse_bool_text :: "string \<Rightarrow> bool option" where
  "parse_bool_text s =
     (if s = ''t'' \<or> s = ''true'' \<or> s = ''1'' then Some True
      else if s = ''f'' \<or> s = ''false'' \<or> s = ''0'' then Some False
      else None)"

text \<open>\<^verbatim>\<open>QueryResult::parse_cell<T>\<close>: a typed value or a \<^verbatim>\<open>PgOpError\<close>.\<close>

fun parse_cell :: "'x externs \<Rightarrow> cpp_type \<Rightarrow> string \<Rightarrow> PgOpError + 'x cpp_val" where
  "parse_cell X TString s = Inr (VStr s)"
| "parse_cell X TStringView s = Inr (VStr s)"
| "parse_cell X TBool s =
     (case parse_bool_text s of Some b \<Rightarrow> Inr (VBool b)
      | None \<Rightarrow> Inl (op_error ProtocolCorrupt ''failed to parse bool''))"
| "parse_cell X (TInt sgnd w) s =
     (case from_chars_all sgnd w s of Some v \<Rightarrow> Inr (VInt v)
      | None \<Rightarrow> Inl (op_error ProtocolCorrupt ''failed to parse integer''))"
| "parse_cell X (TFloat w) s =
     (case x_strtod X w s of Some v \<Rightarrow> Inr (VFloat v)
      | None \<Rightarrow> Inl (op_error ProtocolCorrupt ''failed to parse floating''))"
| "parse_cell X (TEnum m sgnd w) s =
     (case from_chars_all sgnd w s of Some v \<Rightarrow> Inr (VEnum v)
      | None \<Rightarrow> Inl (op_error ProtocolCorrupt ''failed to parse enum underlying''))"
| "parse_cell X (TOptional t) s =
     (if s = ''NULL'' then Inr (VOpt None)
      else case parse_cell X t s of Inl e \<Rightarrow> Inl e | Inr v \<Rightarrow> Inr (VOpt (Some v)))"
| "parse_cell X (TJson strict) s =
     (if s = ''NULL'' then Inl (op_error ProtocolCorrupt ''PgJson cannot be NULL'')
      else case x_json X strict s of Inl e \<Rightarrow> Inl (op_error ProtocolCorrupt e)
           | Inr v \<Rightarrow> Inr (VJson v))"
| "parse_cell X _ s =
     Inl (op_error ProtocolCorrupt ''unsupported target type in QueryResult::get'')"

text \<open>\<^verbatim>\<open>Row::get<T>(qr, col_name)\<close>.\<close>

definition row_get :: "'x externs \<Rightarrow> cpp_type \<Rightarrow> Row \<Rightarrow> QueryResult \<Rightarrow> string
    \<Rightarrow> PgOpError + 'x cpp_val" where
  "row_get X t r q name =
     (case column_index q name of
        None \<Rightarrow> Inl (op_error ParserTruncatedField (''missing column: '' @ name))
      | Some i \<Rightarrow>
          if i \<ge> length (cols r)
          then Inl (op_error ParserTruncatedField ''column index out of row bounds'')
          else parse_cell X t (cols r ! i))"

text \<open>\<^verbatim>\<open>QueryResult::get<T>(row_i, col_name)\<close>.\<close>

definition qr_get :: "'x externs \<Rightarrow> cpp_type \<Rightarrow> QueryResult \<Rightarrow> nat \<Rightarrow> string
    \<Rightarrow> PgOpError + 'x cpp_val" where
  "qr_get X t q row_i name =
     (if \<not> qr_ok q \<or> \<not> qr_rows_valid q
      then Inl \<lparr>oe_code = qr_code q,
                oe_error = (if qr_error q = [] then ''QueryResult not ok/rows invalid''
                            else qr_error q),
                oe_err_detail = qr_err_detail q\<rparr>
      else if row_i \<ge> length (qr_rows q)
      then Inl (op_error ParserTruncatedRow ''row index out of range'')
      else case column_index q name of
          None \<Rightarrow> Inl (op_error ParserTruncatedField (''missing column: '' @ name))
        | Some i \<Rightarrow>
            (let r = qr_rows q ! row_i in
             if i \<ge> length (cols r)
             then Inl (op_error ParserTruncatedField ''column index out of row bounds'')
             else parse_cell X t (cols r ! i)))"

text \<open>\<^verbatim>\<open>detail::to_op_error\<close> (PgReflect.h).\<close>

definition to_op_error :: "QueryResult \<Rightarrow> PgOpError" where
  "to_op_error r = \<lparr>oe_code = qr_code r, oe_error = qr_error r, oe_err_detail = qr_err_detail r\<rparr>"

section \<open>Facts\<close>

lemma toString_code_inject: "toString_code a = toString_code b \<longleftrightarrow> a = b"
  by (cases a; cases b; simp)

lemma toString_class_inject: "toString_class a = toString_class b \<longleftrightarrow> a = b"
  by (cases a; cases b; simp)

lemma index_from_Some:
  "index_from i cs name = Some k \<longleftrightarrow>
     i \<le> k \<and> k - i < length cs \<and> cs ! (k - i) = name \<and> (\<forall>j < k - i. cs ! j \<noteq> name)"
proof (induction cs arbitrary: i)
  case Nil
  then show ?case by simp
next
  case (Cons c cs)
  show ?case
  proof (cases "c = name")
    case True
    then show ?thesis by (force simp: nth_Cons')
  next
    case False
    have "index_from (Suc i) cs name = Some k \<longleftrightarrow>
        i \<le> k \<and> k - i < length (c # cs) \<and> (c # cs) ! (k - i) = name
        \<and> (\<forall>j < k - i. (c # cs) ! j \<noteq> name)"
    proof (cases "k \<le> i")
      case True
      with False show ?thesis by (auto simp: Cons.IH)
    next
      case gt: False
      then obtain d where d: "k - i = Suc d" "k - Suc i = d"
        by (metis Suc_diff_Suc linorder_not_less)
      have "(\<forall>j < Suc d. (c # cs) ! j \<noteq> name) \<longleftrightarrow> (\<forall>j < d. cs ! j \<noteq> name)"
        using False by (auto simp: less_Suc_eq_0_disj)
      with gt d show ?thesis by (auto simp: Cons.IH)
    qed
    with False show ?thesis by simp
  qed
qed

lemma index_from_None: "index_from i cs name = None \<longleftrightarrow> name \<notin> set cs"
  by (induction cs arbitrary: i) auto

lemma column_index_Some:
  "column_index q name = Some k \<longleftrightarrow>
     k < length (qr_columns q) \<and> qr_columns q ! k = name \<and> (\<forall>j < k. qr_columns q ! j \<noteq> name)"
  by (simp add: column_index_def index_from_Some)

lemma column_index_None: "column_index q name = None \<longleftrightarrow> name \<notin> set (qr_columns q)"
  by (simp add: column_index_def index_from_None)

end
