(* ===== verification/Pg_Wire.thy ===== *)
theory Pg_Wire
  imports Pg_Types "HOL-Library.Monad_Syntax"
begin

text \<open>
  The wire-protocol layer: \<^verbatim>\<open>src/upq/PgTypes.cpp\<close> and the frame reader of
  \<^verbatim>\<open>include/upq/PgTypes.h\<close>.

  The parsers index a \<^verbatim>\<open>std::vector<uint8_t>\<close>, where an index past the end is undefined
  behaviour. \<open>vec_at\<close> is that access: \<open>None\<close> is the undefined access, and it propagates, so
  that "the parser never leaves its buffer" is the statement that the result is \<open>Some\<close>. A
  parse error is an ordinary value of the \<open>RowParseContext\<close>.

  The socket of \<^verbatim>\<open>read_exact\<close> / \<^verbatim>\<open>read_frame\<close> belongs to the uvent library: it is a parameter
  \<open>rd\<close>, and \<open>delivers\<close> states what \<^verbatim>\<open>async_read\<close> promises. MD5 is OpenSSL's: a parameter \<open>md5\<close>
  that yields 16 bytes.
\<close>

unbundle bit_operations_syntax

section \<open>Big-endian integers\<close>

definition write_be32 :: "u32 \<Rightarrow> bytes" where
  "write_be32 v =
     [ucast (drop_bit 24 v AND 0xFF), ucast (drop_bit 16 v AND 0xFF),
      ucast (drop_bit 8 v AND 0xFF), ucast (drop_bit 0 v AND 0xFF)]"

definition vec_at :: "'a list \<Rightarrow> nat \<Rightarrow> 'a option" where
  "vec_at v i = (if i < length v then Some (v ! i) else None)"

definition read_be32 :: "bytes \<Rightarrow> nat \<Rightarrow> u32 option" where
  "read_be32 p ofs = do {
     a \<leftarrow> vec_at p ofs; b \<leftarrow> vec_at p (ofs + 1); c \<leftarrow> vec_at p (ofs + 2); d \<leftarrow> vec_at p (ofs + 3);
     Some (push_bit 24 (ucast a) OR push_bit 16 (ucast b) OR push_bit 8 (ucast c)
           OR push_bit 0 (ucast d)) }"

definition rd16 :: "bytes \<Rightarrow> nat \<Rightarrow> u16 option" where
  "rd16 p ofs = do {
     a \<leftarrow> vec_at p ofs; b \<leftarrow> vec_at p (ofs + 1);
     Some (push_bit 8 (ucast a) OR ucast b) }"

text \<open>
  \<^verbatim>\<open>std::string((const char*)&payload[off], len)\<close>: the reference \<^verbatim>\<open>payload[off]\<close> is formed first,
  which is undefined for \<^verbatim>\<open>off == size()\<close> even when \<open>len = 0\<close>; then \<open>len\<close> bytes are read.
\<close>

definition string_at :: "bytes \<Rightarrow> nat \<Rightarrow> nat \<Rightarrow> string option" where
  "string_at p off len =
     (if off < length p \<and> off + len \<le> length p
      then Some (string_of_bytes (take len (drop off p))) else None)"

section \<open>SQLSTATE classification\<close>

definition classify_sqlstate :: "string \<Rightarrow> PgSqlStateClass" where
  "classify_sqlstate s =
     (if length s < 2 then OtherClass
      else if s = ''23505'' then UniqueViolation
      else if s = ''23514'' then CheckViolation
      else if s = ''23502'' then NotNullViolation
      else if s = ''23503'' then ForeignKeyViolation
      else if s = ''40P01'' then Deadlock
      else if s = ''40001'' then SerializationFailure
      else if s = ''42501'' then PrivilegeError
      else if s = ''42P01'' then UndefinedObject
      else let cls = take 2 s in
        if cls = ''08'' then ConnectionError
        else if cls = ''22'' then DataException
        else if cls = ''23'' then ConstraintViolation
        else if cls = ''25'' then TransactionState
        else if cls = ''28'' then PrivilegeError
        else if cls = ''40'' then TransactionState
        else if cls = ''42'' then SyntaxError
        else if cls = ''XX'' then InternalError
        else OtherClass)"

section \<open>ErrorResponse fields\<close>

record PgServerErrorFields =
  ef_severity :: string
  ef_sqlstate :: string
  ef_message :: string
  ef_detail :: string
  ef_hint :: string

definition no_fields :: PgServerErrorFields where
  "no_fields = \<lparr>ef_severity = [], ef_sqlstate = [], ef_message = [], ef_detail = [], ef_hint = []\<rparr>"

text \<open>The inner loop \<^verbatim>\<open>while (end < payload.size() && payload[end] != 0) ++end;\<close>.\<close>

function scan_nul :: "bytes \<Rightarrow> nat \<Rightarrow> nat option" where
  "scan_nul p e =
     (if e < length p
      then do { b \<leftarrow> vec_at p e; if b \<noteq> 0 then scan_nul p (Suc e) else Some e }
      else Some e)"
  by pat_completeness auto
termination
  by (relation "measure (\<lambda>(p, e). length p - e)") auto

definition store_field :: "byte \<Rightarrow> string \<Rightarrow> PgServerErrorFields \<Rightarrow> PgServerErrorFields" where
  "store_field code val f =
     (if code = byte_of_char (CHR ''S'') then f\<lparr>ef_severity := val\<rparr>
      else if code = byte_of_char (CHR ''C'') then f\<lparr>ef_sqlstate := val\<rparr>
      else if code = byte_of_char (CHR ''M'') then f\<lparr>ef_message := val\<rparr>
      else if code = byte_of_char (CHR ''D'') then f\<lparr>ef_detail := val\<rparr>
      else if code = byte_of_char (CHR ''H'') then f\<lparr>ef_hint := val\<rparr>
      else f)"

declare scan_nul.simps [simp del]

lemma scan_nul_ge: "scan_nul p e = Some e' \<Longrightarrow> e \<le> e'"
proof (induction p e arbitrary: e' rule: scan_nul.induct)
  case (1 p e)
  show ?case
  proof (cases "e < length p \<and> p ! e \<noteq> 0")
    case True
    with "1.prems" have "scan_nul p (Suc e) = Some e'"
      by (simp add: scan_nul.simps [of p e] vec_at_def)
    with "1.IH" [of "p ! e"] True show ?thesis by (simp add: vec_at_def)
  next
    case False
    with "1.prems" show ?thesis
      by (auto simp: scan_nul.simps [of p e] vec_at_def split: if_splits)
  qed
qed

function error_fields_loop ::
  "bytes \<Rightarrow> nat \<Rightarrow> PgServerErrorFields \<Rightarrow> PgServerErrorFields option" where
  "error_fields_loop p i f =
     (if i < length p then do {
        code \<leftarrow> vec_at p i;
        if code = 0 then Some f
        else (case scan_nul p (Suc i) of
            None \<Rightarrow> None
          | Some e \<Rightarrow>
              if e \<ge> length p then Some f
              else (case string_at p (Suc i) (e - Suc i) of
                  None \<Rightarrow> None
                | Some val \<Rightarrow> error_fields_loop p (Suc e) (store_field code val f)))}
      else Some f)"
  by pat_completeness auto
termination
  by (relation "measure (\<lambda>(p, i, f). length p - i)") (auto dest: scan_nul_ge)

declare error_fields_loop.simps [simp del]

definition parse_error_fields :: "bytes \<Rightarrow> PgServerErrorFields option" where
  "parse_error_fields p = error_fields_loop p 0 no_fields"

definition add_part :: "string \<Rightarrow> string \<Rightarrow> string \<Rightarrow> string" where
  "add_part sep part msg =
     (if part = [] then msg else (if msg = [] then [] else msg @ sep) @ part)"

definition parse_error :: "bytes \<Rightarrow> string option" where
  "parse_error p = do {
     f \<leftarrow> parse_error_fields p;
     Some (add_part '' | code: '' (ef_sqlstate f)
            (add_part '' | hint: '' (ef_hint f)
              (add_part '' | detail: '' (ef_detail f)
                 (if ef_message f = [] then [] else ef_message f)))) }"

section \<open>RowDescription and DataRow\<close>

record RowParseContext =
  pc_ok :: bool
  pc_code :: PgErrorCode
  pc_msg :: string

definition ctx_ok :: RowParseContext where
  "ctx_ok = \<lparr>pc_ok = True, pc_code = OK, pc_msg = []\<rparr>"

definition ctx_err :: "PgErrorCode \<Rightarrow> string \<Rightarrow> RowParseContext" where
  "ctx_err c m = \<lparr>pc_ok = False, pc_code = c, pc_msg = m\<rparr>"

text \<open>The loop over the fields; \<open>n\<close> is the number of fields still to read.\<close>

fun row_desc_loop :: "nat \<Rightarrow> bytes \<Rightarrow> nat \<Rightarrow> string list \<Rightarrow> (string list \<times> RowParseContext) option" where
  "row_desc_loop 0 p off out = Some (out, ctx_ok)"
| "row_desc_loop (Suc n) p off out =
     (case scan_nul p off of
        None \<Rightarrow> None
      | Some e \<Rightarrow>
          if e \<ge> length p
          then Some (out, ctx_err ParserTruncatedHeader ''column name not terminated'')
          else (case string_at p off (e - off) of
              None \<Rightarrow> None
            | Some name \<Rightarrow>
                if Suc e + 18 > length p
                then Some (out, ctx_err ParserTruncatedHeader
                             ''row_description missing fixed tail (18 bytes)'')
                else row_desc_loop n p (Suc e + 18) (out @ [name])))"

definition parse_row_description_ex :: "bytes \<Rightarrow> (string list \<times> RowParseContext) option" where
  "parse_row_description_ex p =
     (if length p < 2
      then Some ([], ctx_err ParserTruncatedHeader ''row_description too short (<2)'')
      else do { n \<leftarrow> rd16 p 0; row_desc_loop (unat n) p 2 [] })"

text \<open>\<open>out\<close> is \<^verbatim>\<open>out_row.cols\<close>, which the function appends to and never clears.\<close>

fun data_row_loop :: "nat \<Rightarrow> bytes \<Rightarrow> nat \<Rightarrow> string list \<Rightarrow> (string list \<times> RowParseContext) option" where
  "data_row_loop 0 p off out = Some (out, ctx_ok)"
| "data_row_loop (Suc n) p off out =
     (if off + 4 > length p
      then Some (out @ [[]], ctx_err ParserTruncatedField ''no space for field length'')
      else case read_be32 p off of
          None \<Rightarrow> None
        | Some w \<Rightarrow>
            (let col_len = sint w; off = off + 4 in
             if col_len = -1 then data_row_loop n p off (out @ [[]])
             else if col_len < 0
             then Some (out @ [[]], ctx_err ProtocolCorrupt ''negative col_len'')
             else if off + nat col_len > length p
             then Some (out @ [[]], ctx_err ParserTruncatedField ''field overruns payload'')
             else (case string_at p off (nat col_len) of
                 None \<Rightarrow> None
               | Some v \<Rightarrow> data_row_loop n p (off + nat col_len) (out @ [v]))))"

definition parse_data_row_ex :: "bytes \<Rightarrow> Row \<Rightarrow> (Row \<times> RowParseContext) option" where
  "parse_data_row_ex p row =
     (if length p < 2
      then Some (row, ctx_err ParserTruncatedRow ''data_row too short (<2)'')
      else do {
        n \<leftarrow> rd16 p 0;
        (cs, ctx) \<leftarrow> data_row_loop (unat n) p 2 (cols row);
        Some (row\<lparr>cols := cs\<rparr>, ctx) })"

section \<open>Messages to the server\<close>

text \<open>\<^verbatim>\<open>push_cstr\<close> stops at the terminator of its literal; every key it is called with is NUL-free.\<close>

definition push_cstr :: "bytes \<Rightarrow> string \<Rightarrow> bytes" where
  "push_cstr v s = v @ bytes_of_string (takeWhile (\<lambda>c. c \<noteq> NUL) s) @ [0]"

definition push_kv :: "bytes \<Rightarrow> string \<Rightarrow> string \<Rightarrow> bytes" where
  "push_kv v k val = push_cstr v k @ bytes_of_string val @ [0]"

definition build_startup_message :: "string \<Rightarrow> string \<Rightarrow> bytes" where
  "build_startup_message user db =
     (let tail = push_kv [] ''user'' user;
          tail = push_kv tail ''database'' db;
          tail = push_kv tail ''client_encoding'' ''UTF8'';
          tail = tail @ [0];
          total_len = 4 + 4 + (word_of_nat (length tail) :: u32)
      in write_be32 total_len @ write_be32 196608 @ tail)"

definition build_password_message :: "string \<Rightarrow> bytes" where
  "build_password_message password =
     (let len = 4 + (word_of_nat (length password) :: u32) + 1
      in [byte_of_char (CHR ''p'')] @ write_be32 len @ bytes_of_string password @ [0])"

definition hex_digit :: "byte \<Rightarrow> char" where
  "hex_digit n = ''0123456789abcdef'' ! unat (n AND 0xF)"

definition md5_hex :: "(bytes \<Rightarrow> bytes) \<Rightarrow> bytes \<Rightarrow> string" where
  "md5_hex md5 data =
     (let digest = md5 data
      in concat (map (\<lambda>i. [hex_digit (drop_bit 4 (digest ! i)), hex_digit (digest ! i)]) [0..<16]))"

definition build_md5_password_message ::
  "(bytes \<Rightarrow> bytes) \<Rightarrow> string \<Rightarrow> string \<Rightarrow> bytes \<Rightarrow> bytes" where
  "build_md5_password_message md5 user password salt =
     (let step1_hex = md5_hex md5 (bytes_of_string (password @ user));
          step2_src = bytes_of_string step1_hex @ [salt ! 0, salt ! 1, salt ! 2, salt ! 3];
          step2_hex = md5_hex md5 step2_src;
          final_str = ''md5'' @ step2_hex;
          msg_len = 4 + (word_of_nat (length final_str) :: u32) + 1
      in [byte_of_char (CHR ''p'')] @ write_be32 msg_len @ bytes_of_string final_str @ [0])"

definition build_simple_query :: "string \<Rightarrow> bytes" where
  "build_simple_query sql =
     (let len = 4 + (word_of_nat (length sql) :: u32) + 1
      in [byte_of_char (CHR ''Q'')] @ write_be32 len @ bytes_of_string sql @ [0])"

section \<open>Reading frames from a socket\<close>

record PgWireError =
  we_code :: PgErrorCode
  we_message :: string

record PgFrame =
  fr_type :: char
  fr_payload :: bytes

text \<open>
  \<^verbatim>\<open>read_exact\<close>: reads until \<open>n\<close> bytes are there. \<open>rd s k\<close> is \<^verbatim>\<open>co_await sock.async_read(tmp, k)\<close>:
  the returned count, the bytes of \<^verbatim>\<open>tmp\<close>, and the socket afterwards. \<open>acc\<close> is \<^verbatim>\<open>buf\<close> up to \<^verbatim>\<open>off\<close>.
  The \<^verbatim>\<open>memcpy\<close> of \<open>r\<close> bytes is undefined (\<open>None\<close>) when \<^verbatim>\<open>tmp\<close> holds fewer or \<^verbatim>\<open>buf\<close> has less room.
\<close>

function read_exact_loop ::
  "('s \<Rightarrow> nat \<Rightarrow> int \<times> bytes \<times> 's) \<Rightarrow> 's \<Rightarrow> nat \<Rightarrow> nat \<Rightarrow> bytes
    \<Rightarrow> ((PgWireError + bytes) \<times> 's) option" where
  "read_exact_loop rd s n off acc =
     (if off < n
      then (case rd s (n - off) of (r, tmp, s') \<Rightarrow>
             if r \<le> 0
             then Some (Inl \<lparr>we_code = SocketReadFailed,
                             we_message = ''async_read returned <=0''\<rparr>, s')
             else if length tmp < nat r \<or> n - off < nat r then None
             else read_exact_loop rd s' n (off + nat r) (acc @ take (nat r) tmp))
      else Some (Inr acc, s))"
  by pat_completeness auto
termination
  by (relation "measure (\<lambda>(rd, s, n, off, acc). n - off)") auto

declare read_exact_loop.simps [simp del]

definition read_exact ::
  "('s \<Rightarrow> nat \<Rightarrow> int \<times> bytes \<times> 's) \<Rightarrow> 's \<Rightarrow> nat \<Rightarrow> ((PgWireError + bytes) \<times> 's) option" where
  "read_exact rd s n = read_exact_loop rd s n 0 []"

definition kMaxPgFramePayload :: u32 where
  "kMaxPgFramePayload = 512 * 1024 * 1024"

definition wire_error :: "string \<Rightarrow> PgWireError" where
  "wire_error m = \<lparr>we_code = ProtocolCorrupt, we_message = m\<rparr>"

definition read_frame ::
  "('s \<Rightarrow> nat \<Rightarrow> int \<times> bytes \<times> 's) \<Rightarrow> 's \<Rightarrow> ((PgWireError + PgFrame) \<times> 's) option" where
  "read_frame rd s = do {
     (hdr_res, s1) \<leftarrow> read_exact rd s 5;
     (case hdr_res of
        Inl e \<Rightarrow> Some (Inl e, s1)
      | Inr header \<Rightarrow> do {
          t \<leftarrow> vec_at header 0;
          len \<leftarrow> read_be32 header 1;
          if len < 4 then Some (Inl (wire_error ''frame length < 4''), s1)
          else let payload_len = len - 4 in
            if payload_len > kMaxPgFramePayload
            then Some (Inl (wire_error ''frame length exceeds kMaxPgFramePayload''), s1)
            else do {
              (pay_res, s2) \<leftarrow> read_exact rd s1 (unat payload_len);
              (case pay_res of
                 Inl e \<Rightarrow> Some (Inl e, s2)
               | Inr payload \<Rightarrow>
                   Some (Inr \<lparr>fr_type = char_of_byte t, fr_payload = payload\<rparr>, s2)) } }) }"

text \<open>
  What \<^verbatim>\<open>async_read\<close> promises, for a view \<open>rest\<close> of the bytes the peer still delivers: a positive
  count of at most \<open>k\<close> bytes, the next ones in order, or a count \<open>\<le> 0\<close> at the end.
\<close>

definition delivers :: "('s \<Rightarrow> nat \<Rightarrow> int \<times> bytes \<times> 's) \<Rightarrow> ('s \<Rightarrow> bytes) \<Rightarrow> bool" where
  "delivers rd rest \<longleftrightarrow>
     (\<forall>s k. 0 < k \<longrightarrow> (case rd s k of (r, tmp, s') \<Rightarrow>
        if rest s = [] then r \<le> 0 \<and> rest s' = []
        else 0 < r \<and> nat r \<le> k \<and> length tmp = nat r \<and> rest s = tmp @ rest s'))"

section \<open>Facts on the byte level\<close>

lemma bit_255: "bit (255 :: int) k \<longleftrightarrow> k < 8"
proof -
  have "(255 :: int) = mask 8" by (simp add: mask_eq_exp_minus_1)
  then show ?thesis by (simp only: bit_mask_iff) auto
qed

lemma be32_word:
  "push_bit 24 (ucast (ucast (drop_bit 24 v AND 0xFF) :: byte))
     OR push_bit 16 (ucast (ucast (drop_bit 16 v AND 0xFF) :: byte))
     OR push_bit 8 (ucast (ucast (drop_bit 8 v AND 0xFF) :: byte))
     OR push_bit 0 (ucast (ucast (drop_bit 0 v AND 0xFF) :: byte)) = (v :: u32)"
  (is "?L = v")
proof (rule bit_word_eqI)
  fix n :: nat
  assume "n < LENGTH(32)"
  then consider "n < 8" | "8 \<le> n" "n < 16" | "16 \<le> n" "n < 24" | "24 \<le> n" "n < 32"
    by fastforce
  then show "bit ?L n = bit v n"
    by cases (auto simp: bit_simps bit_255)
qed

lemma read_write_be32: "read_be32 (xs @ write_be32 v @ ys) (length xs) = Some v"
  by (simp add: read_be32_def write_be32_def vec_at_def nth_append be32_word [simplified])

lemma scan_nul_eq: "e \<le> length p \<Longrightarrow> scan_nul p e = Some (e + length (takeWhile (\<lambda>b. b \<noteq> 0) (drop e p)))"
proof (induction p e rule: scan_nul.induct)
  case (1 p e)
  show ?case
  proof (cases "e < length p")
    case True
    with "1.IH" [of "p ! e"] show ?thesis
      by (cases "p ! e = 0") (auto simp: scan_nul.simps [of p e] vec_at_def Cons_nth_drop_Suc [symmetric])
  next
    case False
    with "1.prems" show ?thesis by (simp add: scan_nul.simps)
  qed
qed

lemma scan_nul_le: "scan_nul p e = Some e' \<Longrightarrow> e \<le> length p \<Longrightarrow> e \<le> e' \<and> e' \<le> length p"
  using length_takeWhile_le [of "\<lambda>b. b \<noteq> 0" "drop e p"] by (auto simp: scan_nul_eq)

lemma error_fields_loop_safe: "error_fields_loop p i f \<noteq> None"
proof (induction p i f rule: error_fields_loop.induct)
  case (1 p i f)
  show ?case
  proof (cases "i < length p \<and> p ! i \<noteq> 0")
    case True
    then obtain e where e: "scan_nul p (Suc i) = Some e" by (simp add: scan_nul_eq)
    with True have le: "Suc i \<le> e" "e \<le> length p" using scan_nul_le by fastforce+
    show ?thesis
    proof (cases "e < length p")
      case lt: True
      with le have "string_at p (Suc i) (e - Suc i) = Some (string_of_bytes (take (e - Suc i) (drop (Suc i) p)))"
        by (simp add: string_at_def)
      with True e lt "1.IH" [of "p ! i" e] show ?thesis
        by (simp add: error_fields_loop.simps [of p i] vec_at_def)
    next
      case False
      with True e show ?thesis by (simp add: error_fields_loop.simps [of p i] vec_at_def)
    qed
  next
    case False
    then show ?thesis by (auto simp: error_fields_loop.simps [of p i] vec_at_def)
  qed
qed


definition be16 :: "nat \<Rightarrow> bytes" where
  "be16 n = [word_of_nat (drop_bit 8 n), word_of_nat n]"

lemma rd16_be16: "rd16 (be16 n @ ys) 0 = Some (word_of_nat n)"
proof -
  have "push_bit 8 (ucast (word_of_nat (drop_bit 8 n) :: byte)) OR ucast (word_of_nat n :: byte)
      = (word_of_nat n :: u16)"
    by (rule bit_word_eqI) (auto simp: bit_simps)
  then show ?thesis
    by (simp add: rd16_def be16_def vec_at_def)
qed

section \<open>Facts on the parser loops\<close>

lemma read_be32_Some: "off + 4 \<le> length p \<Longrightarrow> \<exists>w. read_be32 p off = Some w"
  by (simp add: read_be32_def vec_at_def)

lemma rd16_Some: "ofs + 2 \<le> length p \<Longrightarrow> \<exists>w. rd16 p ofs = Some w"
  by (simp add: rd16_def vec_at_def)

lemma row_desc_loop_safe: "off \<le> length p \<Longrightarrow> row_desc_loop n p off out \<noteq> None"
proof (induction n arbitrary: off out)
  case 0
  then show ?case by simp
next
  case (Suc n)
  from Suc.prems obtain e where e: "scan_nul p off = Some e" by (simp add: scan_nul_eq)
  with Suc.prems have "off \<le> e" "e \<le> length p" using scan_nul_le by blast+
  then have "e < length p \<Longrightarrow> \<exists>v. string_at p off (e - off) = Some v"
    by (simp add: string_at_def)
  then show ?case using e Suc.IH by (auto simp del: Suc.IH)
qed

lemma data_row_loop_None:
  "data_row_loop n p off out = None \<Longrightarrow>
     off + 4 \<le> length p \<and> read_be32 p (length p - 4) = Some 0"
proof (induction n arbitrary: off out)
  case 0
  then show ?case by simp
next
  case (Suc n)
  then have le: "off + 4 \<le> length p" by (auto split: if_splits)
  then obtain w where w: "read_be32 p off = Some w" using read_be32_Some by blast
  consider (fault) "\<not> sint w < 0" "off + 4 + nat (sint w) \<le> length p"
      "string_at p (off + 4) (nat (sint w)) = None"
    | (later) off' out' where "data_row_loop n p off' out' = None"
    using Suc.prems le w by (auto simp: Let_def split: if_splits option.splits)
  then show ?case
  proof cases
    case fault
    then have "sint w = 0" "off = length p - 4"
      using le by (auto simp: string_at_def split: if_splits)
    with w le show ?thesis by (simp add: signed_eq_0_iff)
  next
    case later
    with le show ?thesis using Suc.IH by blast
  qed
qed

lemma data_row_loop_ok:
  "data_row_loop n p off out = Some (out', ctx) \<Longrightarrow>
     \<exists>vs. out' = out @ vs \<and> length vs \<le> n \<and> (pc_ok ctx \<longrightarrow> length vs = n)
        \<and> pc_ok ctx = (pc_code ctx = OK)"
proof (induction n arbitrary: off out)
  case 0
  then show ?case by (auto simp: ctx_ok_def)
next
  case (Suc n)
  consider (err) c m where "c \<noteq> OK" "out' = out @ [[]]" "ctx = ctx_err c m"
    | (step) off2 v where "data_row_loop n p off2 (out @ [v]) = Some (out', ctx)"
    using Suc.prems by (auto simp: Let_def split: if_splits option.splits)
  then show ?case
  proof cases
    case err
    then show ?thesis by (auto simp: ctx_err_def)
  next
    case step
    from Suc.IH [OF this] obtain vs where "out' = out @ v # vs" "length vs \<le> n"
      "pc_ok ctx \<longrightarrow> length vs = n" "pc_ok ctx = (pc_code ctx = OK)" by auto
    then show ?thesis by (intro exI [of _ "v # vs"]) auto
  qed
qed


section \<open>The reference encodings\<close>

text \<open>The encodings of the PostgreSQL protocol (what a server sends).\<close>

definition enc_field_desc :: "string \<times> bytes \<Rightarrow> bytes" where
  "enc_field_desc = (\<lambda>(name, tail). bytes_of_string name @ [0] @ tail)"

definition enc_row_description :: "(string \<times> bytes) list \<Rightarrow> bytes" where
  "enc_row_description fs = be16 (length fs) @ concat (map enc_field_desc fs)"

definition enc_value :: "string option \<Rightarrow> bytes" where
  "enc_value v = (case v of None \<Rightarrow> write_be32 (- 1)
     | Some s \<Rightarrow> write_be32 (word_of_nat (length s)) @ bytes_of_string s)"

definition enc_data_row :: "string option list \<Rightarrow> bytes" where
  "enc_data_row vs = be16 (length vs) @ concat (map enc_value vs)"

definition field_desc_ok :: "string \<times> bytes \<Rightarrow> bool" where
  "field_desc_ok f \<longleftrightarrow> NUL \<notin> set (fst f) \<and> length (snd f) = 18"

definition value_ok :: "string option \<Rightarrow> bool" where
  "value_ok v \<longleftrightarrow> (case v of None \<Rightarrow> True | Some s \<Rightarrow> length s < 2 ^ 31)"

definition cell_text :: "string option \<Rightarrow> string" where
  "cell_text v = (case v of None \<Rightarrow> [] | Some s \<Rightarrow> s)"

lemma length_write_be32 [simp]: "length (write_be32 v) = 4"
  by (simp add: write_be32_def)

lemma length_be16 [simp]: "length (be16 n) = 2"
  by (simp add: be16_def)

lemma scan_nul_cstr:
  assumes "NUL \<notin> set s"
  shows "scan_nul (pre @ bytes_of_string s @ 0 # rest) (length pre) = Some (length pre + length s)"
proof -
  have "takeWhile (\<lambda>b. b \<noteq> 0) (bytes_of_string s @ 0 # rest) = bytes_of_string s"
    using assms by (subst takeWhile_append2) (auto simp: bytes_of_string_def)
  then show ?thesis by (simp add: scan_nul_eq)
qed

lemma string_at_mid:
  "0 < length (bytes_of_string s @ rest) \<Longrightarrow>
     string_at (pre @ bytes_of_string s @ rest) (length pre) (length s) = Some s"
  by (auto simp: string_at_def)

lemma row_desc_loop_enc:
  "list_all field_desc_ok fs \<Longrightarrow>
     row_desc_loop (length fs) (pre @ concat (map enc_field_desc fs) @ rest) (length pre) out
       = Some (out @ map fst fs, ctx_ok)"
proof (induction fs arbitrary: pre out)
  case Nil
  then show ?case by simp
next
  case (Cons f fs)
  obtain name tail where f: "f = (name, tail)" by (cases f)
  from Cons.prems f have fd: "field_desc_ok (name, tail)" and fs: "list_all field_desc_ok fs"
    by simp_all
  from fd have ok: "NUL \<notin> set name" "length tail = 18" by (simp_all add: field_desc_ok_def)
  let ?p = "pre @ concat (map enc_field_desc (f # fs)) @ rest"
  let ?pre2 = "pre @ bytes_of_string name @ [0] @ tail"
  have p: "?p = pre @ bytes_of_string name @ 0 # (tail @ concat (map enc_field_desc fs) @ rest)"
    "?p = ?pre2 @ concat (map enc_field_desc fs) @ rest"
    by (simp_all add: f enc_field_desc_def)
  have e: "scan_nul ?p (length pre) = Some (length pre + length name)"
    unfolding p(1) by (rule scan_nul_cstr) (rule ok)
  have nm: "string_at ?p (length pre) (length name) = Some name"
    unfolding p(1) by (rule string_at_mid) simp
  have len: "length ?pre2 = Suc (length pre + length name) + 18" "length ?p \<ge> length ?pre2"
    by (simp_all add: ok f enc_field_desc_def)
  have "row_desc_loop (length fs) ?p (Suc (length pre + length name) + 18) (out @ [name])
      = Some ((out @ [name]) @ map fst fs, ctx_ok)"
    using Cons.IH [OF fs, of ?pre2 "out @ [name]"] by (simp only: p(2) len)
  with e nm len show ?case by (simp add: f)
qed

lemma sint_word_of_nat: "n < 2 ^ 31 \<Longrightarrow> sint (word_of_nat n :: u32) = int n"
  by (simp add: signed_of_nat signed_take_bit_int_eq_self)

lemma data_row_loop_null:
  "off + 4 \<le> length p \<Longrightarrow> read_be32 p off = Some (- 1) \<Longrightarrow>
     data_row_loop (Suc n) p off out = data_row_loop n p (off + 4) (out @ [[]])"
  by simp

lemma data_row_loop_value:
  "off + 4 + len \<le> length p \<Longrightarrow> read_be32 p off = Some w \<Longrightarrow> sint w = int len \<Longrightarrow>
     data_row_loop (Suc n) p off out =
       (case string_at p (off + 4) len of None \<Rightarrow> None
        | Some v \<Rightarrow> data_row_loop n p (off + 4 + len) (out @ [v]))"
  by (simp add: Let_def split: option.split)

lemma enc_value_not_Nil [simp]: "enc_value v \<noteq> []"
  by (simp add: enc_value_def write_be32_def split: option.split)

lemma data_row_step_null:
  fixes pre rest :: bytes
  defines "p \<equiv> pre @ enc_value None @ rest"
  shows "data_row_loop (Suc n) p (length pre) out = data_row_loop n p (length (pre @ enc_value None)) (out @ [[]])"
proof -
  have "read_be32 p (length pre) = Some (- 1)"
    unfolding p_def enc_value_def by (simp add: read_write_be32)
  then show ?thesis
    using data_row_loop_null [of "length pre" p n out] by (simp add: p_def enc_value_def)
qed

text \<open>The value is found behind its length, unless both it and the rest of the payload are empty.\<close>

lemma data_row_step_value:
  fixes pre rest :: bytes and v :: string
  defines "p \<equiv> pre @ enc_value (Some v) @ rest"
  assumes "value_ok (Some v)"
  shows "data_row_loop (Suc n) p (length pre) out =
    (if v = [] \<and> rest = [] then None else data_row_loop n p (length (pre @ enc_value (Some v))) (out @ [v]))"
proof -
  let ?hd = "write_be32 (word_of_nat (length v))"
  have p: "p = pre @ ?hd @ (bytes_of_string v @ rest)" "p = (pre @ ?hd) @ bytes_of_string v @ rest"
    by (simp_all add: p_def enc_value_def)
  have sl: "sint (word_of_nat (length v) :: u32) = int (length v)"
    using assms by (simp add: value_ok_def sint_word_of_nat)
  have rd: "read_be32 p (length pre) = Some (word_of_nat (length v))"
    unfolding p(1) by (rule read_write_be32)
  have "string_at p (length pre + 4) (length v) = (if v = [] \<and> rest = [] then None else Some v)"
  proof (cases "v = [] \<and> rest = []")
    case True
    then show ?thesis by (simp add: p(1) string_at_def)
  next
    case False
    then have "0 < length (bytes_of_string v @ rest)" by (auto simp flip: length_greater_0_conv)
    with False show ?thesis
      using string_at_mid [of v rest "pre @ ?hd"] p(2) by simp
  qed
  then show ?thesis
    using data_row_loop_value [OF _ rd sl, of n out] by (simp add: p(1) enc_value_def add.assoc)
qed

lemma data_row_loop_enc:
  "list_all value_ok vs \<Longrightarrow>
     data_row_loop (length vs) (pre @ concat (map enc_value vs)) (length pre) out
       = (if vs \<noteq> [] \<and> last vs = Some [] then None
          else Some (out @ map cell_text vs, ctx_ok))"
proof (induction vs arbitrary: pre out)
  case (Cons v vs)
  let ?rest = "concat (map enc_value vs)"
  from Cons.prems have ok: "value_ok v" "list_all value_ok vs" by simp_all
  note IH = Cons.IH [OF ok(2), of "pre @ enc_value v"]
  have r: "?rest = [] \<longleftrightarrow> vs = []" by (cases vs) auto
  show ?case
  proof (cases v)
    case None
    with IH [of "out @ [[]]"] data_row_step_null [of "length vs" pre ?rest out] show ?thesis
      by (simp add: cell_text_def del: data_row_loop.simps)
  next
    case (Some s)
    with IH [of "out @ [s]"] data_row_step_value [of s "length vs" pre ?rest out] ok(1) r show ?thesis
      by (auto simp: cell_text_def simp del: data_row_loop.simps)
  qed
qed simp

section \<open>Facts on reading frames\<close>

lemma deliversD:
  assumes "delivers rd rest" "0 < k" "rd s k = (r, tmp, s')"
  shows "rest s = [] \<Longrightarrow> r \<le> 0 \<and> rest s' = []"
    and "rest s \<noteq> [] \<Longrightarrow> 0 < r \<and> nat r \<le> k \<and> length tmp = nat r \<and> rest s = tmp @ rest s'"
proof -
  have *: "case rd s k of (r, tmp, s') \<Rightarrow>
        if rest s = [] then r \<le> 0 \<and> rest s' = []
        else 0 < r \<and> nat r \<le> k \<and> length tmp = nat r \<and> rest s = tmp @ rest s'"
    using assms(1) [unfolded delivers_def, THEN spec, THEN spec] assms(2) by (rule mp)
  then have *: "if rest s = [] then r \<le> 0 \<and> rest s' = []
     else 0 < r \<and> nat r \<le> k \<and> length tmp = nat r \<and> rest s = tmp @ rest s'"
    unfolding assms(3) case_prod_conv .
  show "rest s = [] \<Longrightarrow> r \<le> 0 \<and> rest s' = []" using * by (simp only: if_True)
  show "rest s \<noteq> [] \<Longrightarrow> 0 < r \<and> nat r \<le> k \<and> length tmp = nat r \<and> rest s = tmp @ rest s'"
    using * by (simp only: if_False)
qed

text \<open>The outcome of asking for \<open>n\<close> bytes of a stream that still delivers \<open>bs\<close>.\<close>

definition read_outcome :: "nat \<Rightarrow> bytes \<Rightarrow> PgWireError + bytes" where
  "read_outcome n bs =
     (if n \<le> length bs then Inr (take n bs)
      else Inl \<lparr>we_code = SocketReadFailed, we_message = ''async_read returned <=0''\<rparr>)"

lemma read_outcome_append:
  "length tmp \<le> k \<Longrightarrow> map_sum id (\<lambda>bs. acc @ bs) (read_outcome k (tmp @ bs))
     = map_sum id (\<lambda>bs. (acc @ tmp) @ bs) (read_outcome (k - length tmp) bs)"
  by (auto simp: read_outcome_def)

lemma read_exact_loop_delivers:
  assumes "delivers rd rest" "off \<le> n"
  shows "\<exists>s'. read_exact_loop rd s n off acc
             = Some (map_sum id (\<lambda>bs. acc @ bs) (read_outcome (n - off) (rest s)), s')
           \<and> rest s' = drop (n - off) (rest s)"
  using assms(2)
proof (induction "n - off" arbitrary: off acc s rule: less_induct)
  case less
  show ?case
  proof (cases "off < n")
    case False
    with less.prems show ?thesis by (simp add: read_exact_loop.simps read_outcome_def)
  next
    case True
    obtain r tmp s1 where rd: "rd s (n - off) = (r, tmp, s1)" by (cases "rd s (n - off)")
    note d = deliversD [OF assms(1) _ rd]
    show ?thesis
    proof (cases "rest s = []")
      case True
      with d \<open>off < n\<close> rd show ?thesis
        by (simp add: read_exact_loop.simps [of rd s n off] read_outcome_def)
    next
      case ne: False
      with d \<open>off < n\<close> have r: "0 < r" "nat r \<le> n - off" "length tmp = nat r" "rest s = tmp @ rest s1"
        by simp_all
      let ?off = "off + nat r"
      have step: "read_exact_loop rd s n off acc = read_exact_loop rd s1 n ?off (acc @ tmp)"
        using r(1-3) rd \<open>off < n\<close> by (simp add: read_exact_loop.simps [of rd s n off])
      have len: "length tmp \<le> n - off" and off: "n - ?off = n - off - length tmp"
        using r(2,3) by simp_all
      have out: "map_sum id (\<lambda>bs. acc @ bs) (read_outcome (n - off) (rest s))
          = map_sum id (\<lambda>bs. (acc @ tmp) @ bs) (read_outcome (n - ?off) (rest s1))"
        unfolding off r(4) by (rule read_outcome_append) (rule len)
      have "drop (n - off) (rest s) = drop (n - ?off) (rest s1)"
        unfolding off r(4) using len by simp
      with less.hyps [of ?off s1 "acc @ tmp"] r \<open>off < n\<close> show ?thesis
        unfolding step out by simp
    qed
  qed
qed

text \<open>
  \<^verbatim>\<open>read_exact\<close> is independent of how the peer's bytes are cut into packets: it returns exactly
  the next \<open>n\<close> bytes when they come, and an error when they do not.
\<close>

lemma read_exact_delivers:
  assumes "delivers rd rest"
  shows "\<exists>s'. read_exact rd s n = Some (read_outcome n (rest s), s') \<and> rest s' = drop n (rest s)"
proof -
  have "map_sum id (\<lambda>bs. [] @ bs) x = x" for x :: "PgWireError + bytes"
    by (cases x) simp_all
  with read_exact_loop_delivers [OF assms, of 0 n s "[]"] show ?thesis
    by (simp add: read_exact_def)
qed

definition enc_frame :: "char \<Rightarrow> bytes \<Rightarrow> bytes" where
  "enc_frame t payload = byte_of_char t # write_be32 (4 + word_of_nat (length payload)) @ payload"

definition frame_fits :: "bytes \<Rightarrow> bool" where
  "frame_fits payload \<longleftrightarrow> length payload \<le> unat kMaxPgFramePayload"

lemma unat_kMax: "unat kMaxPgFramePayload = 536870912"
  by (simp add: kMaxPgFramePayload_def)

lemma frame_len_word:
  assumes "n \<le> unat kMaxPgFramePayload"
  shows "unat (word_of_nat n :: u32) = n" "unat (4 + word_of_nat n :: u32) = 4 + n"
    "\<not> (4 + word_of_nat n :: u32) < 4" "\<not> word_of_nat n > kMaxPgFramePayload"
proof -
  from assms have n: "n \<le> 536870912" by (simp add: unat_kMax)
  then show u: "unat (word_of_nat n :: u32) = n"
    by (simp add: unat_of_nat take_bit_nat_eq_self)
  have "(4 + word_of_nat n :: u32) = word_of_nat (4 + n)" by simp
  then show u4: "unat (4 + word_of_nat n :: u32) = 4 + n"
    using n by (simp only: unat_of_nat) (simp add: take_bit_nat_eq_self)
  show "\<not> (4 + word_of_nat n :: u32) < 4"
    by (simp add: word_less_nat_alt u4 del: of_nat_add)
  show "\<not> word_of_nat n > kMaxPgFramePayload"
    using assms by (simp add: word_less_nat_alt u)
qed

text \<open>Reading back one frame in front of an arbitrary continuation of the stream.\<close>

lemma read_frame_enc:
  assumes d: "delivers rd rest" and rest: "rest s = enc_frame t payload @ cont"
    and fits: "frame_fits payload"
  shows "\<exists>s'. read_frame rd s = Some (Inr \<lparr>fr_type = t, fr_payload = payload\<rparr>, s') \<and> rest s' = cont"
proof -
  let ?len = "4 + word_of_nat (length payload) :: u32"
  note w = frame_len_word [OF fits [unfolded frame_fits_def]]
  obtain s1 where s1: "read_exact rd s 5 = Some (Inr (byte_of_char t # write_be32 ?len), s1)"
    "rest s1 = payload @ cont"
    using read_exact_delivers [OF d, of s 5] by (auto simp: rest enc_frame_def read_outcome_def)
  obtain s2 where s2: "read_exact rd s1 (length payload) = Some (Inr payload, s2)" "rest s2 = cont"
    using read_exact_delivers [OF d, of s1 "length payload"] by (auto simp: s1 read_outcome_def)
  have hd: "read_be32 (byte_of_char t # write_be32 ?len) 1 = Some ?len"
    using read_write_be32 [of "[byte_of_char t]" ?len "[]"] by simp
  have "read_frame rd s = Some (Inr \<lparr>fr_type = t, fr_payload = payload\<rparr>, s2)"
    using s1 s2 w hd by (simp add: read_frame_def vec_at_def Let_def)
  with s2 show ?thesis by blast
qed

lemma simple_query_frame: "build_simple_query sql = enc_frame (CHR ''Q'') (bytes_of_string sql @ [0])"
  by (simp add: build_simple_query_def enc_frame_def ac_simps)

lemma password_frame: "build_password_message pw = enc_frame (CHR ''p'') (bytes_of_string pw @ [0])"
  by (simp add: build_password_message_def enc_frame_def ac_simps)

lemma read_frame_total:
  assumes d: "delivers rd rest"
  shows "\<exists>res s'. read_frame rd s = Some (res, s')
     \<and> (\<forall>f. res = Inr f \<longrightarrow> frame_fits (fr_payload f) \<and> 
          length (rest s) = 5 + length (fr_payload f) + length (rest s'))"
proof -
  obtain s1 where s1: "read_exact rd s 5 = Some (read_outcome 5 (rest s), s1)"
    and r1: "rest s1 = drop 5 (rest s)"
    using read_exact_delivers [OF d] by blast
  show ?thesis
  proof (cases "5 \<le> length (rest s)")
    case False
    with s1 show ?thesis by (simp add: read_frame_def read_outcome_def)
  next
    case True
    let ?h = "take 5 (rest s)"
    from True obtain len where len: "read_be32 ?h 1 = Some len"
      using read_be32_Some [of 1 ?h] by auto
    obtain s2 where s2: "read_exact rd s1 (unat (len - 4)) = Some (read_outcome (unat (len - 4)) (rest s1), s2)"
      and r2: "rest s2 = drop (unat (len - 4)) (rest s1)"
      using read_exact_delivers [OF d] by blast
    have "vec_at ?h 0 = Some (rest s ! 0)" using True by (simp add: vec_at_def)
    then show ?thesis
      using True s1 s2 len r1 r2
      by (auto simp: read_frame_def Let_def frame_fits_def word_less_nat_alt not_less read_outcome_def
          split: if_splits)
  qed
qed

lemma length_md5_hex: "length (md5_hex md5 data) = 32"
  by (simp add: md5_hex_def Let_def length_concat comp_def sum_list_triv)


definition enc_error_field :: "byte \<times> string \<Rightarrow> bytes" where
  "enc_error_field = (\<lambda>(c, v). c # bytes_of_string v @ [0])"

definition error_field_ok :: "byte \<times> string \<Rightarrow> bool" where
  "error_field_ok f \<longleftrightarrow> fst f \<noteq> 0 \<and> NUL \<notin> set (snd f)"

lemma error_fields_loop_enc:
  "list_all error_field_ok fs \<Longrightarrow>
     error_fields_loop (pre @ concat (map enc_error_field fs) @ 0 # rest) (length pre) acc
       = Some (fold (\<lambda>(c, v). store_field c v) fs acc)"
proof (induction fs arbitrary: pre acc)
  case Nil
  then show ?case by (simp add: error_fields_loop.simps vec_at_def)
next
  case (Cons f fs)
  obtain c v where f: "f = (c, v)" by (cases f)
  from Cons.prems f have cv: "error_field_ok (c, v)" and fs: "list_all error_field_ok fs"
    by simp_all
  from cv have ok: "c \<noteq> 0" "NUL \<notin> set v" by (simp_all add: error_field_ok_def)
  define p where "p = pre @ concat (map enc_error_field (f # fs)) @ 0 # rest"
  let ?pre2 = "pre @ c # bytes_of_string v @ [0]"
  let ?tl = "concat (map enc_error_field fs) @ 0 # rest"
  have p: "p = (pre @ [c]) @ bytes_of_string v @ 0 # ?tl" "p = ?pre2 @ ?tl" "p = pre @ c # bytes_of_string v @ 0 # ?tl"
    by (simp_all add: p_def f enc_error_field_def)
  have e: "scan_nul p (Suc (length pre)) = Some (Suc (length pre) + length v)"
    using scan_nul_cstr [OF ok(2), of "pre @ [c]" ?tl] by (simp only: p(1) length_append) simp
  have s: "string_at p (Suc (length pre)) (length v) = Some v"
    using string_at_mid [of v "0 # ?tl" "pre @ [c]"] by (simp only: p(1) length_append) simp
  have at: "vec_at p (length pre) = Some c" by (simp add: vec_at_def p(3))
  have len: "Suc (length pre) + length v < length p" by (simp add: p(3))
  have "error_fields_loop p (length pre) acc = error_fields_loop p (length ?pre2) (store_field c v acc)"
    using ok e s at len by (simp add: error_fields_loop.simps [of p "length pre"])
  also have "\<dots> = Some (fold (\<lambda>(c, v). store_field c v) fs (store_field c v acc))"
    unfolding p(2) by (rule Cons.IH [OF fs])
  finally show ?case by (simp add: p_def f)
qed

section \<open>Properties\<close>

text \<open>An ErrorResponse is decoded field by field: every sequence of typed fields a
  server may send, terminated by a zero byte and followed by anything, is read back exactly, later
  fields of a type replacing earlier ones.\<close>

theorem parse_error_fields_roundtrip:
  assumes "list_all error_field_ok fs"
  shows "parse_error_fields (concat (map enc_error_field fs) @ 0 # rest)
           = Some (fold (\<lambda>(c, v). store_field c v) fs no_fields)"
  using error_fields_loop_enc [OF assms, of "[]"] by (simp add: parse_error_fields_def)

theorem parse_error_fields_roundtrip_witness:
  "parse_error_fields (concat (map enc_error_field
       [(byte_of_char (CHR ''S''), ''ERROR''), (byte_of_char (CHR ''C''), ''23505'')]) @ [0])
     = Some \<lparr>ef_severity = ''ERROR'', ef_sqlstate = ''23505'', ef_message = [], ef_detail = [],
             ef_hint = []\<rparr>"
proof -
  let ?fs = "[(byte_of_char (CHR ''S''), ''ERROR''), (byte_of_char (CHR ''C''), ''23505'')]"
  have "list_all error_field_ok ?fs" by (simp add: error_field_ok_def NUL_def)
  from parse_error_fields_roundtrip [OF this, of "[]"] show ?thesis
    by (simp add: store_field_def no_fields_def)
qed

text \<open>C26: the ErrorResponse and RowDescription parsers never read outside their payload, whatever the
  bytes are, and the DataRow parser does so only on a payload that ends in a zero field length.\<close>

theorem parsers_stay_in_bounds:
  "parse_error p \<noteq> None \<and> parse_row_description_ex p \<noteq> None
   \<and> (parse_data_row_ex p row = None \<longrightarrow> 6 \<le> length p \<and> read_be32 p (length p - 4) = Some 0)"
proof (intro conjI impI)
  show "parse_error p \<noteq> None"
    using error_fields_loop_safe by (auto simp: parse_error_def parse_error_fields_def bind_eq_None_conv)
  show "parse_row_description_ex p \<noteq> None"
    using rd16_Some [of 0 p] row_desc_loop_safe [of 2 p]
    by (auto simp: parse_row_description_ex_def)
  assume none: "parse_data_row_ex p row = None"
  then have len: "2 \<le> length p" by (auto simp: parse_data_row_ex_def split: if_splits)
  then obtain n where "rd16 p 0 = Some n" using rd16_Some [of 0 p] by auto
  with none len have "data_row_loop (unat n) p 2 (cols row) = None"
    by (auto simp: parse_data_row_ex_def bind_eq_None_conv split: prod.splits)
  then show "6 \<le> length p" "read_be32 p (length p - 4) = Some 0"
    using data_row_loop_None by fastforce+
qed

theorem parsers_stay_in_bounds_witness:
  "parse_data_row_ex [0, 1, 0, 0, 0, 0] \<lparr>cols = []\<rparr> = None
   \<and> read_be32 [0, 1, 0, 0, 0, 0] 2 = Some 0"
proof -
  have "parse_data_row_ex [0, 1, 0, 0, 0, 0] \<lparr>cols = []\<rparr> = None"
    by (simp add: parse_data_row_ex_def rd16_def vec_at_def read_be32_def string_at_def Let_def)
  with parsers_stay_in_bounds [of "[0, 1, 0, 0, 0, 0]" "\<lparr>cols = []\<rparr>"] show ?thesis
    by (simp add: numeral_2_eq_2)
qed

text \<open>A RowDescription as the protocol encodes it is parsed into exactly its column names.\<close>

theorem parse_row_description_roundtrip:
  assumes "list_all field_desc_ok fs" "length fs < 2 ^ 16"
  shows "parse_row_description_ex (enc_row_description fs) = Some (map fst fs, ctx_ok)"
proof -
  have "unat (word_of_nat (length fs) :: u16) = length fs"
    using assms(2) by (simp add: unat_of_nat take_bit_nat_eq_self)
  then show ?thesis
    using row_desc_loop_enc [OF assms(1), of "be16 (length fs)" "[]" "[]"]
    by (simp add: parse_row_description_ex_def enc_row_description_def rd16_be16)
qed

theorem parse_row_description_roundtrip_witness:
  "parse_row_description_ex (enc_row_description [(''id'', replicate 18 7), (''name'', replicate 18 0)])
     = Some ([''id'', ''name''], ctx_ok)"
proof -
  have "list_all field_desc_ok [(''id'', replicate 18 7), (''name'', replicate 18 0)]"
    by (simp add: field_desc_ok_def NUL_def)
  from parse_row_description_roundtrip [OF this] show ?thesis by simp
qed

text \<open>C27: a DataRow as the protocol encodes it appends exactly its values to the row, NULL as the empty
  string; the parser leaves its buffer for exactly the rows whose last value is the empty string.\<close>

theorem parse_data_row_roundtrip:
  assumes "list_all value_ok vs" "length vs < 2 ^ 16"
  shows "parse_data_row_ex (enc_data_row vs) row =
     (if vs \<noteq> [] \<and> last vs = Some [] then None
      else Some (row\<lparr>cols := cols row @ map cell_text vs\<rparr>, ctx_ok))"
proof -
  have "unat (word_of_nat (length vs) :: u16) = length vs"
    using assms(2) by (simp add: unat_of_nat take_bit_nat_eq_self)
  then show ?thesis
    using data_row_loop_enc [OF assms(1), of "be16 (length vs)"]
    by (simp add: parse_data_row_ex_def enc_data_row_def rd16_be16)
qed

theorem parse_data_row_roundtrip_witness:
  "parse_data_row_ex (enc_data_row [Some ''7'', None, Some ''ann'']) \<lparr>cols = []\<rparr>
     = Some (\<lparr>cols = [''7'', [], ''ann'']\<rparr>, ctx_ok)
   \<and> parse_data_row_ex (enc_data_row [Some ''7'', Some []]) \<lparr>cols = []\<rparr> = None"
  using parse_data_row_roundtrip [of "[Some ''7'', None, Some ''ann'']" "\<lparr>cols = []\<rparr>"]
    parse_data_row_roundtrip [of "[Some ''7'', Some []]" "\<lparr>cols = []\<rparr>"]
  by (simp add: value_ok_def cell_text_def)

text \<open>A Query message is read back as one frame, however the transport cuts the bytes into
  packets, and the stream is left exactly behind it.\<close>

theorem read_frame_simple_query:
  assumes "delivers rd rest" "rest s = build_simple_query sql @ cont"
    and "length sql < unat kMaxPgFramePayload"
  shows "\<exists>s'. read_frame rd s
              = Some (Inr \<lparr>fr_type = CHR ''Q'', fr_payload = bytes_of_string sql @ [0]\<rparr>, s')
            \<and> rest s' = cont"
  using assms read_frame_enc [OF assms(1), of s "CHR ''Q''" "bytes_of_string sql @ [0]" cont]
  by (simp add: simple_query_frame frame_fits_def)

text \<open>A transport that hands out at most one byte per read.\<close>

definition byte_reader :: "bytes \<Rightarrow> nat \<Rightarrow> int \<times> bytes \<times> bytes" where
  "byte_reader bs k = (case bs of [] \<Rightarrow> (0, [], []) | b # bs' \<Rightarrow> (1, [b], bs'))"

lemma byte_reader_delivers: "delivers byte_reader id"
  by (auto simp: delivers_def byte_reader_def split: list.split)

theorem read_frame_simple_query_witness:
  "\<exists>s'. read_frame byte_reader (build_simple_query ''SELECT 1'' @ [9])
      = Some (Inr \<lparr>fr_type = CHR ''Q'', fr_payload = bytes_of_string ''SELECT 1'' @ [0]\<rparr>, s')
    \<and> id s' = [9]"
  by (rule read_frame_simple_query [OF byte_reader_delivers]) (simp_all add: unat_kMax)

text \<open>C25: \<^verbatim>\<open>read_frame\<close> always returns, never reads outside its buffers, and a frame it accepts has at
  most \<^verbatim>\<open>kMaxPgFramePayload\<close> bytes and consumes exactly the header and that payload.\<close>

theorem read_frame_bounded:
  assumes "delivers rd rest"
  shows "\<exists>res s'. read_frame rd s = Some (res, s')
     \<and> (\<forall>f. res = Inr f \<longrightarrow> length (fr_payload f) \<le> 512 * 1024 * 1024 \<and>
          length (rest s) = 5 + length (fr_payload f) + length (rest s'))"
  using read_frame_total [OF assms, of s] by (simp add: frame_fits_def unat_kMax)

theorem read_frame_bounded_witness:
  "\<exists>f s'. read_frame byte_reader [90, 0, 0, 0, 5, 73] = Some (Inr f, s')
     \<and> fr_payload f = [73] \<and> length (fr_payload f) \<le> 512 * 1024 * 1024"
proof -
  obtain s' where s': "read_frame byte_reader [90, 0, 0, 0, 5, 73]
      = Some (Inr \<lparr>fr_type = CHR ''Z'', fr_payload = [73]\<rparr>, s')"
    using read_frame_enc [OF byte_reader_delivers, of "[90, 0, 0, 0, 5, 73]" "CHR ''Z''" "[73]" "[]"]
    by (auto simp: enc_frame_def write_be32_def frame_fits_def unat_kMax byte_of_char_def)
  with read_frame_bounded [OF byte_reader_delivers, of "[90, 0, 0, 0, 5, 73]"] show ?thesis by auto
qed

section \<open>Interpretations\<close>

text \<open>Big-endian words and the row codecs promise the \<open>codec\<close> contract.\<close>

interpretation be32: codec write_be32 "\<lambda>p. read_be32 p 0" "\<lambda>_. True"
  using read_write_be32 [of "[]" _ "[]"] by unfold_locales simp

interpretation error_code_names: codec toString_code
  "\<lambda>s. find (\<lambda>c. toString_code c = s) [OK, InvalidFuture, ConnectionClosed, SocketReadFailed,
     ProtocolCorrupt, ParserTruncatedField, ParserTruncatedRow, ParserTruncatedHeader, ServerError,
     AuthFailed, AwaitCanceled, TooManyConnections, Unknown]" "\<lambda>_. True"
  by unfold_locales (case_tac x; simp)

end
