(* ===== verification/Pg_Text.thy ===== *)
theory Pg_Text
  imports Pg_Types
begin

text \<open>
  The text formats the library reads and writes: array literals (\<^verbatim>\<open>PgTypes.h\<close>, \<^verbatim>\<open>PgParams.h\<close>,
  \<^verbatim>\<open>PgValueFormat.h\<close> writing, \<^verbatim>\<open>PgReflect.h\<close> reading), ranges, enum tokens, normalised and quoted
  identifiers, and connection strings (\<^verbatim>\<open>IPAddressUtils.h\<close>, \<^verbatim>\<open>ConnInfo.h\<close>).

  The writers are instantiated per C++ type; an element of an array is a value of \<open>arr_scalar\<close>,
  whose constructor is the type class that selects the branch of the \<^verbatim>\<open>if constexpr\<close> chain.
  Floating-point output and \<^verbatim>\<open>operator<<\<close> of user types are the fields of \<open>printers\<close>.
\<close>

section \<open>Array literals: writing\<close>

definition special_elem_char :: "char \<Rightarrow> bool" where
  "special_elem_char c \<longleftrightarrow> c = CHR 0x22 \<or> c = CHR 0x5C"

text \<open>\<^verbatim>\<open>pg_array_escape_elem\<close> and \<^verbatim>\<open>append_escaped_array_elem\<close>: the text appended to \<^verbatim>\<open>out\<close>.\<close>

definition pg_array_escape_elem :: "string \<Rightarrow> string" where
  "pg_array_escape_elem s = CHR 0x22 # escape_with special_elem_char (CHR 0x5C) s @ [CHR 0x22]"

datatype 'x arr_scalar =
    EBool bool
  | EInt bool int            \<comment> \<open>is the type \<^verbatim>\<open>long long\<close> or \<^verbatim>\<open>unsigned long long\<close>?\<close>
  | EFloat 'x
  | EStr string
  | ECharPtr "string option" \<comment> \<open>\<^verbatim>\<open>char *\<close>, possibly null; the text up to its terminator\<close>
  | EStreamed 'x             \<comment> \<open>a class type with \<^verbatim>\<open>operator<<\<close>\<close>
  | EEnum bool "(int \<times> string) list option" int
      \<comment> \<open>scoped?, \<^verbatim>\<open>enum_meta<E>::mapping\<close>, underlying value\<close>

datatype 'x arr_elem =
    Elem "'x arr_scalar"
  | OptElem "'x arr_elem option"
  | OtherElem string         \<comment> \<open>any other type; \<^verbatim>\<open>typeid(T).name()\<close>\<close>

record 'x printers =
  p_to_string_ld :: "'x \<Rightarrow> string"   \<comment> \<open>\<^verbatim>\<open>std::to_string(long double)\<close>\<close>
  p_to_chars :: "'x \<Rightarrow> string"       \<comment> \<open>\<^verbatim>\<open>std::to_chars\<close> on \<^verbatim>\<open>double\<close>, shortest form\<close>
  p_ostream :: "'x \<Rightarrow> string"        \<comment> \<open>\<^verbatim>\<open>oss << v\<close>\<close>

fun enum_to_token_impl :: "(int \<times> string) list option \<Rightarrow> int \<Rightarrow> string option" where
  "enum_to_token_impl None v = None"
| "enum_to_token_impl (Some []) v = None"
| "enum_to_token_impl (Some ((k, t) # m)) v =
     (if k = v then Some t else enum_to_token_impl (Some m) v)"

fun enum_find_token :: "(int \<times> string) list \<Rightarrow> string \<Rightarrow> int option" where
  "enum_find_token [] s = None"
| "enum_find_token ((k, t) # m) s = (if t = s then Some k else enum_find_token m s)"

definition enum_from_token_impl ::
  "(int \<times> string) list option \<Rightarrow> bool \<Rightarrow> nat \<Rightarrow> string \<Rightarrow> int option" where
  "enum_from_token_impl m sgnd w s =
     (case (case m of None \<Rightarrow> None | Some ps \<Rightarrow> enum_find_token ps s) of
        Some v \<Rightarrow> Some v
      | None \<Rightarrow> from_chars_all sgnd w s)"

text \<open>\<^verbatim>\<open>static_cast<long long>(v)\<close>.\<close>

definition to_long_long :: "int \<Rightarrow> int" where
  "to_long_long v = signed_take_bit 63 v"

fun write_scalar :: "'x printers \<Rightarrow> 'x arr_scalar \<Rightarrow> string" where
  "write_scalar P (EBool b) = (if b then ''t'' else ''f'')"
| "write_scalar P (EInt ll v) = (if ll then show_int v else show_int (to_long_long v))"
| "write_scalar P (EFloat x) = p_to_string_ld P x"
| "write_scalar P (EStr s) = pg_array_escape_elem s"
| "write_scalar P (ECharPtr p) =
     (case p of Some s \<Rightarrow> pg_array_escape_elem s | None \<Rightarrow> ''NULL'')"
| "write_scalar P (EStreamed x) = pg_array_escape_elem (p_ostream P x)"
| "write_scalar P (EEnum scoped m v) =
     (if \<not> scoped then pg_array_escape_elem (show_int v)
      else case enum_to_token_impl m v of
          None \<Rightarrow> show_int (to_long_long v)
        | Some tok \<Rightarrow> pg_array_escape_elem tok)"

fun write_array_scalar :: "'x printers \<Rightarrow> 'x arr_elem \<Rightarrow> string" where
  "write_array_scalar P (OptElem None) = ''NULL''"
| "write_array_scalar P (OptElem (Some e)) = write_array_scalar P e"
| "write_array_scalar P (Elem v) = write_scalar P v"
| "write_array_scalar P (OtherElem nm) = pg_array_escape_elem (''<elem:'' @ nm @ ''>'')"

definition build_pg_array_from_range :: "'x printers \<Rightarrow> 'x arr_elem list \<Rightarrow> string" where
  "build_pg_array_from_range P r =
     ''{'' @ join_with '','' (map (write_array_scalar P) r) @ ''}''"

text \<open>
  \<^verbatim>\<open>append_pg_array_elem\<close> and \<^verbatim>\<open>build_pg_text_array_literal_any\<close> of \<^verbatim>\<open>PgParams.h\<close>: an element that is
  not an \<^verbatim>\<open>optional\<close> is \<open>Some\<close> here.
\<close>

fun append_pg_array_elem :: "'x printers \<Rightarrow> 'x arr_scalar \<Rightarrow> string" where
  "append_pg_array_elem P (EEnum scoped m v) =
     pg_array_escape_elem (case enum_to_token_impl m v of Some tok \<Rightarrow> tok | None \<Rightarrow> show_int v)"
| "append_pg_array_elem P (EBool b) = (if b then ''true'' else ''false'')"
| "append_pg_array_elem P (EStr s) = pg_array_escape_elem s"
| "append_pg_array_elem P (ECharPtr p) =
     pg_array_escape_elem (case p of Some s \<Rightarrow> s | None \<Rightarrow> [])"
| "append_pg_array_elem P (EInt ll v) = show_int v"
| "append_pg_array_elem P (EFloat x) = p_to_chars P x"
| "append_pg_array_elem P (EStreamed x) = pg_array_escape_elem (p_ostream P x)"

definition build_pg_text_array_literal_any ::
  "'x printers \<Rightarrow> 'x arr_scalar option list \<Rightarrow> string" where
  "build_pg_text_array_literal_any P r =
     ''{'' @ join_with '',''
       (map (\<lambda>e. case e of None \<Rightarrow> ''NULL'' | Some v \<Rightarrow> append_pg_array_elem P v) r) @ ''}''"

text \<open>\<^verbatim>\<open>to_string(const std::vector<T>&)\<close> of \<^verbatim>\<open>PgValueFormat.h\<close>, on the texts of the elements.\<close>

definition format_vector_item :: "string \<Rightarrow> string" where
  "format_vector_item s =
     (if s = ''NULL'' then s
      else if \<exists>c \<in> set s. c \<in> set [CHR '','', CHR ''{'', CHR ''}'', CHR 0x22, CHR 0x5C, CHR '' '']
      then pg_array_escape_elem s
      else s)"

definition format_vector :: "string list \<Rightarrow> string" where
  "format_vector xs = ''{'' @ join_with '','' (map format_vector_item xs) @ ''}''"

definition pick_array_oid :: "cpp_type \<Rightarrow> nat" where
  "pick_array_oid t =
     (case t of
        TBool \<Rightarrow> 1000
      | TInt _ w \<Rightarrow> if w \<le> 16 then 1005 else if w = 32 then 1007 else 1016
      | TFloat w \<Rightarrow> if w = 32 then 1021 else if w = 64 then 1022 else 1009
      | _ \<Rightarrow> 1009)"

section \<open>Array literals: reading\<close>

text \<open>
  The loop of \<^verbatim>\<open>split_pg_array_items\<close>; the items are views into \<open>s\<close>, here the texts. The result
  is \<^verbatim>\<open>start\<close> and \<^verbatim>\<open>items\<close> when the loop ends.
\<close>

function split_loop :: "string \<Rightarrow> nat \<Rightarrow> nat \<Rightarrow> bool \<Rightarrow> string list \<Rightarrow> nat \<times> string list" where
  "split_loop s i start inq items =
     (if i + 1 < length s then
        (let c = s ! i in
         if inq then
           (if c = CHR 0x5C \<and> i + 1 < length s then split_loop s (i + 2) start inq items
            else if c = CHR 0x22 then split_loop s (i + 1) start False items
            else split_loop s (i + 1) start inq items)
         else
           (if c = CHR 0x22 then split_loop s (i + 1) start True items
            else if c = CHR '',''
            then split_loop s (i + 1) (i + 1) inq (items @ [take (i - start) (drop start s)])
            else split_loop s (i + 1) start inq items))
      else (start, items))"
  by pat_completeness auto
termination
  by (relation "measure (\<lambda>(s, i, start, inq, items). length s - i)") auto

declare split_loop.simps [simp del]

definition split_pg_array_items :: "string \<Rightarrow> string list" where
  "split_pg_array_items s =
     (if length s < 2 \<or> hd s \<noteq> CHR ''{'' \<or> last s \<noteq> CHR ''}'' then []
      else case split_loop s 1 1 False [] of (start, items) \<Rightarrow>
        if start \<le> length s - 1
        then items @ [take (length s - 1 - start) (drop start s)] else items)"

text \<open>
  The unescape loop of \<^verbatim>\<open>parse_pg_text_elt\<close> over the text between the quotes: a backslash at the
  last position before the closing quote stands for itself.
\<close>

fun unquote_loop :: "string \<Rightarrow> string" where
  "unquote_loop [] = []"
| "unquote_loop [c] = [c]"
| "unquote_loop (c # d # cs) = (if c = CHR 0x5C then d # unquote_loop cs else c # unquote_loop (d # cs))"

text \<open>The element text and whether it is NULL; the function never fails.\<close>

definition parse_pg_text_elt :: "string \<Rightarrow> string \<times> bool" where
  "parse_pg_text_elt sv =
     (if sv = ''NULL'' then ([], True)
      else if sv \<noteq> [] \<and> hd sv = CHR 0x22 \<and> last sv = CHR 0x22
      then (unquote_loop (take (length sv - 2) (tl sv)), False)
      else (sv, False))"

section \<open>Ranges\<close>

definition trim_char :: "char \<Rightarrow> bool" where
  "trim_char c \<longleftrightarrow> c = CHR '' '' \<or> c = CHR 0x09 \<or> c = CHR 0x0A \<or> c = CHR 0x0D"

definition trim :: "string \<Rightarrow> string" where
  "trim x = rev (dropWhile trim_char (rev (dropWhile trim_char x)))"

text \<open>Lower bound inclusive, upper bound inclusive, lower text, upper text, empty.\<close>

definition parse_pg_numrange_parts ::
  "string \<Rightarrow> (bool \<times> bool \<times> string \<times> string \<times> bool) option" where
  "parse_pg_numrange_parts sv =
     (if sv = ''empty'' then Some (True, False, [], [], True)
      else if length sv < 2 then None
      else let lb = hd sv; rb = last sv in
        if lb \<noteq> CHR ''['' \<and> lb \<noteq> CHR ''('' then None
        else if rb \<noteq> CHR '']'' \<and> rb \<noteq> CHR '')'' then None
        else let inner = take (length sv - 2) (tl sv) in
          (case find_char (CHR '','') inner of
             None \<Rightarrow> None
           | Some k \<Rightarrow>
               Some (lb = CHR ''['', rb = CHR '']'', trim (take k inner),
                     trim (drop (Suc k) inner), False)))"

section \<open>Identifiers\<close>

definition join_csv :: "string list \<Rightarrow> string" where
  "join_csv v = join_with '', '' v"

fun normalize_fold :: "string \<Rightarrow> string" where
  "normalize_fold [] = []"
| "normalize_fold (c # cs) =
     (if is_alnum c then to_lower c # normalize_fold cs
      else if c = CHR ''_'' then CHR ''_'' # normalize_fold cs
      else normalize_fold cs)"

fun collapse_us :: "bool \<Rightarrow> string \<Rightarrow> string" where
  "collapse_us prev [] = []"
| "collapse_us prev (c # cs) =
     (if c = CHR ''_'' then (if prev then [] else ''_'') @ collapse_us True cs
      else c # collapse_us False cs)"

definition normalize_ident :: "string \<Rightarrow> string" where
  "normalize_ident s = collapse_us False (normalize_fold s)"

definition is_simple_ident :: "string \<Rightarrow> bool" where
  "is_simple_ident s \<longleftrightarrow>
     s \<noteq> [] \<and> (is_lower (hd s) \<or> hd s = CHR ''_'')
     \<and> list_all (\<lambda>c. is_lower c \<or> is_digit c \<or> c = CHR ''_'') (tl s)"

definition dquote :: "string \<Rightarrow> string" where
  "dquote s = CHR 0x22 # escape_with (\<lambda>c. c = CHR 0x22) (CHR 0x22) s @ [CHR 0x22]"

definition quote_ident_channel :: "string \<Rightarrow> string" where
  "quote_ident_channel ch = (if is_simple_ident ch then ch else dquote ch)"

definition listen_statement :: "bool \<Rightarrow> string \<Rightarrow> string" where
  "listen_statement lsn ch = (if lsn then ''LISTEN '' else ''UNLISTEN '') @ quote_ident_channel ch @ '';''"

definition quote_ident_strict :: "string \<Rightarrow> string option" where
  "quote_ident_strict s = (if s = [] then None else if NUL \<in> set s then None else Some (dquote s))"

definition is_safe_cursor_ident :: "string \<Rightarrow> bool" where
  "is_safe_cursor_ident s \<longleftrightarrow>
     s \<noteq> [] \<and> length s \<le> 63 \<and> (is_lower (hd s) \<or> is_upper (hd s) \<or> hd s = CHR ''_'')
     \<and> list_all (\<lambda>c. is_lower c \<or> is_upper c \<or> is_digit c \<or> c = CHR ''_'') (tl s)"

section \<open>Error texts of the decoders\<close>

definition preview :: "string \<Rightarrow> nat \<Rightarrow> string" where
  "preview sv limit = (if length sv \<le> limit then sv else take limit sv @ ''...'')"

definition preview_val :: "string \<Rightarrow> string" where
  "preview_val sv = preview sv 80"

definition left_arrow :: string where
  "left_arrow = [CHR 0xE2, CHR 0x86, CHR 0x90]"

definition format_mismatch_named ::
  "string \<Rightarrow> string \<Rightarrow> string \<Rightarrow> string \<Rightarrow> string \<Rightarrow> string" where
  "format_mismatch_named field_name field_type col_name col_type val_preview =
     ''decode failed: field='' @ [CHR 0x27] @ field_name @ [CHR 0x27] @ '' (type='' @ field_type
     @ '') '' @ left_arrow @ '' column='' @ [CHR 0x27] @ col_name @ [CHR 0x27] @ '' (type='' @ col_type
     @ ''): expected='' @ field_type @ '', got='' @ [CHR 0x22] @ val_preview @ [CHR 0x22]"

definition format_mismatch_positional ::
  "nat \<Rightarrow> string \<Rightarrow> nat \<Rightarrow> string \<Rightarrow> string \<Rightarrow> string \<Rightarrow> string" where
  "format_mismatch_positional field_index field_type col_index col_name col_type val_preview =
     ''decode failed: field#'' @ show_nat field_index @ '' (type='' @ field_type
     @ '') '' @ left_arrow @ '' column#'' @ show_nat col_index
     @ (if col_name = [] then [] else '' '' @ [CHR 0x27] @ col_name @ [CHR 0x27])
     @ '' (type='' @ col_type @ ''): expected='' @ field_type
     @ '', got='' @ [CHR 0x22] @ val_preview @ [CHR 0x22]"

section \<open>Connection strings\<close>

datatype ConninfoError = ContainsNul

definition strip_brackets :: "string \<Rightarrow> string" where
  "strip_brackets h =
     (if length h \<ge> 2 \<and> hd h = CHR ''['' \<and> last h = CHR '']''
      then take (length h - 2) (drop 1 h) else h)"

text \<open>
  \<^verbatim>\<open>inet_pton\<close> of the C library is a parameter: \<open>ip4 s\<close> / \<open>ip6 s\<close> say that it accepts the C string \<open>s\<close>.
\<close>

definition is_ip_literal :: "(string \<Rightarrow> bool) \<Rightarrow> (string \<Rightarrow> bool) \<Rightarrow> string \<Rightarrow> bool" where
  "is_ip_literal ip4 ip6 h =
     (let host = strip_brackets h in
      if CHR 0x25 \<in> set host then False
      else let cstr = takeWhile (\<lambda>c. c \<noteq> NUL) host in ip4 cstr \<or> ip6 cstr)"

definition special_conn_char :: "char \<Rightarrow> bool" where
  "special_conn_char c \<longleftrightarrow> c = CHR 0x5C \<or> c = CHR 0x27"

definition escape_conninfo_value :: "string \<Rightarrow> ConninfoError + string" where
  "escape_conninfo_value v =
     (if NUL \<in> set v then Inl ContainsNul
      else Inr (CHR 0x27 # escape_with special_conn_char (CHR 0x5C) v @ [CHR 0x27]))"

datatype SSLMode = ssl_disable | ssl_allow | ssl_prefer | ssl_require | ssl_verify_ca | ssl_verify_full

fun to_string_ssl :: "SSLMode \<Rightarrow> string" where
  "to_string_ssl ssl_disable = ''disable''"
| "to_string_ssl ssl_allow = ''allow''"
| "to_string_ssl ssl_prefer = ''prefer''"
| "to_string_ssl ssl_require = ''require''"
| "to_string_ssl ssl_verify_ca = ''verify-ca''"
| "to_string_ssl ssl_verify_full = ''verify-full''"

record SSLConfig =
  ssl_mode :: SSLMode
  ssl_root_cert :: "string option"
  ssl_crl :: "string option"
  ssl_client_cert :: "string option"
  ssl_client_key :: "string option"
  ssl_server_hostname :: "string option"

record TCPKeepaliveConfig =
  ka_enabled :: bool
  ka_keepalives :: int
  ka_idle :: int
  ka_interval :: int
  ka_count :: int

definition add_kv :: "string \<Rightarrow> string \<Rightarrow> string \<Rightarrow> string" where
  "add_kv out k ev = (if out = [] then [] else out @ '' '') @ k @ ''='' @ ev"

text \<open>One \<^verbatim>\<open>escape_conninfo_value\<close> followed by \<^verbatim>\<open>add_kv\<close>, with the early return of the error.\<close>

definition add_value :: "string \<Rightarrow> string \<Rightarrow> ConninfoError + string \<Rightarrow> ConninfoError + string" where
  "add_value k v acc =
     (case acc of Inl e \<Rightarrow> Inl e
      | Inr out \<Rightarrow> (case escape_conninfo_value v of Inl e \<Rightarrow> Inl e | Inr ev \<Rightarrow> Inr (add_kv out k ev)))"

definition add_opt_value ::
  "string \<Rightarrow> string option \<Rightarrow> ConninfoError + string \<Rightarrow> ConninfoError + string" where
  "add_opt_value k v acc = (case v of None \<Rightarrow> acc | Some x \<Rightarrow> add_value k x acc)"

definition add_int :: "string \<Rightarrow> int \<Rightarrow> ConninfoError + string \<Rightarrow> ConninfoError + string" where
  "add_int k v acc = add_value k (show_int v) acc"

definition make_conninfo ::
  "(string \<Rightarrow> bool) \<Rightarrow> (string \<Rightarrow> bool) \<Rightarrow> string \<Rightarrow> string \<Rightarrow> string \<Rightarrow> string \<Rightarrow> string
    \<Rightarrow> SSLConfig \<Rightarrow> TCPKeepaliveConfig \<Rightarrow> ConninfoError + string" where
  "make_conninfo ip4 ip6 host port user dbname password ssl ka =
     (let host_raw = strip_brackets host;
          host_is_ip = is_ip_literal ip4 ip6 host_raw;
          ci = Inr [];
          ci = (case ssl_server_hostname ssl of
                  Some hn \<Rightarrow>
                    if host_is_ip then add_value ''host'' hn (add_value ''hostaddr'' host_raw ci)
                    else add_value ''host'' hn ci
                | None \<Rightarrow> add_value ''host'' host_raw ci);
          ci = add_value ''port'' port ci;
          ci = add_value ''user'' user ci;
          ci = add_value ''dbname'' dbname ci;
          ci = add_value ''password'' password ci;
          ci = add_value ''sslmode'' (to_string_ssl (ssl_mode ssl)) ci;
          ci = add_opt_value ''sslrootcert'' (ssl_root_cert ssl) ci;
          ci = add_opt_value ''sslcert'' (ssl_client_cert ssl) ci;
          ci = add_opt_value ''sslkey'' (ssl_client_key ssl) ci;
          ci = add_opt_value ''sslcrl'' (ssl_crl ssl) ci
      in if ka_enabled ka
         then add_int ''keepalives_count'' (ka_count ka)
                (add_int ''keepalives_interval'' (ka_interval ka)
                  (add_int ''keepalives_idle'' (ka_idle ka) (add_int ''keepalives'' 1 ci)))
         else ci)"


section \<open>Facts on array literals\<close>

lemma unquote_loop_unescape: "unquote_loop s = unescape (CHR 0x5C) s"
  by (induction s rule: unquote_loop.induct) auto

lemma parse_escaped_elem [simp]: "parse_pg_text_elt (pg_array_escape_elem s) = (s, False)"
proof -
  have "unquote_loop (escape_with special_elem_char (CHR 0x5C) s) = s"
    by (simp add: unquote_loop_unescape unescape_escape special_elem_char_def)
  then show ?thesis
    by (simp add: parse_pg_text_elt_def pg_array_escape_elem_def)
qed

lemma parse_null_elem [simp]: "parse_pg_text_elt ''NULL'' = ([], True)"
  by (simp add: parse_pg_text_elt_def)

text \<open>A text without quotes and commas, as numbers, booleans and NULL are written.\<close>

definition plain_text :: "string \<Rightarrow> bool" where
  "plain_text s \<longleftrightarrow> list_all (\<lambda>c. c \<noteq> CHR 0x22 \<and> c \<noteq> CHR '','') s"

definition item_ok :: "string \<Rightarrow> bool" where
  "item_ok it \<longleftrightarrow> plain_text it \<or> (\<exists>s. it = pg_array_escape_elem s)"

lemma parse_plain_elem:
  "plain_text s \<Longrightarrow> s \<noteq> ''NULL'' \<Longrightarrow> parse_pg_text_elt s = (s, False)"
  by (cases s) (auto simp: parse_pg_text_elt_def plain_text_def)

lemma plain_show_int: "plain_text (show_int v)"
  using show_nat_digits digit_not_special
  by (auto simp: plain_text_def show_int_def list_all_iff)

lemma show_int_not_NULL: "show_int v \<noteq> ''NULL''"
proof
  assume "show_int v = ''NULL''"
  then have "\<not> v < 0" "show_nat (nat v) = ''NULL''"
    by (auto simp: show_int_def split: if_splits)
  then show False using show_nat_digits [of "nat v"] by (simp add: is_digit_def ord_def)
qed

lemma split_loop_at:
  assumes "s = pre @ c # rest" "rest \<noteq> []"
  shows "split_loop s (length pre) start inq items =
     (if inq then
        (if c = CHR 0x5C then split_loop s (length pre + 2) start True items
         else split_loop s (length pre + 1) start (c \<noteq> CHR 0x22) items)
      else if c = CHR 0x22 then split_loop s (length pre + 1) start True items
      else if c = CHR '',''
      then split_loop s (length pre + 1) (length pre + 1) False
             (items @ [take (length pre - start) (drop start s)])
      else split_loop s (length pre + 1) start False items)"
proof -
  have "s ! length pre = c" "length pre + 1 < length s"
    using assms by (simp_all add: nth_append)
  then show ?thesis by (simp add: split_loop.simps [of s "length pre"])
qed

lemma split_loop_plain:
  assumes "plain_text it" "rest \<noteq> []"
  shows "split_loop (pre @ it @ rest) (length pre) start False items
     = split_loop (pre @ it @ rest) (length pre + length it) start False items"
  using assms(1)
proof (induction it arbitrary: pre)
  case Nil
  then show ?case by simp
next
  case (Cons c it)
  let ?s = "pre @ (c # it) @ rest"
  from Cons.prems have c: "c \<noteq> CHR 0x22" "c \<noteq> CHR '',''" "plain_text it"
    by (auto simp: plain_text_def)
  have "split_loop ?s (length pre) start False items = split_loop ?s (length (pre @ [c])) start False items"
    using c assms(2) split_loop_at [of ?s pre c "it @ rest"] by simp
  with Cons.IH [OF c(3), of "pre @ [c]"] show ?case by simp
qed

lemma split_loop_quoted_body:
  assumes "rest \<noteq> []"
  shows "split_loop (pre @ escape_with special_elem_char (CHR 0x5C) s @ rest) (length pre) start True items
     = split_loop (pre @ escape_with special_elem_char (CHR 0x5C) s @ rest)
         (length pre + length (escape_with special_elem_char (CHR 0x5C) s)) start True items"
proof (induction s arbitrary: pre)
  case Nil
  then show ?case by simp
next
  case (Cons c s)
  let ?e = "escape_with special_elem_char (CHR 0x5C)"
  define p where "p = pre @ ?e (c # s) @ rest"
  have "\<exists>pre2. p = pre2 @ ?e s @ rest \<and> length pre2 + length (?e s) = length pre + length (?e (c # s))
     \<and> split_loop p (length pre) start True items = split_loop p (length pre2) start True items"
  proof (cases "special_elem_char c")
    case True
    then have p: "p = pre @ CHR 0x5C # c # ?e s @ rest" by (simp add: p_def)
    have "split_loop p (length pre) start True items = split_loop p (length pre + 2) start True items"
      using split_loop_at [OF p] by simp
    with True p show ?thesis by (intro exI [of _ "pre @ [CHR 0x5C, c]"]) simp
  next
    case False
    then have p: "p = pre @ c # ?e s @ rest" by (simp add: p_def)
    have "split_loop p (length pre) start True items = split_loop p (length pre + 1) start True items"
      using False assms split_loop_at [OF p] by (simp add: special_elem_char_def)
    with False p show ?thesis by (intro exI [of _ "pre @ [c]"]) simp
  qed
  with Cons.IH show ?case unfolding p_def by metis
qed

lemma split_loop_item:
  assumes "item_ok it" "rest \<noteq> []"
  shows "split_loop (pre @ it @ rest) (length pre) start False items
     = split_loop (pre @ it @ rest) (length pre + length it) start False items"
  using assms(1) unfolding item_ok_def
proof
  assume "plain_text it"
  then show ?thesis using assms(2) by (rule split_loop_plain)
next
  assume "\<exists>s. it = pg_array_escape_elem s"
  then obtain s where it: "it = pg_array_escape_elem s" ..
  let ?b = "escape_with special_elem_char (CHR 0x5C) s"
  define p where "p = pre @ it @ rest"
  have p: "p = pre @ CHR 0x22 # ?b @ CHR 0x22 # rest" "p = (pre @ [CHR 0x22]) @ ?b @ (CHR 0x22 # rest)"
    "p = (pre @ CHR 0x22 # ?b) @ CHR 0x22 # rest"
    by (simp_all add: p_def it pg_array_escape_elem_def)
  have open_q: "split_loop p (length pre) start False items = split_loop p (length (pre @ [CHR 0x22])) start True items"
    using split_loop_at [OF p(1)] by simp
  have body: "split_loop p (length (pre @ [CHR 0x22])) start True items
      = split_loop p (length (pre @ CHR 0x22 # ?b)) start True items"
    using split_loop_quoted_body [of "CHR 0x22 # rest" "pre @ [CHR 0x22]" s] by (simp add: p(2))
  have close_q: "split_loop p (length (pre @ CHR 0x22 # ?b)) start True items
      = split_loop p (Suc (length (pre @ CHR 0x22 # ?b))) start False items"
    using split_loop_at [OF p(3) assms(2), of start True items] by simp
  have "Suc (length (pre @ CHR 0x22 # ?b)) = length pre + length it"
    by (simp add: it pg_array_escape_elem_def)
  then show ?thesis using open_q body close_q p_def by metis
qed

lemma split_loop_join:
  assumes "its \<noteq> []" "list_all item_ok its"
  shows "split_loop (pre @ join_with '','' its @ ''}'') (length pre) (length pre) False items
     = (length pre + length (join_with '','' its) - length (last its), items @ butlast its)"
  using assms
proof (induction its arbitrary: pre items)
  case Nil
  then show ?case by simp
next
  case (Cons it its)
  from Cons.prems have it: "item_ok it" and its: "list_all item_ok its" by auto
  show ?case
  proof (cases "its = []")
    case True
    have "split_loop (pre @ it @ ''}'') (length pre) (length pre) False items
        = split_loop (pre @ it @ ''}'') (length pre + length it) (length pre) False items"
      by (rule split_loop_item [OF it]) simp
    also have "\<dots> = (length pre, items)"
      by (simp add: split_loop.simps [of _ "length pre + length it"])
    finally show ?thesis using True by simp
  next
    case False
    let ?j = "join_with '','' its @ ''}''"
    let ?pre2 = "pre @ it @ '',''"
    define p where "p = pre @ join_with '','' (it # its) @ ''}''"
    have p: "p = pre @ it @ (CHR '','' # ?j)" "p = ?pre2 @ ?j" "p = (pre @ it) @ CHR '','' # ?j"
      by (simp_all add: p_def join_with_Cons False)
    have c3: "take (length it) (drop (length pre) p) = it" by (simp add: p(1))
    have "split_loop p (length pre) (length pre) False items
        = split_loop p (length pre + length it) (length pre) False items"
      unfolding p(1) by (rule split_loop_item [OF it]) simp
    also have "\<dots> = split_loop p (length ?pre2) (length ?pre2) False (items @ [it])"
      using c3 split_loop_at [OF p(3), of "length pre" False items] by simp
    also have "\<dots> = (length ?pre2 + length (join_with '','' its) - length (last its),
                    (items @ [it]) @ butlast its)"
      unfolding p(2) by (rule Cons.IH [OF False its])
    finally show ?thesis using False by (simp add: p_def join_with_Cons)
  qed
qed

lemma join_with_last: "its \<noteq> [] \<Longrightarrow> \<exists>p. join_with sep its = p @ last its"
proof (induction its)
  case (Cons x xs)
  show ?case
  proof (cases "xs = []")
    case False
    with Cons.IH obtain p where "join_with sep xs = p @ last xs" by blast
    with False show ?thesis by (intro exI [of _ "x @ sep @ p"]) (simp add: join_with_Cons)
  qed simp
qed simp

text \<open>Splitting undoes joining for every non-empty list of well-formed items.\<close>

lemma split_join:
  assumes "its \<noteq> []" "list_all item_ok its"
  shows "split_pg_array_items (''{'' @ join_with '','' its @ ''}'') = its"
proof -
  let ?s = "''{'' @ join_with '','' its @ ''}''"
  obtain p where p: "join_with '','' its = p @ last its" using join_with_last [OF assms(1)] by blast
  have loop: "split_loop ?s 1 1 False [] = (Suc (length p), butlast its)"
    using split_loop_join [OF assms, of "''{''" "[]"] by (simp add: p)
  have "take (length ?s - 1 - Suc (length p)) (drop (Suc (length p)) ?s) = last its"
    by (simp add: p)
  then show ?thesis using loop assms(1) by (simp add: split_pg_array_items_def p)
qed


section \<open>Facts on identifiers\<close>

text \<open>
  How PostgreSQL's scanner reads one identifier: a quoted one with doubled quotes, or an unquoted
  one folded to lower case; the result is the name and the text behind it. An empty quoted
  identifier is an error.
\<close>

fun lex_quoted :: "string \<Rightarrow> (string \<times> string) option" where
  "lex_quoted [] = None"
| "lex_quoted [c] = (if c = CHR 0x22 then Some ([], []) else None)"
| "lex_quoted (c # d # cs) =
     (if c = CHR 0x22
      then (if d = CHR 0x22 then map_option (\<lambda>(n, r). (c # n, r)) (lex_quoted cs)
            else Some ([], d # cs))
      else map_option (\<lambda>(n, r). (c # n, r)) (lex_quoted (d # cs)))"

definition ident_char :: "char \<Rightarrow> bool" where
  "ident_char c \<longleftrightarrow> is_alnum c \<or> c = CHR ''_'' \<or> c = CHR ''$'' \<or> 128 \<le> ord c"

definition lex_ident :: "string \<Rightarrow> (string \<times> string) option" where
  "lex_ident s =
     (case s of [] \<Rightarrow> None
      | c # cs \<Rightarrow>
          if c = CHR 0x22
          then (case lex_quoted cs of Some (n, r) \<Rightarrow> if n = [] then None else Some (n, r) | None \<Rightarrow> None)
          else if ident_char c \<and> \<not> is_digit c \<and> c \<noteq> CHR ''$''
          then Some (map to_lower (takeWhile ident_char s), dropWhile ident_char s)
          else None)"

lemma lex_quoted_dquote:
  assumes "rest = [] \<or> hd rest \<noteq> CHR 0x22"
  shows "lex_quoted (escape_with (\<lambda>c. c = CHR 0x22) (CHR 0x22) s @ CHR 0x22 # rest) = Some (s, rest)"
proof (induction s)
  case Nil
  with assms show ?case by (cases rest) auto
next
  case (Cons c s)
  let ?t = "escape_with (\<lambda>c. c = CHR 0x22) (CHR 0x22) s @ CHR 0x22 # rest"
  obtain d ds where t: "?t = d # ds" by (cases ?t) auto
  show ?case
  proof (cases "c = CHR 0x22")
    case True
    with Cons.IH show ?thesis by simp
  next
    case False
    with Cons.IH t show ?thesis by simp
  qed
qed

lemma lex_ident_dquote:
  assumes "s \<noteq> []" "rest = [] \<or> hd rest \<noteq> CHR 0x22"
  shows "lex_ident (dquote s @ rest) = Some (s, rest)"
  using assms lex_quoted_dquote [OF assms(2), of s] by (simp add: lex_ident_def dquote_def)

lemma simple_ident_char:
  "is_lower c \<or> is_digit c \<or> c = CHR ''_'' \<Longrightarrow> ident_char c \<and> to_lower c = c"
  by (auto simp: ident_char_def is_alnum_def to_lower_def is_upper_def is_lower_def is_digit_def ord_def)

lemma lex_ident_simple:
  assumes "is_simple_ident s" "rest = [] \<or> \<not> ident_char (hd rest)"
  shows "lex_ident (s @ rest) = Some (s, rest)"
proof -
  have all: "\<forall>c \<in> set s. is_lower c \<or> is_digit c \<or> c = CHR ''_''"
    using assms(1) by (cases s) (auto simp: is_simple_ident_def list_all_iff)
  have tw: "takeWhile ident_char (s @ rest) = s" "dropWhile ident_char (s @ rest) = rest"
    using assms(2) all simple_ident_char by (cases rest; simp)+
  have lo: "map to_lower s = s"
    using all simple_ident_char by (intro map_idI) blast
  obtain c cs where s: "s = c # cs" and c: "is_lower c \<or> c = CHR ''_''"
    using assms(1) by (cases s) (auto simp: is_simple_ident_def)
  have "ident_char c \<and> \<not> is_digit c \<and> c \<noteq> CHR ''$'' \<and> c \<noteq> CHR 0x22"
    using c by (auto simp: ident_char_def is_alnum_def is_lower_def is_digit_def ord_def)
  then show ?thesis using tw lo by (simp add: lex_ident_def s)
qed

lemma collapse_us_char: "c \<in> set (collapse_us b s) \<Longrightarrow> c \<in> set s"
  by (induction s arbitrary: b) (auto split: if_splits)

lemma to_lower_alnum: "is_alnum c \<Longrightarrow> is_alnum (to_lower c) \<and> to_lower (to_lower c) = to_lower c"
  by (auto simp: is_alnum_def to_lower_def is_upper_def is_lower_def is_digit_def)

lemma normalize_fold_char: "c \<in> set (normalize_fold s) \<Longrightarrow> c = CHR ''_'' \<or> is_alnum c \<and> to_lower c = c"
  using to_lower_alnum by (induction s) (auto split: if_splits)

lemma normalize_fold_id:
  "\<forall>c \<in> set s. c = CHR ''_'' \<or> is_alnum c \<and> to_lower c = c \<Longrightarrow> normalize_fold s = s"
  by (induction s) (auto simp: is_alnum_def is_digit_def is_upper_def is_lower_def ord_def)

lemma collapse_us_idem: "collapse_us b (collapse_us b s) = collapse_us b s"
  by (induction s arbitrary: b) auto

section \<open>Facts on connection strings\<close>

text \<open>
  How libpq reads \<open>key='value'\<close> pairs: blanks, the key up to the equals sign, and a quoted value in
  which a backslash stands for the character behind it.
\<close>

fun read_conn_value :: "string \<Rightarrow> (string \<times> string) option" where
  "read_conn_value [] = None"
| "read_conn_value (c # cs) =
     (if c = CHR 0x27 then Some ([], cs)
      else if c = CHR 0x5C
      then (case cs of [] \<Rightarrow> None | d # ds \<Rightarrow> map_option (\<lambda>(v, r). (d # v, r)) (read_conn_value ds))
      else map_option (\<lambda>(v, r). (c # v, r)) (read_conn_value cs))"

lemma read_conn_value_shorter: "read_conn_value s = Some (v, r) \<Longrightarrow> length r < length s"
  by (induction s arbitrary: v r rule: read_conn_value.induct)
     (fastforce split: if_splits list.splits)+

function read_conninfo :: "string \<Rightarrow> (string \<times> string) list option" where
  "read_conninfo s =
     (case dropWhile is_space s of
        [] \<Rightarrow> Some []
      | t \<Rightarrow>
          (case dropWhile (\<lambda>c. c \<noteq> CHR ''='') t of
             c # q # body \<Rightarrow>
               (if q = CHR 0x27 then
                  (case read_conn_value body of
                     None \<Rightarrow> None
                   | Some (v, r) \<Rightarrow>
                       map_option (\<lambda>ps. (takeWhile (\<lambda>c. c \<noteq> CHR ''='') t, v) # ps) (read_conninfo r))
                else None)
           | _ \<Rightarrow> None))"
  by pat_completeness auto
termination
proof (relation "measure length", simp)
  fix s t ts c q qs body v w r
  assume "dropWhile is_space s = t # ts" "dropWhile (\<lambda>c. c \<noteq> CHR ''='') (t # ts) = c # qs"
    "qs = q # body" "q = CHR 0x27" "read_conn_value body = Some w" "(v, r) = w"
  then have "length r < length body" "Suc (Suc (length body)) \<le> length (t # ts)"
     "length (t # ts) \<le> length s"
    using read_conn_value_shorter length_dropWhile_le [of is_space s]
      length_dropWhile_le [of "\<lambda>c. c \<noteq> CHR ''=''" "t # ts"] by auto
  then show "(r, s) \<in> measure length" by simp
qed

declare read_conninfo.simps [simp del]

definition conn_value :: "string \<Rightarrow> string" where
  "conn_value v = CHR 0x27 # escape_with special_conn_char (CHR 0x5C) v @ [CHR 0x27]"

definition enc_pairs :: "(string \<times> string) list \<Rightarrow> string" where
  "enc_pairs ps = join_with '' '' (map (\<lambda>(k, v). k @ ''='' @ conn_value v) ps)"

definition key_ok :: "string \<Rightarrow> bool" where
  "key_ok k \<longleftrightarrow> k \<noteq> [] \<and> list_all (\<lambda>c. is_lower c \<or> c = CHR ''_'') k"

lemma read_conn_value_escape:
  "read_conn_value (escape_with special_conn_char (CHR 0x5C) v @ CHR 0x27 # rest) = Some (v, rest)"
  by (induction v) (auto simp: special_conn_char_def)

lemma key_ok_chars: "key_ok k \<Longrightarrow> \<forall>c \<in> set k. \<not> is_space c \<and> c \<noteq> CHR ''=''"
  by (auto simp: key_ok_def list_all_iff is_lower_def is_space_def ord_def)

lemma read_conninfo_pair:
  assumes "key_ok k" "list_all is_space sp"
  shows "read_conninfo (sp @ k @ ''='' @ conn_value v @ rest)
     = map_option (\<lambda>ps. (k, v) # ps) (read_conninfo rest)"
proof -
  let ?t = "k @ CHR ''='' # conn_value v @ rest"
  from assms(1) obtain c cs where k: "k = c # cs" by (cases k) (auto simp: key_ok_def)
  have c: "\<not> is_space c" using key_ok_chars [OF assms(1)] k by simp
  have "dropWhile is_space (sp @ ?t) = ?t"
    using assms(2) c by (simp add: list_all_iff k)
  moreover have "dropWhile (\<lambda>c. c \<noteq> CHR ''='') ?t = CHR ''='' # conn_value v @ rest"
    "takeWhile (\<lambda>c. c \<noteq> CHR ''='') ?t = k"
    using key_ok_chars [OF assms(1)] by simp_all
  ultimately show ?thesis
    using read_conn_value_escape [of v rest]
    by (subst read_conninfo.simps) (simp add: k conn_value_def)
qed

lemma read_conninfo_enc_pairs:
  "list_all (\<lambda>p. key_ok (fst p)) ps \<Longrightarrow> list_all is_space sp \<Longrightarrow>
     read_conninfo (sp @ enc_pairs ps) = Some ps"
proof (induction ps arbitrary: sp)
  case Nil
  then have "dropWhile is_space sp = []" by (simp add: dropWhile_eq_Nil_conv list_all_iff)
  then show ?case
    by (simp add: enc_pairs_def read_conninfo.simps [of sp] del: dropWhile_eq_Nil_conv)
next
  case (Cons p ps)
  obtain k v where p: "p = (k, v)" by (cases p)
  let ?tl = "if ps = [] then [] else '' '' @ enc_pairs ps"
  have e: "enc_pairs (p # ps) = k @ ''='' @ conn_value v @ ?tl"
    by (simp add: enc_pairs_def join_with_Cons p)
  have "read_conninfo ?tl = Some ps"
    using Cons.IH [of "'' ''"] Cons.prems(1) by (auto simp: read_conninfo.simps [of "[]"] is_space_def ord_def)
  then show ?case
    using read_conninfo_pair [of k sp v ?tl] Cons.prems by (simp only: e) (simp add: p)
qed

lemma add_value_fold_Inl: "fold (\<lambda>(k, v). add_value k v) ps (Inl e) = Inl e"
  by (induction ps) (auto simp: add_value_def)

lemma add_value_fold:
  "list_all (\<lambda>p. key_ok (fst p)) ps \<Longrightarrow>
   fold (\<lambda>(k, v). add_value k v) ps (Inr (enc_pairs qs))
     = (if \<exists>p \<in> set ps. NUL \<in> set (snd p) then Inl ContainsNul else Inr (enc_pairs (qs @ ps)))"
proof (induction ps arbitrary: qs)
  case Nil
  then show ?case by simp
next
  case (Cons p ps)
  obtain k v where p: "p = (k, v)" by (cases p)
  show ?case
  proof (cases "NUL \<in> set v")
    case True
    then have "add_value k v (Inr (enc_pairs qs)) = Inl ContainsNul"
      by (simp add: add_value_def escape_conninfo_value_def)
    with True show ?thesis by (simp add: p add_value_fold_Inl)
  next
    case False
    have "add_kv (enc_pairs qs) k (conn_value v) = enc_pairs (qs @ [(k, v)])"
    proof -
      have ne: "join_with '' '' (map f xs @ [y]) = (if xs = [] then y else join_with '' '' (map f xs) @ '' '' @ y)"
        for f :: "string \<times> string \<Rightarrow> string" and xs y
        by (induction xs) (auto simp: join_with_Cons)
      have "enc_pairs qs = [] \<longleftrightarrow> qs = []"
        by (cases qs) (auto simp: enc_pairs_def join_with_Cons)
      then show ?thesis by (simp add: add_kv_def enc_pairs_def ne)
    qed
    with False have "add_value k v (Inr (enc_pairs qs)) = Inr (enc_pairs (qs @ [(k, v)]))"
      by (simp add: add_value_def escape_conninfo_value_def flip: conn_value_def)
    then show ?thesis using Cons False by (simp add: p)
  qed
qed


definition conn_pairs ::
  "(string \<Rightarrow> bool) \<Rightarrow> (string \<Rightarrow> bool) \<Rightarrow> string \<Rightarrow> string \<Rightarrow> string \<Rightarrow> string \<Rightarrow> string
    \<Rightarrow> SSLConfig \<Rightarrow> TCPKeepaliveConfig \<Rightarrow> (string \<times> string) list" where
  "conn_pairs ip4 ip6 host port user dbname password ssl ka =
     (let h = strip_brackets host; opt = (\<lambda>k v. case v of None \<Rightarrow> [] | Some x \<Rightarrow> [(k, x)]) in
      (case ssl_server_hostname ssl of
         Some hn \<Rightarrow> (if is_ip_literal ip4 ip6 h then [(''hostaddr'', h)] else []) @ [(''host'', hn)]
       | None \<Rightarrow> [(''host'', h)])
      @ [(''port'', port), (''user'', user), (''dbname'', dbname), (''password'', password),
         (''sslmode'', to_string_ssl (ssl_mode ssl))]
      @ opt ''sslrootcert'' (ssl_root_cert ssl) @ opt ''sslcert'' (ssl_client_cert ssl)
      @ opt ''sslkey'' (ssl_client_key ssl) @ opt ''sslcrl'' (ssl_crl ssl)
      @ (if ka_enabled ka
         then [(''keepalives'', ''1''), (''keepalives_idle'', show_int (ka_idle ka)),
               (''keepalives_interval'', show_int (ka_interval ka)),
               (''keepalives_count'', show_int (ka_count ka))]
         else []))"

lemma add_opt_value_fold:
  "add_opt_value k v acc
     = fold (\<lambda>(k, v). add_value k v) (case v of None \<Rightarrow> [] | Some x \<Rightarrow> [(k, x)]) acc"
  by (simp add: add_opt_value_def split: option.split)

lemma show_int_1: "show_int 1 = ''1''"
  by code_simp

lemma make_conninfo_fold:
  "make_conninfo ip4 ip6 host port user dbname password ssl ka
     = fold (\<lambda>(k, v). add_value k v) (conn_pairs ip4 ip6 host port user dbname password ssl ka) (Inr [])"
  by (simp add: make_conninfo_def conn_pairs_def Let_def add_opt_value_fold add_int_def show_int_1
      split: option.split)

lemma conn_pairs_keys:
  "list_all (\<lambda>p. key_ok (fst p)) (conn_pairs ip4 ip6 host port user dbname password ssl ka)"
  by (simp add: conn_pairs_def Let_def key_ok_def is_lower_def ord_def split: option.split)


section \<open>Interpretations\<close>

interpretation array_item: codec pg_array_escape_elem
  "\<lambda>s. case parse_pg_text_elt s of (v, isnull) \<Rightarrow> if isnull then None else Some v" "\<lambda>_. True"
  by unfold_locales simp

interpretation quoted_ident: codec dquote "\<lambda>s. map_option fst (lex_ident s)" "\<lambda>s. s \<noteq> []"
  using lex_ident_dquote [of _ "[]"] by unfold_locales simp

section \<open>Properties\<close>

text \<open>C33: an array of texts, with or without NULLs, that \<^verbatim>\<open>build_pg_text_array_literal_any\<close> writes is
  split and unescaped by the decoder into exactly the elements written, whatever characters they
  contain; only the empty array is read as an array of one empty element.\<close>

theorem text_array_roundtrip:
  "map parse_pg_text_elt (split_pg_array_items
       (build_pg_text_array_literal_any P (map (map_option EStr) vs)))
   = (if vs = [] then [([], False)]
      else map (\<lambda>v. case v of None \<Rightarrow> ([], True) | Some s \<Rightarrow> (s, False)) vs)"
proof (cases "vs = []")
  case True
  then show ?thesis
    by (simp add: build_pg_text_array_literal_any_def split_pg_array_items_def split_loop.simps
        parse_pg_text_elt_def)
next
  case False
  let ?w = "\<lambda>e. case e of None \<Rightarrow> ''NULL'' | Some v \<Rightarrow> append_pg_array_elem P v"
  let ?its = "map ?w (map (map_option EStr) vs)"
  have "plain_text ''NULL''" by (simp add: plain_text_def)
  then have "list_all item_ok ?its"
    by (auto simp: list_all_iff item_ok_def split: option.split)
  moreover have "?its \<noteq> []" using False by simp
  ultimately have "split_pg_array_items (''{'' @ join_with '','' ?its @ ''}'') = ?its"
    by (intro split_join)
  with False show ?thesis
    by (auto simp: build_pg_text_array_literal_any_def comp_def split: option.split)
qed

text \<open>The channel names in LISTEN and UNLISTEN statements cannot break out of the statement: the
  server's scanner reads the quoted text back as exactly the given name, followed by the closing
  semicolon.\<close>

theorem listen_statement_lexes_back:
  assumes "ch \<noteq> []"
  shows "\<exists>q. listen_statement lsn ch = (if lsn then ''LISTEN '' else ''UNLISTEN '') @ q
           \<and> lex_ident q = Some (ch, '';'')"
proof -
  have "lex_ident (quote_ident_channel ch @ '';'') = Some (ch, '';'')"
    using assms lex_ident_dquote [of ch "'';''"] lex_ident_simple [of ch "'';''"]
    by (simp add: quote_ident_channel_def ident_char_def is_alnum_def is_digit_def is_upper_def
        is_lower_def ord_def)
  then show ?thesis
    by (intro exI [of _ "quote_ident_channel ch @ '';''"]) (simp add: listen_statement_def)
qed

theorem listen_statement_lexes_back_witness:
  "\<exists>q. listen_statement True [CHR ''a'', CHR 0x22, CHR '';''] = ''LISTEN '' @ q
      \<and> lex_ident q = Some ([CHR ''a'', CHR 0x22, CHR '';''], '';'')"
  using listen_statement_lexes_back [of "[CHR ''a'', CHR 0x22, CHR '';'']" True] by simp

text \<open>C32: a connection string either is refused, exactly when one of its values contains a NUL, or is
  read back by libpq's grammar as exactly the intended keys and values, in order: no value can add
  or change a parameter.\<close>

theorem make_conninfo_roundtrip:
  "let ps = conn_pairs ip4 ip6 host port user dbname password ssl ka in
   case make_conninfo ip4 ip6 host port user dbname password ssl ka of
     Inl e \<Rightarrow> list_ex (\<lambda>p. NUL \<in> set (snd p)) ps
   | Inr ci \<Rightarrow> list_all (\<lambda>p. NUL \<notin> set (snd p)) ps \<and> read_conninfo ci = Some ps"
proof -
  define ps where "ps = conn_pairs ip4 ip6 host port user dbname password ssl ka"
  have "make_conninfo ip4 ip6 host port user dbname password ssl ka
      = (if \<exists>p \<in> set ps. NUL \<in> set (snd p) then Inl ContainsNul else Inr (enc_pairs ps))"
    using add_value_fold [OF conn_pairs_keys, where qs = "[]"]
    by (simp add: make_conninfo_fold ps_def enc_pairs_def)
  moreover have "read_conninfo (enc_pairs ps) = Some ps"
    using read_conninfo_enc_pairs [of ps "[]"] conn_pairs_keys by (simp add: ps_def)
  ultimately show ?thesis by (auto simp: list_ex_iff list_all_iff simp flip: ps_def)
qed

end
