(* ===== verification/Pg_Retry.thy ===== *)
theory Pg_Retry
  imports Pg_Types
begin

text \<open>
  The retry policy: classification of failures (\<^verbatim>\<open>PgRetry.h\<close>), the predicates of \<^verbatim>\<open>PgPool.h\<close> on
  results, and the retry decision \<^verbatim>\<open>PgPool::next_retry_delay\<close> with its per-call budget.

  The decision computes with \<^verbatim>\<open>unsigned\<close> (\<^typ>\<open>u32\<close>, wrapping) and \<^verbatim>\<open>uint64_t\<close> (\<^typ>\<open>u64\<close>, wrapping)
  values; the shift \<^verbatim>\<open>50u << n\<close> is undefined for \<open>n \<ge> 32\<close>, which is the outer \<open>None\<close>. The steady
  clock is read once per decision and is the argument \<open>now\<close>.
\<close>

section \<open>Classification\<close>

text \<open>The enumerator \<^verbatim>\<open>None\<close> is \<open>NoRetry\<close>.\<close>

datatype RetryClass = NoRetry | NotStarted | ConnectionLost | Deadline | RolledBack

fun toString_retry :: "RetryClass \<Rightarrow> string" where
  "toString_retry NoRetry = ''none''"
| "toString_retry NotStarted = ''not_started''"
| "toString_retry ConnectionLost = ''connection_lost''"
| "toString_retry Deadline = ''deadline''"
| "toString_retry RolledBack = ''rolled_back''"

fun match_ci :: "string \<Rightarrow> string \<Rightarrow> bool" where
  "match_ci hay [] = True"
| "match_ci [] (b # needle) = False"
| "match_ci (a # hay) (b # needle) = (to_lower a = to_lower b \<and> match_ci hay needle)"

fun icontains_loop :: "string \<Rightarrow> string \<Rightarrow> bool" where
  "icontains_loop [] needle = match_ci [] needle"
| "icontains_loop (a # hay) needle =
     (if length needle \<le> length (a # hay)
      then match_ci (a # hay) needle \<or> icontains_loop hay needle else False)"

definition icontains :: "string \<Rightarrow> string \<Rightarrow> bool" where
  "icontains hay needle =
     (if needle = [] \<or> length hay < length needle then needle = [] else icontains_loop hay needle)"

definition lost_markers :: "string list" where
  "lost_markers =
     [''server closed the connection'', ''ssl connection has been closed'', ''connection not open'',
      ''no connection to the server'', ''could not send data'', ''could not receive data'',
      ''ssl syscall error'', ''eof detected'', ''terminating connection'', ''connection reset'',
      ''broken pipe'', ''server conn crashed'']"

definition is_connection_lost_message :: "string \<Rightarrow> bool" where
  "is_connection_lost_message msg = list_ex (icontains msg) lost_markers"

definition classify_sqlstate_retry :: "string \<Rightarrow> RetryClass" where
  "classify_sqlstate_retry s =
     (if length s \<noteq> 5 then NoRetry
      else if s = ''08P01'' \<or> s = ''28P01'' \<or> s = ''53300'' \<or> s = ''57P03'' then NotStarted
      else if s = ''40001'' \<or> s = ''40P01'' \<or> s = ''55P03'' then RolledBack
      else if s = ''57P01'' \<or> s = ''57P02'' \<or> s = ''25P03'' then ConnectionLost
      else if s ! 0 = CHR ''0'' \<and> s ! 1 = CHR ''8'' then ConnectionLost
      else NoRetry)"

definition classify_retry_code :: "PgErrorCode \<Rightarrow> PgErrorDetail \<Rightarrow> string \<Rightarrow> bool \<Rightarrow> RetryClass" where
  "classify_retry_code code d err io_timed_out =
     (if code = OK then NoRetry
      else if io_timed_out then Deadline
      else let by_state = classify_sqlstate_retry (ed_sqlstate d) in
        if by_state \<noteq> NoRetry then by_state
        else (case code of
            ConnectionClosed \<Rightarrow>
              if starts_with err ''io deadline exceeded'' then Deadline else ConnectionLost
          | SocketReadFailed \<Rightarrow>
              if starts_with err ''io deadline exceeded'' then Deadline else ConnectionLost
          | ServerError \<Rightarrow>
              if ed_sqlstate d = []
                 \<and> (is_connection_lost_message err \<or> is_connection_lost_message (ed_message d))
              then ConnectionLost else NoRetry
          | _ \<Rightarrow> NoRetry))"

definition classify_retry :: "QueryResult \<Rightarrow> bool \<Rightarrow> RetryClass" where
  "classify_retry r io_timed_out =
     (if qr_ok r then NoRetry
      else classify_retry_code (qr_code r) (qr_err_detail r) (qr_error r) io_timed_out)"

definition classify_retry_error :: "PgOpError \<Rightarrow> RetryClass" where
  "classify_retry_error e = classify_retry_code (oe_code e) (oe_err_detail e) (oe_error e) False"

definition is_fatal_connection_error :: "QueryResult \<Rightarrow> bool" where
  "is_fatal_connection_error q =
     (if qr_ok q then False
      else if qr_code q = SocketReadFailed \<or> qr_code q = ConnectionClosed then True
      else contains_sub (qr_error q) ''another command is already in progress''
           \<or> contains_sub (qr_error q) ''could not receive data from server''
           \<or> contains_sub (qr_error q) ''server closed the connection unexpectedly'')"

definition is_transient_pooler_sqlstate :: "string \<Rightarrow> bool" where
  "is_transient_pooler_sqlstate s \<longleftrightarrow> s = ''08P01'' \<or> s = ''28P01'' \<or> s = ''53300'' \<or> s = ''57P03''"

definition is_transient_pooler_error :: "QueryResult \<Rightarrow> bool" where
  "is_transient_pooler_error q \<longleftrightarrow> \<not> qr_ok q \<and> is_transient_pooler_sqlstate (ed_sqlstate (qr_err_detail q))"

definition is_connection_loss :: "PgErrorCode \<Rightarrow> bool \<Rightarrow> bool" where
  "is_connection_loss code io_timed_out \<longleftrightarrow>
     (code = ConnectionClosed \<or> code = SocketReadFailed) \<and> \<not> io_timed_out"

section \<open>The decision\<close>

datatype RetryScope = ScopeStatement | ScopeTransaction | ScopeTransactionCommit

record RetryBudget =
  rb_opts :: QueryOpts
  rb_started_ms :: u64
  rb_attempt :: nat
  rb_connection_lost :: nat
  rb_deadline :: nat
  rb_rolled_back :: nat

definition new_budget :: "QueryOpts \<Rightarrow> u64 \<Rightarrow> RetryBudget" where
  "new_budget opts now = \<lparr>rb_opts = opts, rb_started_ms = now, rb_attempt = 0,
     rb_connection_lost = 0, rb_deadline = 0, rb_rolled_back = 0\<rparr>"

text \<open>\<^verbatim>\<open>transient_retry_attempts_\<close>, \<^verbatim>\<open>transient_retry_base_ms_\<close> with their setter.\<close>

record RetryPolicy =
  transient_retry_attempts :: int
  transient_retry_base_ms :: u32

definition default_policy :: RetryPolicy where
  "default_policy = \<lparr>transient_retry_attempts = 3, transient_retry_base_ms = 200\<rparr>"

definition set_transient_retry :: "int \<Rightarrow> u32 \<Rightarrow> RetryPolicy \<Rightarrow> RetryPolicy" where
  "set_transient_retry attempts base_ms p =
     p\<lparr>transient_retry_attempts := (if attempts > 0 then attempts else 1),
       transient_retry_base_ms := base_ms\<rparr>"

definition retry_allowed :: "QueryOpts \<Rightarrow> RetryClass \<Rightarrow> RetryScope \<Rightarrow> bool" where
  "retry_allowed opts cls scope =
     (case cls of
        NotStarted \<Rightarrow> True
      | ConnectionLost \<Rightarrow> scope = ScopeTransaction \<or> qo_idempotent opts
          \<or> (scope = ScopeStatement \<and> qo_retry_on_connection_loss opts)
      | Deadline \<Rightarrow> scope = ScopeTransaction \<or> qo_idempotent opts
      | RolledBack \<Rightarrow> scope \<noteq> ScopeStatement \<or> qo_idempotent opts
      | NoRetry \<Rightarrow> False)"

text \<open>\<^verbatim>\<open>for (int i = 0; i < n; ++i) ms *= 3;\<close>\<close>

fun times3 :: "nat \<Rightarrow> u32 \<Rightarrow> u32" where
  "times3 0 ms = ms"
| "times3 (Suc n) ms = times3 n (ms * 3)"

definition shl32 :: "u32 \<Rightarrow> nat \<Rightarrow> u32 option" where
  "shl32 v n = (if n < 32 then Some (push_bit n v) else None)"

definition class_delay :: "RetryPolicy \<Rightarrow> RetryBudget \<Rightarrow> RetryClass \<Rightarrow> (RetryBudget \<times> u32 option) option" where
  "class_delay p b cls =
     (case cls of
        NotStarted \<Rightarrow>
          Some (b, if int (rb_attempt b) + 1 < transient_retry_attempts p
                   then Some (times3 (rb_attempt b) (transient_retry_base_ms p)) else None)
      | ConnectionLost \<Rightarrow>
          Some (b\<lparr>rb_connection_lost := Suc (rb_connection_lost b)\<rparr>,
                if rb_connection_lost b = 0 then Some 0 else None)
      | Deadline \<Rightarrow>
          Some (b\<lparr>rb_deadline := Suc (rb_deadline b)\<rparr>,
                if rb_deadline b = 0 then Some 0 else None)
      | RolledBack \<Rightarrow>
          if int (rb_rolled_back b) < transient_retry_attempts p - 1
          then (case shl32 50 (rb_rolled_back b) of
                  None \<Rightarrow> None
                | Some d \<Rightarrow> Some (b\<lparr>rb_rolled_back := Suc (rb_rolled_back b)\<rparr>, Some d))
          else Some (b, None)
      | NoRetry \<Rightarrow> Some (b, None))"

definition next_retry_delay ::
  "RetryPolicy \<Rightarrow> u64 \<Rightarrow> RetryBudget \<Rightarrow> RetryClass \<Rightarrow> RetryScope
    \<Rightarrow> (RetryBudget \<times> u32 option) option" where
  "next_retry_delay p now b cls scope =
     (if \<not> retry_allowed (rb_opts b) cls scope then Some (b, None)
      else case class_delay p b cls of
          None \<Rightarrow> None
        | Some (b', delay) \<Rightarrow>
            Some (b', case delay of
                None \<Rightarrow> None
              | Some d \<Rightarrow>
                  if qo_retry_budget_ms (rb_opts b) \<noteq> 0
                     \<and> now + ucast d \<ge> rb_started_ms b + qo_retry_budget_ms (rb_opts b)
                  then None else Some d))"

section \<open>Facts\<close>

text \<open>
  How many retries a budget still has: the bound every retry loop of the pool and of \<^verbatim>\<open>run_tx\<close>
  terminates by. \<open>rb_attempt\<close> is incremented once per retry by the loops.
\<close>

definition retries_left :: "RetryPolicy \<Rightarrow> RetryBudget \<Rightarrow> nat" where
  "retries_left p b =
     nat (transient_retry_attempts p - 1 - int (rb_attempt b)) + (1 - rb_connection_lost b)
     + (1 - rb_deadline b) + nat (transient_retry_attempts p - 1 - int (rb_rolled_back b))"

definition next_attempt :: "RetryBudget \<Rightarrow> RetryBudget" where
  "next_attempt b = b\<lparr>rb_attempt := Suc (rb_attempt b)\<rparr>"

lemma class_delay_decreases:
  assumes "class_delay p b cls = Some (b', Some d)"
  shows "retries_left p (next_attempt b') < retries_left p b \<and> rb_opts b' = rb_opts b
    \<and> rb_started_ms b' = rb_started_ms b \<and> rb_attempt b' = rb_attempt b"
  using assms
  by (cases cls)
     (auto simp: class_delay_def retries_left_def next_attempt_def split: if_splits option.splits)

lemma next_retry_delay_decreases:
  assumes "next_retry_delay p now b cls scope = Some (b', Some d)"
  shows "retries_left p (next_attempt b') < retries_left p b"
  using assms class_delay_decreases [of p b cls]
  by (auto simp: next_retry_delay_def split: if_splits option.splits)

lemma next_retry_delay_frame:
  assumes "next_retry_delay p now b cls scope = Some (b', r)"
  shows "rb_opts b' = rb_opts b" "rb_started_ms b' = rb_started_ms b" "rb_attempt b' = rb_attempt b"
  using assms
  by (cases cls;
      auto simp: next_retry_delay_def class_delay_def split: if_splits option.splits)+

lemma next_retry_delay_allowed:
  "next_retry_delay p now b cls scope = Some (b', Some d) \<Longrightarrow> retry_allowed (rb_opts b) cls scope"
  by (auto simp: next_retry_delay_def split: if_splits)

lemma next_retry_delay_defined:
  assumes "transient_retry_attempts p \<le> 33"
  shows "next_retry_delay p now b cls scope \<noteq> None"
  using assms
  by (cases cls) (auto simp: next_retry_delay_def class_delay_def shl32_def split: option.splits)

lemma times3_eq: "times3 n ms = 3 ^ n * ms"
  by (induction n arbitrary: ms) (auto simp: ac_simps)

lemma match_ci_len: "match_ci hay needle \<Longrightarrow> length needle \<le> length hay"
  by (induction hay needle rule: match_ci.induct) auto

text \<open>The index loop of \<^verbatim>\<open>icontains\<close> finds exactly the case-insensitive occurrences.\<close>

lemma icontains_loop_iff:
  "icontains_loop hay needle \<longleftrightarrow> (\<exists>i \<le> length hay. match_ci (drop i hay) needle)"
proof (induction hay)
  case Nil
  then show ?case by simp
next
  case (Cons a hay)
  have "(\<exists>i \<le> length (a # hay). match_ci (drop i (a # hay)) needle) \<longleftrightarrow>
      match_ci (a # hay) needle \<or> (\<exists>i \<le> length hay. match_ci (drop i hay) needle)"
    by (metis (no_types, lifting) Suc_le_mono drop0 drop_Suc_Cons le0 length_Cons not0_implies_Suc)
  moreover have "length needle \<le> length (a # hay)" if "match_ci (drop i hay) needle" for i
    using match_ci_len [OF that] by simp
  ultimately show ?case using Cons.IH match_ci_len [of "a # hay" needle] by auto
qed

lemma icontains_iff: "icontains hay needle \<longleftrightarrow> (\<exists>i \<le> length hay. match_ci (drop i hay) needle)"
proof (cases "needle = [] \<or> length hay < length needle")
  case True
  then show ?thesis using match_ci_len by (fastforce simp: icontains_def)
next
  case False
  then show ?thesis by (simp add: icontains_def icontains_loop_iff)
qed

section \<open>Properties\<close>



text \<open>Every retry consumes budget: the number of retries a call can still make strictly decreases,
  and starts at no more than twice the configured number of attempts, so every retry loop ends,
  whatever failures it meets.\<close>

theorem retries_are_bounded:
  assumes "next_retry_delay p now b cls scope = Some (b', Some d)" "1 \<le> transient_retry_attempts p"
  shows "retries_left p (next_attempt b') < retries_left p b
    \<and> int (retries_left p (new_budget opts t)) \<le> 2 * transient_retry_attempts p"
  using next_retry_delay_decreases [OF assms(1)] assms(2)
  by (simp add: retries_left_def new_budget_def)

theorem retries_are_bounded_witness:
  "retries_left default_policy (next_attempt (new_budget default_opts 0))
      < retries_left default_policy (new_budget default_opts 0)
   \<and> int (retries_left default_policy (new_budget default_opts 0)) \<le> 2 * 3"
proof -
  have "next_retry_delay default_policy 1000 (new_budget default_opts 0) NotStarted ScopeStatement
     = Some (new_budget default_opts 0, Some 200)"
    by (simp add: next_retry_delay_def retry_allowed_def class_delay_def default_policy_def
        new_budget_def default_opts_def)
  from retries_are_bounded [OF this, of default_opts 0] show ?thesis
    by (simp add: default_policy_def)
qed

text \<open>The backoff is defined and as documented: for up to 33 configured attempts no shift leaves the
  width of \<^verbatim>\<open>unsigned\<close>, the delay before retry \<open>i\<close> of a statement that was not started is the base
  times \<open>3 ^ i\<close> (in 32-bit arithmetic), and a retry that would start after the wall-clock budget
  is not made.\<close>

theorem retry_backoff:
  assumes "transient_retry_attempts p \<le> 33"
  shows "\<exists>b' r. next_retry_delay p now b cls scope = Some (b', r)
    \<and> (cls = NotStarted \<longrightarrow> r = None \<or> r = Some (3 ^ rb_attempt b * transient_retry_base_ms p))
    \<and> (\<forall>d. r = Some d \<and> qo_retry_budget_ms (rb_opts b) \<noteq> 0
         \<longrightarrow> now + ucast d < rb_started_ms b + qo_retry_budget_ms (rb_opts b))"
proof -
  from next_retry_delay_defined [OF assms] obtain b' r
    where r: "next_retry_delay p now b cls scope = Some (b', r)" by fastforce
  then show ?thesis
    by (auto simp: next_retry_delay_def class_delay_def times3_eq split: if_splits option.splits)
qed

theorem retry_backoff_witness:
  "\<exists>b' r. next_retry_delay default_policy 1000 ((new_budget default_opts 0)\<lparr>rb_attempt := 1\<rparr>)
         NotStarted ScopeStatement = Some (b', r) \<and> (r = None \<or> r = Some 600)"
  using retry_backoff [of default_policy 1000 "(new_budget default_opts 0)\<lparr>rb_attempt := 1\<rparr>"
      NotStarted ScopeStatement]
  by (auto simp: default_policy_def)

text \<open>The two lists of "not started" SQLSTATEs agree, no such state is classified as anything else,
  and a successful result is never retried.\<close>

theorem transient_states_agree:
  "(is_transient_pooler_sqlstate s \<longleftrightarrow> classify_sqlstate_retry s = NotStarted)
   \<and> (is_transient_pooler_error q \<and> qr_code q \<noteq> OK \<longleftrightarrow>
        classify_retry q False = NotStarted)
   \<and> (qr_ok q \<longrightarrow> classify_retry q t = NoRetry)"
proof (intro conjI impI)
  show s: "is_transient_pooler_sqlstate s \<longleftrightarrow> classify_sqlstate_retry s = NotStarted" for s
    by (auto simp: is_transient_pooler_sqlstate_def classify_sqlstate_retry_def)
  show "is_transient_pooler_error q \<and> qr_code q \<noteq> OK \<longleftrightarrow> classify_retry q False = NotStarted"
    by (auto simp: is_transient_pooler_error_def classify_retry_def classify_retry_code_def s Let_def
        split: PgErrorCode.splits)
  show "qr_ok q \<Longrightarrow> classify_retry q t = NoRetry"
    by (simp add: classify_retry_def)
qed

theorem transient_states_agree_witness:
  "classify_retry (empty_result\<lparr>qr_ok := True\<rparr>) True = NoRetry
   \<and> (is_transient_pooler_sqlstate ''53300'' \<longleftrightarrow> classify_sqlstate_retry ''53300'' = NotStarted)"
  using transient_states_agree [of "''53300''" "empty_result\<lparr>qr_ok := True\<rparr>" True] by simp

end
