(* ===== verification/Pg_Params.thy ===== *)
theory Pg_Params
  imports Pg_Text "HOL-Library.Monad_Syntax"
begin

text \<open>
  Query parameters (\<^verbatim>\<open>PgParams.h\<close>): the encoders that fill libpq's parallel arrays, the counting of
  slots, and \<^verbatim>\<open>send_query_params\<close>.

  A C++ argument is a value of \<open>param\<close> (its constructor is the overload of \<^verbatim>\<open>encode_one\<close> that is
  chosen for its type); \<open>param_type\<close> is what the slot counting looks at. The arrays have a fixed
  capacity; storing past it is undefined behaviour (the \<^verbatim>\<open>assert\<close> of \<^verbatim>\<open>next_slot\<close> is compiled out of
  release builds) and is \<open>None\<close>. The byte order of the machine is the parameter \<open>le\<close>.
\<close>

unbundle bit_operations_syntax

section \<open>Byte order\<close>

text \<open>The \<open>n\<close> low bytes of an integer, lowest first, and the integer with given bytes.\<close>

definition le_bytes :: "nat \<Rightarrow> u64 \<Rightarrow> bytes" where
  "le_bytes n v = map (\<lambda>i. ucast (drop_bit (8 * i) v)) [0..<n]"

fun of_le_bytes :: "bytes \<Rightarrow> u64" where
  "of_le_bytes [] = 0"
| "of_le_bytes (b # bs) = ucast b OR push_bit 8 (of_le_bytes bs)"

text \<open>\<^verbatim>\<open>std::byteswap\<close> on \<open>n\<close>-byte integers, and the object representation of one in memory.\<close>

definition byteswap :: "nat \<Rightarrow> u64 \<Rightarrow> u64" where
  "byteswap n v = of_le_bytes (rev (le_bytes n v))"

definition memory_bytes :: "bool \<Rightarrow> nat \<Rightarrow> u64 \<Rightarrow> bytes" where
  "memory_bytes le n v = (if le then le_bytes n v else rev (le_bytes n v))"

text \<open>\<^verbatim>\<open>to_be16\<close>, \<^verbatim>\<open>to_be32\<close>, \<^verbatim>\<open>to_be64\<close> for \<open>n\<close> = 2, 4, 8.\<close>

definition to_be :: "bool \<Rightarrow> nat \<Rightarrow> u64 \<Rightarrow> u64" where
  "to_be le n v = (if le then byteswap n v else v)"

section \<open>Slots\<close>

record param_slot =
  sl_value :: "bytes option"   \<comment> \<open>\<^verbatim>\<open>nullptr\<close> or the bytes the pointer designates\<close>
  sl_length :: int
  sl_format :: int
  sl_type :: nat

definition empty_slot :: param_slot where
  "empty_slot = \<lparr>sl_value = None, sl_length = 0, sl_format = 0, sl_type = 0\<rparr>"

record ParamSlices =
  ps_slots :: "param_slot list"   \<comment> \<open>as many as the capacity\<close>
  ps_count :: nat

text \<open>\<^verbatim>\<open>static_cast<int>(n)\<close>.\<close>

definition to_int :: "nat \<Rightarrow> int" where
  "to_int n = signed_take_bit 31 (int n)"

text \<open>\<^verbatim>\<open>next_slot\<close> and \<^verbatim>\<open>put\<close>.\<close>

definition put_next :: "bytes option \<Rightarrow> int \<Rightarrow> int \<Rightarrow> nat \<Rightarrow> ParamSlices \<Rightarrow> ParamSlices option" where
  "put_next v len fmt oid ps =
     (if ps_count ps < length (ps_slots ps)
      then Some (ps\<lparr>ps_slots := (ps_slots ps)[ps_count ps :=
                      \<lparr>sl_value = v, sl_length = len, sl_format = fmt, sl_type = oid\<rparr>],
                    ps_count := Suc (ps_count ps)\<rparr>)
      else None)"

definition set_null :: "ParamSlices \<Rightarrow> ParamSlices option" where
  "set_null ps = put_next None 0 0 0 ps"

text \<open>\<^verbatim>\<open>set_text_ref\<close>, \<^verbatim>\<open>set_text_typed\<close>, \<^verbatim>\<open>set_text_owned\<close>: they differ in who owns the text.\<close>

definition set_text_typed :: "string \<Rightarrow> nat \<Rightarrow> ParamSlices \<Rightarrow> ParamSlices option" where
  "set_text_typed s oid ps = put_next (Some (bytes_of_string s)) (to_int (length s)) 0 oid ps"

definition set_text :: "string \<Rightarrow> ParamSlices \<Rightarrow> ParamSlices option" where
  "set_text s ps = set_text_typed s 0 ps"

definition set_bin_raw :: "bytes \<Rightarrow> nat \<Rightarrow> ParamSlices \<Rightarrow> ParamSlices option" where
  "set_bin_raw d oid ps = put_next (Some d) (to_int (length d)) 1 oid ps"

text \<open>\<^verbatim>\<open>set_bin_integral<IntT>\<close> with \<^verbatim>\<open>sizeof(IntT)\<close> = \<open>n\<close>.\<close>

definition set_bin_integral :: "bool \<Rightarrow> nat \<Rightarrow> int \<Rightarrow> nat \<Rightarrow> ParamSlices \<Rightarrow> ParamSlices option" where
  "set_bin_integral le n v oid ps =
     (let n = (if n = 2 then 2 else if n = 4 then 4 else 8)
      in set_bin_raw (memory_bytes le n (to_be le n (take_bit (8 * n) (word_of_int v)))) oid ps)"

definition set_bin_f32 :: "bool \<Rightarrow> u32 \<Rightarrow> ParamSlices \<Rightarrow> ParamSlices option" where
  "set_bin_f32 le v ps = set_bin_raw (memory_bytes le 4 (to_be le 4 (ucast v))) 700 ps"

definition set_bin_f64 :: "bool \<Rightarrow> u64 \<Rightarrow> ParamSlices \<Rightarrow> ParamSlices option" where
  "set_bin_f64 le v ps = set_bin_raw (memory_bytes le 8 (to_be le 8 v)) 701 ps"

definition set_bin_bool :: "bool \<Rightarrow> ParamSlices \<Rightarrow> ParamSlices option" where
  "set_bin_bool v ps = set_bin_raw [if v then 1 else 0] 16 ps"

section \<open>Arguments\<close>

datatype param_type = PtOne | PtOptional param_type | PtTuple "param_type list" | PtAggregate "param_type list"

text \<open>
  A value of a type without an overload of its own: convertible to \<^verbatim>\<open>string_view\<close>, accepted by a constructor of \<^verbatim>\<open>string\<close>,
  or streamable, each with the text that gives; or none of these, with the name of its type.
\<close>

datatype other_value = ViewText string | StringText string | StreamedText string | NoText string

datatype 'x param =
    PBool bool
  | PInt nat int                     \<comment> \<open>\<^verbatim>\<open>sizeof\<close>, value\<close>
  | PFloat u32                       \<comment> \<open>the bits of a \<^verbatim>\<open>float\<close>\<close>
  | PDouble u64
  | PStringView string
  | PString string
  | PCharArray string                \<comment> \<open>\<^verbatim>\<open>const char[N]\<close>: all \<open>N\<close> characters\<close>
  | PCharPtr "string option"
  | PEnum "(int \<times> string) list option" nat int
      \<comment> \<open>\<^verbatim>\<open>enum_meta\<close> mapping, \<^verbatim>\<open>sizeof\<close> of the underlying type, value\<close>
  | PJsonParam bool "'x option"      \<comment> \<open>\<^verbatim>\<open>jsonb\<close>?, the value pointed to\<close>
  | PArray cpp_type "'x arr_scalar option list"
      \<comment> \<open>\<^verbatim>\<open>vector\<close>, C array, \<^verbatim>\<open>initializer_list\<close>, other ranges; element type\<close>
  | PTuple "'x param list"
  | PAggregate "'x param list"
  | POther other_value
  | POptional param_type "'x param option"

fun type_of_param :: "'x param \<Rightarrow> param_type" where
  "type_of_param (PTuple ps) = PtTuple (map type_of_param ps)"
| "type_of_param (PAggregate ps) = PtAggregate (map type_of_param ps)"
| "type_of_param (POptional t v) = PtOptional t"
| "type_of_param _ = PtOne"

definition encode_char_array :: "string \<Rightarrow> ParamSlices \<Rightarrow> ParamSlices option" where
  "encode_char_array lit ps =
     (if lit = [] then set_text [] ps
      else set_text (butlast lit) ps)"

definition encode_enum ::
  "bool \<Rightarrow> (int \<times> string) list option \<Rightarrow> nat \<Rightarrow> int \<Rightarrow> ParamSlices \<Rightarrow> ParamSlices option" where
  "encode_enum le m n v ps =
     (case enum_to_token_impl m v of
        Some tok \<Rightarrow> set_text_typed tok 0 ps
      | None \<Rightarrow>
          if n \<le> 2 then set_bin_integral le 2 v 21 ps
          else if n = 4 then set_bin_integral le 4 v 23 ps
          else set_bin_integral le 8 v 20 ps)"

definition encode_int :: "bool \<Rightarrow> nat \<Rightarrow> int \<Rightarrow> ParamSlices \<Rightarrow> ParamSlices option" where
  "encode_int le n v ps =
     (if n \<le> 2 then set_bin_integral le 2 v 21 ps
      else if n = 4 then set_bin_integral le 4 v 23 ps
      else set_bin_integral le 8 v 20 ps)"

definition encode_array :: "'x printers \<Rightarrow> cpp_type \<Rightarrow> 'x arr_scalar option list \<Rightarrow> ParamSlices \<Rightarrow> ParamSlices option" where
  [simp]: "encode_array P t es ps = set_text_typed (build_pg_text_array_literal_any P es) (pick_array_oid t) ps"

definition encode_other :: "other_value \<Rightarrow> ParamSlices \<Rightarrow> ParamSlices option" where
  [simp]: "encode_other v ps =
     (case v of
        ViewText s \<Rightarrow> set_text s ps
      | StringText s \<Rightarrow> set_text s ps
      | StreamedText s \<Rightarrow> set_text s ps
      | NoText type_name \<Rightarrow> set_text (''<param:'' @ type_name @ ''>'') ps)"

text \<open>
  \<^verbatim>\<open>encode_one\<close>. \<open>P\<close> prints elements of arrays, \<open>dump\<close> is \<^verbatim>\<open>usub::pg::json::dump\<close>. The members of a
  tuple or an aggregate are encoded one after the other.
\<close>

fun encode_one :: "bool \<Rightarrow> 'x printers \<Rightarrow> ('x \<Rightarrow> string) \<Rightarrow> 'x param \<Rightarrow> ParamSlices \<Rightarrow> ParamSlices option"
  and encode_list :: "bool \<Rightarrow> 'x printers \<Rightarrow> ('x \<Rightarrow> string) \<Rightarrow> 'x param list \<Rightarrow> ParamSlices
    \<Rightarrow> ParamSlices option" where
  "encode_one le P dump (PBool v) ps = set_bin_bool v ps"
| "encode_one le P dump (PInt n v) ps = encode_int le n v ps"
| "encode_one le P dump (PFloat v) ps = set_bin_f32 le v ps"
| "encode_one le P dump (PDouble v) ps = set_bin_f64 le v ps"
| "encode_one le P dump (PStringView s) ps = set_text s ps"
| "encode_one le P dump (PString s) ps = set_text s ps"
| "encode_one le P dump (PCharArray lit) ps = encode_char_array lit ps"
| "encode_one le P dump (PCharPtr p) ps = (case p of Some s \<Rightarrow> set_text s ps | None \<Rightarrow> set_null ps)"
| "encode_one le P dump (PEnum m n v) ps = encode_enum le m n v ps"
| "encode_one le P dump (PJsonParam jsonb v) ps =
     (case v of None \<Rightarrow> set_null ps
      | Some x \<Rightarrow> set_text_typed (dump x) (if jsonb then 3802 else 114) ps)"
| "encode_one le P dump (PArray t es) ps = encode_array P t es ps"
| "encode_one le P dump (PTuple vs) ps = encode_list le P dump vs ps"
| "encode_one le P dump (PAggregate vs) ps = encode_list le P dump vs ps"
| "encode_one le P dump (POther v) ps = encode_other v ps"
| "encode_one le P dump (POptional t v) ps =
     (case v of None \<Rightarrow> set_null ps | Some w \<Rightarrow> encode_one le P dump w ps)"
| "encode_list le P dump [] ps = Some ps"
| "encode_list le P dump (v # vs) ps = do { ps' \<leftarrow> encode_one le P dump v ps; encode_list le P dump vs ps' }"

section \<open>Counting slots\<close>

fun param_arity :: "param_type \<Rightarrow> nat" where
  "param_arity PtOne = 1"
| "param_arity (PtOptional t) = param_arity t"
| "param_arity (PtTuple ts) = length ts"
| "param_arity (PtAggregate ts) = length ts"

definition count_total_params :: "param_type list \<Rightarrow> nat" where
  "count_total_params ts = sum_list (map param_arity ts)"

text \<open>The scan of one placeholder at a dollar sign: the digits behind it, in \<^verbatim>\<open>size_t\<close> arithmetic.\<close>

definition placeholder_number :: "string \<Rightarrow> u64 option" where
  "placeholder_number s =
     (let ds = takeWhile is_digit s
      in if ds = [] then None else Some (fold (\<lambda>c n. n * 10 + word_of_nat (digit_val c)) ds 0))"

fun count_params_loop :: "u64 \<Rightarrow> string \<Rightarrow> u64" where
  "count_params_loop m (c # d # s) =
     count_params_loop
       (if c \<noteq> CHR ''$'' then m
        else case placeholder_number (d # s) of
            Some n \<Rightarrow> if n > m then n else m | None \<Rightarrow> m) (d # s)"
| "count_params_loop m _ = m"

definition count_pg_params :: "string \<Rightarrow> u64" where
  "count_pg_params sql = count_params_loop 0 sql"

text \<open>\<^verbatim>\<open>ParamBlock<N>\<close>: \<open>max N 1\<close> slots.\<close>

definition new_slices :: "nat \<Rightarrow> ParamSlices" where
  "new_slices n = \<lparr>ps_slots = replicate (if n = 0 then 1 else n) empty_slot, ps_count = 0\<rparr>"

text \<open>
  \<^verbatim>\<open>send_query_params\<close>: what is handed to \<^verbatim>\<open>PQsendQueryParams\<close>, the number of parameters and the
  slots.
\<close>

definition send_query_params ::
  "bool \<Rightarrow> 'x printers \<Rightarrow> ('x \<Rightarrow> string) \<Rightarrow> 'x param list \<Rightarrow> (nat \<times> param_slot list) option" where
  "send_query_params le P dump args = do {
     ps \<leftarrow> encode_list le P dump args (new_slices (count_total_params (map type_of_param args)));
     Some (ps_count ps, ps_slots ps) }"

section \<open>Facts on bytes\<close>

lemma length_le_bytes [simp]: "length (le_bytes n v) = n"
  by (simp add: le_bytes_def)

lemma nth_le_bytes: "i < n \<Longrightarrow> le_bytes n v ! i = ucast (drop_bit (8 * i) v)"
  by (simp add: le_bytes_def)


lemma bit_of_le_bytes:
  "bit (of_le_bytes bs) k \<longleftrightarrow> k < 64 \<and> k div 8 < length bs \<and> bit (bs ! (k div 8)) (k mod 8)"
proof (induction bs arbitrary: k)
  case Nil
  then show ?case by simp
next
  case (Cons b bs)
  show ?case
  proof (cases "k < 8")
    case True
    then show ?thesis by (auto simp: bit_simps)
  next
    case False
    then have k: "(k - 8) div 8 = k div 8 - 1" "(k - 8) mod 8 = k mod 8" "k div 8 \<noteq> 0"
      by (simp_all add: le_div_geq le_mod_geq)
    have "\<not> bit b k" using False bit_imp_le_length by fastforce
    then have "bit (of_le_bytes (b # bs)) k \<longleftrightarrow> k < 64 \<and> bit (of_le_bytes bs) (k - 8)"
      using False by (auto simp: bit_simps)
    also have "\<dots> \<longleftrightarrow> k < 64 \<and> k div 8 - 1 < length bs \<and> bit (bs ! (k div 8 - 1)) (k mod 8)"
      using Cons.IH [of "k - 8"] k by auto
    finally show ?thesis using k(3) by (auto simp: nth_Cons')
  qed
qed

lemma le_bytes_of_le_bytes: "length bs \<le> 8 \<Longrightarrow> le_bytes (length bs) (of_le_bytes bs) = bs"
proof (rule nth_equalityI)
  fix i assume "length bs \<le> 8" "i < length (le_bytes (length bs) (of_le_bytes bs))"
  then have i: "i < length bs" "length bs \<le> 8" by simp_all
  have "ucast (drop_bit (8 * i) (of_le_bytes bs)) = bs ! i"
  proof (rule bit_word_eqI)
    fix k :: nat assume "k < LENGTH(8)"
    then have k: "k < 8" "8 * i + k < 64" "(8 * i + k) div 8 = i" "(8 * i + k) mod 8 = k"
      using i by simp_all
    then show "bit (ucast (drop_bit (8 * i) (of_le_bytes bs)) :: byte) k \<longleftrightarrow> bit (bs ! i) k"
      using i by (simp add: bit_simps bit_of_le_bytes)
  qed
  with i show "le_bytes (length bs) (of_le_bytes bs) ! i = bs ! i" by (simp add: nth_le_bytes)
qed simp

lemma of_le_bytes_le_bytes: "n \<le> 8 \<Longrightarrow> of_le_bytes (le_bytes n v) = take_bit (8 * n) v"
proof (rule bit_word_eqI)
  fix k :: nat assume "n \<le> 8" "k < LENGTH(64)"
  moreover have "k div 8 < n \<longleftrightarrow> k < 8 * n" by auto
  ultimately show "bit (of_le_bytes (le_bytes n v)) k \<longleftrightarrow> bit (take_bit (8 * n) v) k"
    by (auto simp: bit_of_le_bytes nth_le_bytes bit_simps)
qed

text \<open>On either kind of machine the parameter is sent highest byte first.\<close>

lemma memory_to_be: "n \<le> 8 \<Longrightarrow> memory_bytes le n (to_be le n v) = rev (le_bytes n v)"
  using le_bytes_of_le_bytes [of "rev (le_bytes n v)"]
  by (simp add: memory_bytes_def to_be_def byteswap_def)

text \<open>How the server reads a binary integer of \<open>n\<close> bytes.\<close>

definition recv_int :: "nat \<Rightarrow> bytes \<Rightarrow> int" where
  "recv_int n bs = signed_take_bit (8 * n - 1) (uint (of_le_bytes (rev bs)))"

lemma take_bit_word_of_int: "m \<le> 64 \<Longrightarrow> uint (take_bit m (word_of_int v :: u64)) = take_bit m v"
  by (simp add: unsigned_take_bit_eq unsigned_of_int min_def)

lemma recv_int_sent:
  assumes "n \<in> {2, 4, 8}" "- (2 ^ (8 * n - 1)) \<le> v" "v < 2 ^ (8 * n - 1)"
  shows "recv_int n (memory_bytes le n (to_be le n (take_bit (8 * n) (word_of_int v)))) = v"
proof -
  have n: "n \<le> 8" using assms(1) by auto
  have "uint (of_le_bytes (le_bytes n (take_bit (8 * n) (word_of_int v)))) = take_bit (8 * n) v"
    using n by (simp add: of_le_bytes_le_bytes take_bit_word_of_int)
  then have "recv_int n (memory_bytes le n (to_be le n (take_bit (8 * n) (word_of_int v))))
      = signed_take_bit (8 * n - 1) (take_bit (8 * n) v)"
    using n by (simp add: recv_int_def memory_to_be)
  also have "\<dots> = signed_take_bit (8 * n - 1) v"
    using assms(1) by (auto simp: signed_take_bit_take_bit)
  also have "\<dots> = v" using assms by (simp add: signed_take_bit_int_eq_self)
  finally show ?thesis .
qed


section \<open>Facts on slots\<close>

text \<open>How many slots \<^verbatim>\<open>encode_one\<close> fills.\<close>

fun slots_used :: "'x param \<Rightarrow> nat" where
  "slots_used (PTuple ps) = sum_list (map slots_used ps)"
| "slots_used (PAggregate ps) = sum_list (map slots_used ps)"
| "slots_used (POptional t (Some v)) = slots_used v"
| "slots_used _ = 1"

lemma put_next_iff:
  "put_next v len fmt oid ps = Some ps' \<longleftrightarrow>
     ps_count ps < length (ps_slots ps) \<and> ps' = ps\<lparr>ps_slots := (ps_slots ps)[ps_count ps :=
                      \<lparr>sl_value = v, sl_length = len, sl_format = fmt, sl_type = oid\<rparr>],
                    ps_count := Suc (ps_count ps)\<rparr>"
  by (auto simp: put_next_def)

text \<open>What one or several encoders do to the slots: they fill the next \<open>n\<close> and touch no other.\<close>

definition fills :: "nat \<Rightarrow> (ParamSlices \<Rightarrow> ParamSlices option) \<Rightarrow> bool" where
  "fills n f \<longleftrightarrow> (\<forall>ps. ps_count ps \<le> length (ps_slots ps) \<longrightarrow>
     (case f ps of
        None \<Rightarrow> length (ps_slots ps) < ps_count ps + n
      | Some ps' \<Rightarrow> ps_count ps' = ps_count ps + n \<and> ps_count ps' \<le> length (ps_slots ps')
          \<and> length (ps_slots ps') = length (ps_slots ps)
          \<and> take (ps_count ps) (ps_slots ps') = take (ps_count ps) (ps_slots ps)))"

lemma fills_put_next: "fills 1 (put_next v len fmt oid)"
  by (auto simp: fills_def put_next_def)

lemma fills_scalar:
  "fills 1 set_null" "fills 1 (set_text_typed s t)" "fills 1 (set_text s)" "fills 1 (set_bin_raw d t)"
  "fills 1 (set_bin_bool b)" "fills 1 (set_bin_integral le n v t)" "fills 1 (set_bin_f32 le w)"
  "fills 1 (set_bin_f64 le x)" "fills 1 (encode_int le n v)" "fills 1 (encode_enum le m n v)"
  "fills 1 (encode_char_array s)"
proof -
  show 1: "fills 1 set_null" "fills 1 (set_text_typed s t)" "fills 1 (set_bin_raw d t)" for s t d
    using fills_put_next unfolding set_null_def set_text_typed_def set_bin_raw_def by simp_all
  then show 2: "fills 1 (set_text s)" "fills 1 (set_bin_bool b)" "fills 1 (set_bin_integral le n v t)"
      "fills 1 (set_bin_f32 le w)" "fills 1 (set_bin_f64 le x)" for s b n v t w x
    unfolding set_text_def set_bin_bool_def set_bin_integral_def set_bin_f32_def set_bin_f64_def Let_def
    by simp_all
  have "encode_int le n v = (if n \<le> 2 then set_bin_integral le 2 v 21
      else if n = 4 then set_bin_integral le 4 v 23 else set_bin_integral le 8 v 20)" for n v
    by (simp add: fun_eq_iff encode_int_def)
  then show "fills 1 (encode_int le n v)" by (simp add: 2 [simplified])
  have "encode_enum le m n v = (case enum_to_token_impl m v of Some tok \<Rightarrow> set_text_typed tok 0
      | None \<Rightarrow> if n \<le> 2 then set_bin_integral le 2 v 21
      else if n = 4 then set_bin_integral le 4 v 23 else set_bin_integral le 8 v 20)"
    by (simp add: fun_eq_iff encode_enum_def split: option.split)
  then show "fills 1 (encode_enum le m n v)" by (simp add: 1 [simplified] 2 [simplified] split: option.split)
  have "encode_char_array s = set_text (butlast s)"
    by (simp add: fun_eq_iff encode_char_array_def)
  then show "fills 1 (encode_char_array s)" by (simp add: 2 [simplified])
qed

lemma fills_bind:
  assumes f: "fills n f" and g: "fills m g"
  shows "fills (n + m) (\<lambda>ps. f ps \<bind> g)"
  unfolding fills_def
proof (intro allI impI)
  fix ps :: ParamSlices assume le: "ps_count ps \<le> length (ps_slots ps)"
  note F = f [unfolded fills_def, rule_format, OF le]
  show "case f ps \<bind> g of
        None \<Rightarrow> length (ps_slots ps) < ps_count ps + (n + m)
      | Some ps' \<Rightarrow> ps_count ps' = ps_count ps + (n + m) \<and> ps_count ps' \<le> length (ps_slots ps')
          \<and> length (ps_slots ps') = length (ps_slots ps)
          \<and> take (ps_count ps) (ps_slots ps') = take (ps_count ps) (ps_slots ps)"
  proof (cases "f ps")
    case None
    then show ?thesis using F by simp
  next
    case (Some p1)
    with F have p1: "ps_count p1 = ps_count ps + n" "ps_count p1 \<le> length (ps_slots p1)"
      "length (ps_slots p1) = length (ps_slots ps)"
      "take (ps_count ps) (ps_slots p1) = take (ps_count ps) (ps_slots ps)" by simp_all
    note G = g [unfolded fills_def, rule_format, OF p1(2)]
    show ?thesis
    proof (cases "g p1")
      case None
      then show ?thesis using G Some p1 by simp
    next
      case s2: (Some p2)
      with G have p2: "ps_count p2 = ps_count p1 + m" "ps_count p2 \<le> length (ps_slots p2)"
        "length (ps_slots p2) = length (ps_slots p1)"
        "take (ps_count p1) (ps_slots p2) = take (ps_count p1) (ps_slots p1)" by simp_all
      have "take (ps_count ps) (ps_slots p2) = take (ps_count ps) (take (ps_count p1) (ps_slots p2))"
        by (simp add: p1(1))
      also have "\<dots> = take (ps_count ps) (take (ps_count p1) (ps_slots p1))"
        by (simp only: p2(4))
      also have "\<dots> = take (ps_count ps) (ps_slots ps)"
        by (simp add: p1(1) p1(4))
      finally show ?thesis using Some s2 p1 p2 by simp
    qed
  qed
qed

lemma fills_Some: "fills 0 Some"
  by (simp add: fills_def)

lemma encode_list_fills:
  "(\<And>v. v \<in> set vs \<Longrightarrow> fills (slots_used v) (encode_one le P dump v)) \<Longrightarrow>
     fills (sum_list (map slots_used vs)) (encode_list le P dump vs)"
proof (induction vs)
  case Nil
  then show ?case using fills_Some by simp
next
  case (Cons v vs)
  have "fills (slots_used v + sum_list (map slots_used vs))
     (\<lambda>ps. encode_one le P dump v ps \<bind> encode_list le P dump vs)"
    using Cons by (intro fills_bind) auto
  then show ?case by simp
qed

lemma encode_one_fills: "fills (slots_used v) (encode_one le P dump v)"
proof (induction v)
  case (PCharPtr p)
  then show ?case by (cases p) (simp_all add: fills_scalar [simplified])
next
  case (PJsonParam j p)
  then show ?case by (cases p) (simp_all add: fills_scalar [simplified])
next
  case (PTuple vs)
  then show ?case using encode_list_fills [of vs] by simp
next
  case (PAggregate vs)
  then show ?case using encode_list_fills [of vs] by simp
next
  case (POptional t w)
  then show ?case by (cases w) (simp_all add: fills_scalar [simplified])
next
  case (POther v)
  then show ?case by (cases v) (simp_all add: fills_scalar [simplified])
qed (simp_all add: fills_scalar [simplified])


text \<open>Arguments without nested composites: what the documentation calls a flat argument list.\<close>

fun scalar_param :: "'x param \<Rightarrow> bool" where
  "scalar_param (PTuple ps) = False"
| "scalar_param (PAggregate ps) = False"
| "scalar_param (POptional t v) = (t = PtOne \<and> (case v of None \<Rightarrow> True | Some w \<Rightarrow> scalar_param w))"
| "scalar_param _ = True"

fun flat_param :: "'x param \<Rightarrow> bool" where
  "flat_param (PTuple ps) = list_all scalar_param ps"
| "flat_param (PAggregate ps) = list_all scalar_param ps"
| "flat_param v = scalar_param v"

lemma scalar_param_slots: "scalar_param v \<Longrightarrow> slots_used v = 1 \<and> param_arity (type_of_param v) = 1"
  by (induction v rule: scalar_param.induct) (auto split: option.splits)

lemma sum_list_scalar: "list_all scalar_param vs \<Longrightarrow> sum_list (map slots_used vs) = length vs"
  by (induction vs) (auto dest: scalar_param_slots)

lemma flat_param_slots: "flat_param v \<Longrightarrow> slots_used v = param_arity (type_of_param v)"
  using scalar_param_slots [of v]
  by (induction v rule: flat_param.induct) (auto simp: sum_list_scalar)

lemma flat_args_slots:
  "list_all flat_param args \<Longrightarrow>
     sum_list (map slots_used args) = count_total_params (map type_of_param args)"
  by (induction args) (auto simp: count_total_params_def dest: flat_param_slots)

lemma send_query_params_cases:
  "case send_query_params le P dump args of
     None \<Rightarrow> max 1 (count_total_params (map type_of_param args)) < sum_list (map slots_used args)
   | Some (n, slots) \<Rightarrow> n = sum_list (map slots_used args)
       \<and> length slots = max 1 (count_total_params (map type_of_param args)) \<and> n \<le> length slots"
proof -
  let ?ps = "new_slices (count_total_params (map type_of_param args))"
  have len: "ps_count ?ps = 0" "length (ps_slots ?ps) = max 1 (count_total_params (map type_of_param args))"
    by (auto simp: new_slices_def)
  have "fills (sum_list (map slots_used args)) (encode_list le P dump args)"
    by (rule encode_list_fills) (rule encode_one_fills)
  from this [unfolded fills_def, rule_format, of ?ps] show ?thesis
    using len by (auto simp: send_query_params_def split: option.splits)
qed

section \<open>Properties\<close>

text \<open>C29: for flat arguments (scalars, optionals of scalars, arrays, and tuples or aggregates of these)
  \<^verbatim>\<open>send_query_params\<close> fills exactly the slots that were counted at compile time and never stores
  outside them.\<close>

theorem flat_params_fill_counted_slots:
  assumes "list_all flat_param args"
  shows "\<exists>slots. send_query_params le P dump args
           = Some (count_total_params (map type_of_param args), slots)
         \<and> length slots = max 1 (count_total_params (map type_of_param args))"
  using send_query_params_cases [of args le P dump] flat_args_slots [OF assms]
  by (auto split: option.splits)

text \<open>Printers for user types that are texts.\<close>

definition text_printers :: "string printers" where
  "text_printers = \<lparr>p_to_string_ld = (\<lambda>s. s), p_to_chars = (\<lambda>s. s), p_ostream = (\<lambda>s. s)\<rparr>"

theorem flat_params_fill_counted_slots_witness:
  "\<exists>slots. send_query_params True text_printers (\<lambda>s. s)
       [PInt 4 7, PTuple [PString ''a'', POptional PtOne None], PArray TString [Some (EStr ''x'')]]
     = Some (4, slots) \<and> length slots = 4"
  using flat_params_fill_counted_slots [of
      "[PInt 4 7, PTuple [PString ''a'', POptional PtOne None], PArray TString [Some (EStr ''x'')]]"
      True text_printers "\<lambda>s. s"]
  by (simp add: count_total_params_def eval_nat_numeral)

text \<open>C30: for arbitrary arguments the encoder leaves the parameter block exactly when the members of the
  arguments, counted recursively, are more than the slots, which are counted one level deep: a
  tuple that contains a pair overflows its block, and an empty optional of a pair fills one slot of
  the two it was counted for.\<close>

theorem nested_params_overflow:
  "(send_query_params le P dump args = None \<longleftrightarrow>
      max 1 (count_total_params (map type_of_param args)) < sum_list (map slots_used args))
   \<and> send_query_params le P dump [PTuple [PBool True, PTuple [PBool True, PBool False]]] = None
   \<and> map_option fst (send_query_params le P dump [POptional (PtTuple [PtOne, PtOne]) None]) = Some 1
   \<and> count_total_params [PtOptional (PtTuple [PtOne, PtOne])] = 2"
proof (intro conjI)
  show iff: "send_query_params le P dump args = None \<longleftrightarrow>
      max 1 (count_total_params (map type_of_param args)) < sum_list (map slots_used args)" for args
    using send_query_params_cases [of args le P dump] by (auto split: option.splits)
  show "send_query_params le P dump [PTuple [PBool True, PTuple [PBool True, PBool False]]] = None"
    by (simp add: iff count_total_params_def)
  show "map_option fst (send_query_params le P dump [POptional (PtTuple [PtOne, PtOne]) None]) = Some 1"
    using send_query_params_cases [of "[POptional (PtTuple [PtOne, PtOne]) None]" le P dump]
    by (auto simp: count_total_params_def split: option.splits)
qed (simp add: count_total_params_def)

text \<open>An integer argument arrives as the number it is: on little- and big-endian machines alike the
  slot holds, in binary format and with the matching type, the bytes that the server reads back as
  the value, for every value in the signed range of the wire type.\<close>

theorem int_param_roundtrip:
  assumes "n \<in> {1, 2, 4, 8}" "m = max 2 n"
    and "- (2 ^ (8 * m - 1)) \<le> v" "v < 2 ^ (8 * m - 1)"
    and "ps_count ps < length (ps_slots ps)"
  shows "\<exists>ps' bs. encode_int le n v ps = Some ps' \<and> ps_count ps' = Suc (ps_count ps)
    \<and> ps_slots ps' ! ps_count ps = \<lparr>sl_value = Some bs, sl_length = int m, sl_format = 1,
         sl_type = (if m = 2 then 21 else if m = 4 then 23 else 20)\<rparr>
    \<and> recv_int m bs = v"
proof -
  let ?bs = "memory_bytes le m (to_be le m (take_bit (8 * m) (word_of_int v)))"
  have m: "m \<in> {2, 4, 8}" using assms(1,2) by auto
  then have len: "length ?bs = m" by (auto simp: memory_to_be)
  have "to_int m = int m" using m by (auto simp: to_int_def)
  moreover have "encode_int le n v ps
      = set_bin_raw ?bs (if m = 2 then 21 else if m = 4 then 23 else 20) ps"
    using assms(1,2) by (auto simp: encode_int_def set_bin_integral_def Let_def)
  moreover have "recv_int m ?bs = v"
    using m assms(3,4) by (rule recv_int_sent)
  ultimately show ?thesis
    using assms(5) len by (auto simp: set_bin_raw_def put_next_def intro!: exI [of _ ?bs])
qed

theorem int_param_roundtrip_witness:
  "\<exists>ps' bs. encode_int True 4 (- 5) (new_slices 1) = Some ps' \<and> ps_count ps' = 1
    \<and> ps_slots ps' ! 0 = \<lparr>sl_value = Some bs, sl_length = 4, sl_format = 1, sl_type = 23\<rparr>
    \<and> recv_int 4 bs = - 5"
  using int_param_roundtrip [of 4 4 "- 5" "new_slices 1" True] by (simp add: new_slices_def)

end
