(* ===== verification/Pg_Reflect.thy ===== *)
theory Pg_Reflect
  imports Pg_Text
begin

text \<open>
  Mapping of result rows to C++ objects (\<^verbatim>\<open>PgReflect.h\<close>): the \<^verbatim>\<open>Decoder\<close> of one cell, filling a tuple
  or aggregate by position or by column name, and the conversions of a \<^verbatim>\<open>QueryResult\<close> used as the
  last step of every query API.

  What the compile-time reflection supplies for a target type, its member names, member types and
  their printed names, is a value of \<open>struct_info\<close>; an object is the list of its member values.
  A \<^verbatim>\<open>std::runtime_error\<close> is \<open>Inl\<close> with its text. A null \<^verbatim>\<open>err\<close> pointer is \<open>None\<close>. Results carry no
  column OIDs in this configuration, so the column type in an error text is always "unknown".
\<close>

section \<open>Decoding one cell\<close>

text \<open>\<^verbatim>\<open>T{}\<close>.\<close>

fun default_val :: "'x externs \<Rightarrow> cpp_type \<Rightarrow> 'x cpp_val" where
  "default_val X TString = VStr []"
| "default_val X TStringView = VStr []"
| "default_val X TBool = VBool False"
| "default_val X (TInt sgnd w) = VInt 0"
| "default_val X (TFloat w) = VFloat (x_zero X)"
| "default_val X (TEnum m sgnd w) = VEnum 0"
| "default_val X (TOptional t) = VOpt None"
| "default_val X (TVector t) = VVec []"
| "default_val X (TJson strict) = VJson (x_zero X)"
| "default_val X (TNumRange t) = VRange None None True False False"
| "default_val X TStreamed = VUser (x_zero X)"
| "default_val X TAggregate = VNone"
| "default_val X TUnsupported = VNone"

definition parse_float :: "'x externs \<Rightarrow> nat \<Rightarrow> string \<Rightarrow> 'x option" where
  "parse_float X w s = (if s = [] then None else x_from_chars X w s)"

text \<open>One non-NULL element of a \<^verbatim>\<open>std::vector<T>\<close>.\<close>

fun decode_elem :: "'x externs \<Rightarrow> cpp_type \<Rightarrow> string \<Rightarrow> 'x cpp_val option" where
  "decode_elem X TString tok = Some (VStr tok)"
| "decode_elem X (TInt sgnd w) tok = map_option VInt (from_chars_all sgnd w tok)"
| "decode_elem X (TFloat w) tok = map_option VFloat (parse_float X w tok)"
| "decode_elem X TStreamed tok = map_option VUser (x_istream X tok)"
| "decode_elem X (TEnum m sgnd w) tok = map_option VEnum (enum_from_token_impl m sgnd w tok)"
| "decode_elem X _ tok = None"

fun decode_items :: "'x externs \<Rightarrow> cpp_type \<Rightarrow> string list \<Rightarrow> 'x cpp_val list option" where
  "decode_items X t [] = Some []"
| "decode_items X t (p # ps) =
     (case parse_pg_text_elt p of (tok, isnull) \<Rightarrow>
        (case (if isnull then Some (default_val X t) else decode_elem X t tok) of
           None \<Rightarrow> None
         | Some v \<Rightarrow> map_option (\<lambda>vs. v # vs) (decode_items X t ps)))"

definition decode_vector :: "'x externs \<Rightarrow> cpp_type \<Rightarrow> string \<Rightarrow> 'x cpp_val option" where
  "decode_vector X t sv =
     (let parts = split_pg_array_items sv in
      if parts = [] \<and> \<not> (length sv \<ge> 2 \<and> hd sv = CHR ''{'' \<and> last sv = CHR ''}'') then None
      else map_option VVec (decode_items X t parts))"

text \<open>\<^verbatim>\<open>Decoder<T>::apply\<close>: the decoded value, or \<open>None\<close> for \<^verbatim>\<open>false\<close>.\<close>

fun decoder :: "'x externs \<Rightarrow> cpp_type \<Rightarrow> string \<Rightarrow> 'x cpp_val option" where
  "decoder X TString sv = Some (VStr sv)"
| "decoder X TStringView sv = Some (VStr sv)"
| "decoder X TBool sv = map_option VBool (parse_bool_text sv)"
| "decoder X (TInt sgnd w) sv = map_option VInt (from_chars_all sgnd w sv)"
| "decoder X (TFloat w) sv = map_option VFloat (parse_float X w sv)"
| "decoder X TStreamed sv = map_option VUser (x_istream X sv)"
| "decoder X (TEnum m sgnd w) sv = map_option VEnum (enum_from_token_impl m sgnd w sv)"
| "decoder X (TOptional t) sv =
     (if sv = [] then Some (VOpt None) else map_option (\<lambda>v. VOpt (Some v)) (decoder X t sv))"
| "decoder X (TVector t) sv = decode_vector X t sv"
| "decoder X (TJson strict) sv =
     (if sv = [] then None
      else case x_json X strict sv of Inl e \<Rightarrow> None | Inr v \<Rightarrow> Some (VJson v))"
| "decoder X (TNumRange t) sv =
     (case parse_pg_numrange_parts sv of
        None \<Rightarrow> None
      | Some (lo_inc, hi_inc, lo_s, hi_s, is_empty) \<Rightarrow>
          if is_empty then Some (VRange None None lo_inc hi_inc True)
          else (case (if lo_s = [] then Some None else map_option Some (decoder X t lo_s)) of
              None \<Rightarrow> None
            | Some lo \<Rightarrow>
                (case (if hi_s = [] then Some None else map_option Some (decoder X t hi_s)) of
                   None \<Rightarrow> None
                 | Some hi \<Rightarrow> Some (VRange lo hi lo_inc hi_inc False))))"
| "decoder X TAggregate sv = None"
| "decoder X TUnsupported sv = None"

section \<open>Filling an object\<close>

record field_info =
  fi_name :: string
  fi_type :: cpp_type
  fi_type_name :: string   \<comment> \<open>\<^verbatim>\<open>ureflect::type_name\<close>, with its scopes\<close>

record struct_info =
  si_aggregate :: bool     \<comment> \<open>\<^verbatim>\<open>ReflectAggregate\<close>, otherwise tuple-like\<close>
  si_fields :: "field_info list"

definition default_obj :: "'x externs \<Rightarrow> struct_info \<Rightarrow> 'x cpp_val list" where
  "default_obj X st = map (\<lambda>f. default_val X (fi_type f)) (si_fields st)"

definition set_err :: "string \<Rightarrow> string option \<Rightarrow> string option" where
  "set_err msg err = (case err of None \<Rightarrow> None | Some _ \<Rightarrow> Some msg)"

text \<open>\<^verbatim>\<open>type_name_short\<close>: what stands behind the last \<open>::\<close> (\<^verbatim>\<open>rfind\<close>).\<close>

definition rfind_scope :: "string \<Rightarrow> nat option" where
  "rfind_scope s =
     (case filter (\<lambda>i. take 2 (drop i s) = ''::'') (rev [0..<length s]) of [] \<Rightarrow> None | pos # _ \<Rightarrow> Some pos)"

definition type_name_short :: "string \<Rightarrow> string" where
  "type_name_short s = (case rfind_scope s of None \<Rightarrow> s | Some pos \<Rightarrow> drop (pos + 2) s)"

definition positional_mismatch :: "field_info \<Rightarrow> nat \<Rightarrow> string list option \<Rightarrow> string \<Rightarrow> string" where
  "positional_mismatch f i col_names sv =
     (let col_name = (case col_names of Some ns \<Rightarrow> if i < length ns then ns ! i else [] | None \<Rightarrow> [])
      in format_mismatch_positional i (type_name_short (fi_type_name f)) i col_name ''unknown'' (preview_val sv))"

text \<open>The fold over the members: every member is tried, a failing one keeps its old value.\<close>

fun fill_positional_loop ::
  "'x externs \<Rightarrow> string list option \<Rightarrow> string list \<Rightarrow> nat \<Rightarrow> field_info list
    \<Rightarrow> bool \<times> 'x cpp_val list \<times> string option \<Rightarrow> bool \<times> 'x cpp_val list \<times> string option" where
  "fill_positional_loop X names cs i [] acc = acc"
| "fill_positional_loop X names cs i (f # fs) (ok, dst, err) =
     fill_positional_loop X names cs (Suc i) fs
       (case decoder X (fi_type f) (cs ! i) of
          Some v \<Rightarrow> (ok, dst[i := v], err)
        | None \<Rightarrow> (False, dst, set_err (positional_mismatch f i names (cs ! i)) err))"

definition fill_from_row_positional_ex ::
  "'x externs \<Rightarrow> struct_info \<Rightarrow> Row \<Rightarrow> string list option \<Rightarrow> 'x cpp_val list \<Rightarrow> string option
    \<Rightarrow> bool \<times> 'x cpp_val list \<times> string option" where
  "fill_from_row_positional_ex X st row names dst err =
     (let n = length (si_fields st) in
      if length (cols row) < n
      then (False, dst, set_err (''not enough columns: expected='' @ show_nat n @ '', got=''
                                 @ show_nat (length (cols row))) err)
      else (case fill_positional_loop X names (cols row) 0 (si_fields st) (True, dst, err) of
          (ok, dst', err') \<Rightarrow>
            (ok, dst', if \<not> ok \<and> err' = Some []
                       then Some (if si_aggregate st then ''failed to decode aggregate field (positional)''
                                  else ''failed to decode tuple element'')
                       else err')))"

record NamedPlan =
  np_col :: "int list"
  np_usable :: bool
  np_why :: string

fun find_col_from :: "nat \<Rightarrow> string list \<Rightarrow> string \<Rightarrow> int" where
  "find_col_from i [] name = -1"
| "find_col_from i (c # cs) name = (if c = name then int i else find_col_from (Suc i) cs name)"

definition find_col_idx :: "string list \<Rightarrow> string \<Rightarrow> int" where
  "find_col_idx cs name = find_col_from 0 cs name"

text \<open>\<^verbatim>\<open>static_cast<int>(i)\<close> is exact: a result has at most 1664 columns.\<close>

definition make_named_plan :: "struct_info \<Rightarrow> string list \<Rightarrow> bool \<Rightarrow> NamedPlan" where
  "make_named_plan st columns explain =
     (let n = length (si_fields st) in
      if columns = []
      then \<lparr>np_col = replicate n 0, np_usable = False,
            np_why = (if explain then ''columns are empty (driver didn'' @ [CHR 0x27] @ ''t fill names)'' else [])\<rparr>
      else let norm_cols = map normalize_ident columns;
               fields = map (\<lambda>f. normalize_ident (fi_name f)) (si_fields st);
               idx = map (find_col_idx norm_cols) fields;
               missing = filter (\<lambda>f. find_col_idx norm_cols f < 0) fields
        in if missing \<noteq> []
           then \<lparr>np_col = idx, np_usable = False,
                 np_why = (if explain
                           then ''not all fields matched by name: missing=['' @ join_csv missing
                                @ ''], available_cols=['' @ join_csv columns @ '']'' else [])\<rparr>
           else \<lparr>np_col = idx, np_usable = True, np_why = []\<rparr>)"

fun decode_named_loop ::
  "'x externs \<Rightarrow> int list \<Rightarrow> string list \<Rightarrow> string list \<Rightarrow> nat \<Rightarrow> field_info list
    \<Rightarrow> bool \<times> 'x cpp_val list \<times> string option \<Rightarrow> bool \<times> 'x cpp_val list \<times> string option" where
  "decode_named_loop X pcol columns cs i [] acc = acc"
| "decode_named_loop X pcol columns cs i (f # fs) (ok, dst, err) =
     decode_named_loop X pcol columns cs (Suc i) fs
       (let c = nat (pcol ! i) in
        if c \<ge> length cs
        then (False, dst, set_err ''column index out of row bounds'' err)
        else (case decoder X (fi_type f) (cs ! c) of
            Some v \<Rightarrow> (ok, dst[i := v], err)
          | None \<Rightarrow> (False, dst,
                     set_err (format_mismatch_named (fi_name f) (type_name_short (fi_type_name f)) (columns ! c)
                                ''unknown'' (preview_val (cs ! c))) err)))"

definition decode_named ::
  "'x externs \<Rightarrow> struct_info \<Rightarrow> NamedPlan \<Rightarrow> string list \<Rightarrow> Row \<Rightarrow> 'x cpp_val list \<Rightarrow> string option
    \<Rightarrow> bool \<times> 'x cpp_val list \<times> string option" where
  "decode_named X st plan columns row dst err =
     (case decode_named_loop X (np_col plan) columns (cols row) 0 (si_fields st) (True, dst, err) of
        (ok, dst', err') \<Rightarrow>
          (ok, dst', if \<not> ok \<and> err' = Some [] then Some ''failed to decode aggregate field (named)''
                     else err'))"

definition fill_from_row_named ::
  "'x externs \<Rightarrow> struct_info \<Rightarrow> QueryResult \<Rightarrow> nat \<Rightarrow> 'x cpp_val list \<Rightarrow> string option
    \<Rightarrow> bool \<times> 'x cpp_val list \<times> string option" where
  "fill_from_row_named X st qr row_index dst err =
     (if row_index \<ge> length (qr_rows qr)
      then (False, dst, set_err (''row out of range: row='' @ show_nat row_index @ '', total_rows=''
                                 @ show_nat (length (qr_rows qr))) err)
      else let plan = make_named_plan st (qr_columns qr) (err \<noteq> None) in
        if \<not> np_usable plan then (False, dst, set_err (np_why plan) err)
        else decode_named X st plan (qr_columns qr) (qr_rows qr ! row_index) dst err)"

section \<open>Mapping results\<close>

definition map_row_reflect_positional_ex ::
  "'x externs \<Rightarrow> struct_info \<Rightarrow> QueryResult \<Rightarrow> nat \<Rightarrow> 'x cpp_val list \<Rightarrow> string option
    \<Rightarrow> bool \<times> 'x cpp_val list \<times> string option" where
  "map_row_reflect_positional_ex X st qr row_index dst err =
     (if row_index \<ge> length (qr_rows qr) then (False, dst, set_err ''row out of range'' err)
      else let names = (if qr_columns qr = [] then None else Some (qr_columns qr));
               perr = (case err of Some e \<Rightarrow> e | None \<Rightarrow> []);
               res = fill_from_row_positional_ex X st (qr_rows qr ! row_index) names dst (Some perr)
        in (fst res, fst (snd res), if err = None then None else snd (snd res)))"

text \<open>The two calls on one row that report in a flag; the error text of a caller that wants none is dropped.\<close>

definition with_local_err ::
  "(string option \<Rightarrow> bool \<times> 'v \<times> string option) \<Rightarrow> string option \<Rightarrow> bool \<times> 'v \<times> string option" where
  "with_local_err f err =
     (case f (Some (case err of Some e \<Rightarrow> e | None \<Rightarrow> [])) of (ok, dst, e) \<Rightarrow> (ok, dst, if err = None then None else e))"

definition map_row_reflect_positional where
  "map_row_reflect_positional X st row dst err = with_local_err (fill_from_row_positional_ex X st row None dst) err"

definition map_row_reflect_named where
  "map_row_reflect_named X st qr row_index dst err = with_local_err (fill_from_row_named X st qr row_index dst) err"

definition runtime_text :: "string option \<Rightarrow> string" where
  "runtime_text err = (case err of Some e \<Rightarrow> if e \<noteq> [] then e else ''decode failed'' | None \<Rightarrow> ''decode failed'')"

definition map_single_reflect_positional ::
  "'x externs \<Rightarrow> struct_info \<Rightarrow> QueryResult \<Rightarrow> nat \<Rightarrow> string + 'x cpp_val list" where
  "map_single_reflect_positional X st qr row =
     (case map_row_reflect_positional_ex X st qr row (default_obj X st) (Some []) of
        (ok, dst, err) \<Rightarrow> if \<not> ok then Inl (runtime_text err) else Inr dst)"

definition map_single_reflect_named ::
  "'x externs \<Rightarrow> struct_info \<Rightarrow> QueryResult \<Rightarrow> nat \<Rightarrow> string + 'x cpp_val list" where
  "map_single_reflect_named X st qr row =
     (case fill_from_row_named X st qr row (default_obj X st) (Some []) of
        (ok, dst, err) \<Rightarrow> if \<not> ok then Inl (runtime_text err) else Inr dst)"

text \<open>The loop over the rows: the first failing row throws, with its index in the text.\<close>

fun map_rows_loop ::
  "(Row \<Rightarrow> nat \<Rightarrow> bool \<times> 'a \<times> string option) \<Rightarrow> nat \<Rightarrow> Row list \<Rightarrow> string + 'a list" where
  "map_rows_loop f i [] = Inr []"
| "map_rows_loop f i (r # rs) =
     (case f r i of (ok, dst, err) \<Rightarrow>
        if \<not> ok then Inl (''row='' @ show_nat i @ '': '' @ runtime_text err)
        else (case map_rows_loop f (Suc i) rs of Inl e \<Rightarrow> Inl e | Inr out \<Rightarrow> Inr (dst # out)))"

definition map_all_reflect_positional ::
  "'x externs \<Rightarrow> struct_info \<Rightarrow> QueryResult \<Rightarrow> string + 'x cpp_val list list" where
  "map_all_reflect_positional X st qr =
     map_rows_loop (\<lambda>r i. map_row_reflect_positional_ex X st qr i (default_obj X st) (Some [])) 0
       (qr_rows qr)"

definition map_all_reflect_named ::
  "'x externs \<Rightarrow> struct_info \<Rightarrow> QueryResult \<Rightarrow> string + 'x cpp_val list list" where
  "map_all_reflect_named X st qr =
     (if qr_rows qr = [] then Inr []
      else let plan = make_named_plan st (qr_columns qr) True in
        if \<not> np_usable plan then Inl (''row=0: '' @ np_why plan)
        else map_rows_loop (\<lambda>r i. decode_named X st plan (qr_columns qr) r (default_obj X st) (Some []))
               0 (qr_rows qr))"

text \<open>The named attempt of \<^verbatim>\<open>map_rows_named_or_positional\<close>: all rows or nothing.\<close>

fun try_named_rows ::
  "'x externs \<Rightarrow> struct_info \<Rightarrow> NamedPlan \<Rightarrow> string list \<Rightarrow> Row list \<Rightarrow> 'x cpp_val list list option" where
  "try_named_rows X st plan columns [] = Some []"
| "try_named_rows X st plan columns (r # rs) =
     (case decode_named X st plan columns r (default_obj X st) None of (ok, dst, err) \<Rightarrow>
        if \<not> ok then None else map_option (\<lambda>out. dst # out) (try_named_rows X st plan columns rs))"

definition map_rows_named_or_positional ::
  "'x externs \<Rightarrow> struct_info \<Rightarrow> QueryResult \<Rightarrow> string + 'x cpp_val list list" where
  "map_rows_named_or_positional X st qr =
     (if qr_rows qr = [] then Inr []
      else let plan = make_named_plan st (qr_columns qr) False in
        case (if si_aggregate st \<and> np_usable plan
              then try_named_rows X st plan (qr_columns qr) (qr_rows qr) else None) of
          Some out \<Rightarrow> Inr out
        | None \<Rightarrow> map_all_reflect_positional X st qr)"

definition map_row_named_or_positional ::
  "'x externs \<Rightarrow> struct_info \<Rightarrow> QueryResult \<Rightarrow> nat \<Rightarrow> string + 'x cpp_val list" where
  "map_row_named_or_positional X st qr row =
     (let plan = make_named_plan st (qr_columns qr) False;
          res = decode_named X st plan (qr_columns qr) (qr_rows qr ! row) (default_obj X st) None
      in if si_aggregate st \<and> row < length (qr_rows qr) \<and> np_usable plan \<and> fst res
         then Inr (fst (snd res))
         else map_single_reflect_positional X st qr row)"

text \<open>The conversions \<^verbatim>\<open>AsExpectedRows\<close>, \<^verbatim>\<open>AsExpectedOne\<close>, \<^verbatim>\<open>AsRows\<close>, \<^verbatim>\<open>AsOptionalRow\<close>.\<close>

definition AsExpectedRows ::
  "'x externs \<Rightarrow> struct_info \<Rightarrow> QueryResult \<Rightarrow> string + (PgOpError + 'x cpp_val list list)" where
  "AsExpectedRows X st r =
     (if \<not> qr_ok r then Inr (Inl (to_op_error r))
      else map_sum id Inr (map_rows_named_or_positional X st r))"

definition AsExpectedOne ::
  "'x externs \<Rightarrow> struct_info \<Rightarrow> QueryResult \<Rightarrow> string + (PgOpError + 'x cpp_val list)" where
  "AsExpectedOne X st r =
     (if \<not> qr_ok r then Inr (Inl (to_op_error r))
      else if qr_rows r = [] then Inr (Inl (op_error Unknown ''no rows''))
      else map_sum id Inr (map_row_named_or_positional X st r 0))"

definition AsRows :: "'x externs \<Rightarrow> struct_info \<Rightarrow> QueryResult \<Rightarrow> string + 'x cpp_val list list" where
  "AsRows X st r = (if \<not> qr_ok r then Inr [] else map_rows_named_or_positional X st r)"

definition AsOptionalRow :: "'x externs \<Rightarrow> struct_info \<Rightarrow> QueryResult \<Rightarrow> string + 'x cpp_val list option" where
  "AsOptionalRow X st r =
     (if \<not> qr_ok r \<or> qr_rows r = [] then Inr None
      else map_sum id Some (map_row_named_or_positional X st r 0))"


section \<open>Facts on filling\<close>

lemma no_scope_behind:
  assumes "CHR '':'' \<notin> set n" "length ns < i"
  shows "take 2 (drop i (ns @ ''::'' @ n)) \<noteq> ''::''"
proof -
  obtain j where i: "i = length ns + Suc j"
    using assms(2) less_imp_Suc_add by force
  have "take 2 (CHR '':'' # n) \<noteq> ''::''"
    using assms(1) by (cases n) auto
  moreover have "take 2 (drop k n) \<noteq> ''::''" for k
    using assms(1) by (metis in_set_dropD in_set_takeD list.set_intros(1))
  ultimately show ?thesis
    by (cases j) (auto simp: i)
qed

text \<open>The error texts name a type without its scopes.\<close>

lemma type_name_short_scoped:
  assumes "CHR '':'' \<notin> set n"
  shows "type_name_short (ns @ ''::'' @ n) = n"
proof -
  define s where "s = ns @ ''::'' @ n"
  have "[0..<length s] = [0..<length ns] @ length ns # [Suc (length ns)..<length s]"
    using upt_add_eq_append [of 0 "length ns" "Suc (Suc (length n))"] upt_conv_Cons [of "length ns" "length ns + Suc (Suc (length n))"]
    by (simp add: s_def)
  moreover have "filter (\<lambda>i. take 2 (drop i s) = ''::'') (rev [Suc (length ns)..<length s]) = []"
    using no_scope_behind [OF assms] unfolding filter_empty_conv s_def set_rev by (metis Suc_le_eq atLeastLessThan_iff set_upt)
  moreover have "take 2 (drop (length ns) s) = ''::''" by (simp add: s_def)
  ultimately have "rfind_scope s = Some (length ns)"
    by (simp add: rfind_scope_def)
  then have "type_name_short s = drop (length ns + 2) s"
    by (simp add: type_name_short_def)
  then show ?thesis by (simp add: s_def)
qed

lemma find_col_from_index:
  "find_col_from i cs name = (case index_from i cs name of None \<Rightarrow> - 1 | Some k \<Rightarrow> int k)"
  by (induction cs arbitrary: i) auto

text \<open>
  Both loops over the members have one shape: member \<open>j\<close> gets the value \<open>g j\<close> when there is one;
  otherwise the object is left alone and the result is marked failed.
\<close>

fun fill_spec :: "(nat \<Rightarrow> 'v option) \<Rightarrow> nat \<Rightarrow> nat \<Rightarrow> bool \<times> 'v list \<Rightarrow> bool \<times> 'v list" where
  "fill_spec g i 0 acc = acc"
| "fill_spec g i (Suc n) (ok, dst) =
     fill_spec g (Suc i) n (case g i of Some v \<Rightarrow> (ok, dst[i := v]) | None \<Rightarrow> (False, dst))"

lemma fill_spec_ok:
  "fst (fill_spec g i n (ok, dst)) \<longleftrightarrow> ok \<and> (\<forall>j. i \<le> j \<and> j < i + n \<longrightarrow> g j \<noteq> None)"
proof (induction n arbitrary: i ok dst)
  case (Suc n)
  have "(\<forall>j. i \<le> j \<and> j < i + Suc n \<longrightarrow> g j \<noteq> None) \<longleftrightarrow>
      g i \<noteq> None \<and> (\<forall>j. Suc i \<le> j \<and> j < Suc i + n \<longrightarrow> g j \<noteq> None)"
    by (metis Suc_le_eq add_Suc add_Suc_right le_neq_implies_less less_add_Suc1 less_imp_le_nat order_refl)
  then show ?case by (cases "g i") (simp_all add: Suc.IH del: not_None_eq)
qed auto

lemma fill_spec_vals:
  "i + n = length dst \<Longrightarrow> (\<forall>j. i \<le> j \<and> j < i + n \<longrightarrow> g j \<noteq> None) \<Longrightarrow>
     snd (fill_spec g i n (ok, dst)) = take i dst @ map (the \<circ> g) [i..<i + n]"
proof (induction n arbitrary: i dst)
  case (Suc n)
  then obtain v where v: "g i = Some v" by fastforce
  have "snd (fill_spec g (Suc i) n (ok, dst[i := v])) = take (Suc i) (dst[i := v]) @ map (the \<circ> g) [Suc i..<Suc i + n]"
    using Suc.prems by (intro Suc.IH) auto
  moreover have "take (Suc i) (dst[i := v]) = take i dst @ [v]"
    using Suc.prems(1) by (simp add: take_Suc_conv_app_nth)
  moreover have "[i..<i + Suc n] = i # [Suc i..<Suc i + n]"
    by (simp add: upt_rec)
  ultimately show ?case by (simp add: v)
qed simp

lemma fill_spec_iff:
  assumes "length dst0 = n"
  shows "fill_spec g 0 n (True, dst0) = (True, dst) \<longleftrightarrow> map Some dst = map g [0..<n]"
proof
  assume *: "fill_spec g 0 n (True, dst0) = (True, dst)"
  then have all: "\<forall>j. 0 \<le> j \<and> j < 0 + n \<longrightarrow> g j \<noteq> None"
    using fill_spec_ok [of g 0 n True dst0] by simp
  from fill_spec_vals [OF _ all, of dst0 True] assms * have "dst = map (the \<circ> g) [0..<n]" by simp
  then show "map Some dst = map g [0..<n]" using all by auto
next
  assume eq: "map Some dst = map g [0..<n]"
  then have len: "length dst = n" using map_eq_imp_length_eq [OF eq] by simp
  have nth: "g j = Some (dst ! j)" if "j < n" for j
    using arg_cong [OF eq, of "\<lambda>l. l ! j"] that len by simp
  then have all: "\<forall>j. 0 \<le> j \<and> j < 0 + n \<longrightarrow> g j \<noteq> None" by simp
  have "map (the \<circ> g) [0..<n] = dst" using nth len by (intro nth_equalityI) auto
  with fill_spec_vals [OF _ all, of dst0 True] fill_spec_ok [of g 0 n True dst0] all assms
  show "fill_spec g 0 n (True, dst0) = (True, dst)" by (simp add: prod_eq_iff)
qed

lemma fill_positional_loop_spec:
  "i + length fs = length all \<Longrightarrow> (\<forall>j < length fs. fs ! j = all ! (i + j)) \<Longrightarrow>
   fill_spec (\<lambda>j. decoder X (fi_type (all ! j)) (cs ! j)) i (length fs) (ok, dst)
     = (case fill_positional_loop X names cs i fs (ok, dst, err) of (ok', dst', err') \<Rightarrow> (ok', dst'))"
proof (induction fs arbitrary: i ok dst err)
  case (Cons f fs)
  have f: "all ! i = f" using Cons.prems(2) by force
  have "Suc i + length fs = length all" "\<forall>j < length fs. fs ! j = all ! (Suc i + j)"
    using Cons.prems by auto
  note IH = Cons.IH [OF this]
  show ?case by (cases "decoder X (fi_type f) (cs ! i)") (simp_all add: f IH)
qed simp

lemma decode_named_loop_spec:
  "i + length fs = length all \<Longrightarrow> (\<forall>j < length fs. fs ! j = all ! (i + j)) \<Longrightarrow>
   fill_spec (\<lambda>j. if nat (pcol ! j) \<ge> length cs then None
                  else decoder X (fi_type (all ! j)) (cs ! nat (pcol ! j))) i (length fs) (ok, dst)
     = (case decode_named_loop X pcol columns cs i fs (ok, dst, err) of (ok', dst', err') \<Rightarrow> (ok', dst'))"
proof (induction fs arbitrary: i ok dst err)
  case (Cons f fs)
  have f: "all ! i = f" using Cons.prems(2) by force
  have "Suc i + length fs = length all" "\<forall>j < length fs. fs ! j = all ! (Suc i + j)"
    using Cons.prems by auto
  note IH = Cons.IH [OF this]
  show ?case
    by (cases "decoder X (fi_type f) (cs ! nat (pcol ! i))") (simp_all add: f IH Let_def)
qed simp

text \<open>The value a member gets by name, and by position.\<close>

definition named_value :: "'x externs \<Rightarrow> struct_info \<Rightarrow> string list \<Rightarrow> Row \<Rightarrow> nat \<Rightarrow> 'x cpp_val option" where
  "named_value X st columns r j =
     (case index_from 0 (map normalize_ident columns) (normalize_ident (fi_name (si_fields st ! j))) of
        None \<Rightarrow> None
      | Some c \<Rightarrow> if c < length (cols r) then decoder X (fi_type (si_fields st ! j)) (cols r ! c) else None)"

lemma plan_usable_iff:
  "np_usable (make_named_plan st columns e) \<longleftrightarrow>
     columns \<noteq> [] \<and> (\<forall>j < length (si_fields st).
       index_from 0 (map normalize_ident columns) (normalize_ident (fi_name (si_fields st ! j))) \<noteq> None)"
proof -
  have "find_col_idx cs f < 0 \<longleftrightarrow> index_from 0 cs f = None" for cs f
    by (simp add: find_col_idx_def find_col_from_index split: option.split)
  then show ?thesis
    by (auto simp: make_named_plan_def Let_def filter_empty_conv all_set_conv_all_nth)
qed

lemma plan_col:
  assumes "np_usable (make_named_plan st columns e)" "j < length (si_fields st)"
  shows "(if nat (np_col (make_named_plan st columns e) ! j) \<ge> length (cols r) then None
          else decoder X (fi_type (si_fields st ! j)) (cols r ! nat (np_col (make_named_plan st columns e) ! j)))
      = named_value X st columns r j"
proof -
  from assms(1) have ne: "columns \<noteq> []" by (simp add: plan_usable_iff)
  from assms obtain c where
    c: "index_from 0 (map normalize_ident columns) (normalize_ident (fi_name (si_fields st ! j))) = Some c"
    by (auto simp: plan_usable_iff)
  have "np_col (make_named_plan st columns e) ! j = int c"
    using assms(2) ne c by (simp add: make_named_plan_def Let_def find_col_idx_def find_col_from_index)
  with c show ?thesis by (simp add: named_value_def not_le)
qed

lemma fill_spec_cong:
  "(\<And>j. i \<le> j \<Longrightarrow> j < i + n \<Longrightarrow> g j = h j) \<Longrightarrow> fill_spec g i n acc = fill_spec h i n acc"
proof (induction n arbitrary: i acc)
  case (Suc n)
  obtain ok dst where acc: "acc = (ok, dst)" by (cases acc)
  have "fill_spec g (Suc i) n a = fill_spec h (Suc i) n a" for a
    using Suc.prems by (intro Suc.IH) auto
  then show ?case using Suc.prems [of i] by (simp add: acc)
qed simp

text \<open>\<^verbatim>\<open>decode_named\<close> succeeds exactly when every member has its value, and yields these.\<close>

lemma decode_named_iff:
  assumes "np_usable (make_named_plan st columns e)"
  shows "(\<exists>er. decode_named X st (make_named_plan st columns e) columns r (default_obj X st) err = (True, dst, er))
     \<longleftrightarrow> map Some dst = map (named_value X st columns r) [0..<length (si_fields st)]"
proof -
  let ?plan = "make_named_plan st columns e"
  let ?g = "\<lambda>j. if nat (np_col ?plan ! j) \<ge> length (cols r) then None
                  else decoder X (fi_type (si_fields st ! j)) (cols r ! nat (np_col ?plan ! j))"
  let ?n = "length (si_fields st)"
  have "(\<exists>er. decode_named X st ?plan columns r (default_obj X st) err = (True, dst, er)) \<longleftrightarrow>
     fill_spec ?g 0 ?n (True, default_obj X st) = (True, dst)"
    unfolding decode_named_loop_spec [where i = 0 and fs = "si_fields st" and all = "si_fields st"
        and columns = columns and err = err, simplified]
    by (auto simp: decode_named_def split: prod.splits)
  also have "\<dots> \<longleftrightarrow> fill_spec (named_value X st columns r) 0 ?n (True, default_obj X st) = (True, dst)"
  proof -
    have "fill_spec ?g 0 ?n (True, default_obj X st)
        = fill_spec (named_value X st columns r) 0 ?n (True, default_obj X st)"
      by (rule fill_spec_cong, rule plan_col [OF assms]) simp
    then show ?thesis by (simp only:)
  qed
  also have "\<dots> \<longleftrightarrow> map Some dst = map (named_value X st columns r) [0..<?n]"
    by (rule fill_spec_iff) (simp add: default_obj_def)
  finally show ?thesis .
qed


definition positional_value :: "'x externs \<Rightarrow> struct_info \<Rightarrow> Row \<Rightarrow> nat \<Rightarrow> 'x cpp_val option" where
  "positional_value X st r j = decoder X (fi_type (si_fields st ! j)) (cols r ! j)"

lemma fill_positional_iff:
  "(\<exists>er. fill_from_row_positional_ex X st r names (default_obj X st) err = (True, dst, er))
     \<longleftrightarrow> length (si_fields st) \<le> length (cols r)
       \<and> map Some dst = map (positional_value X st r) [0..<length (si_fields st)]"
proof (cases "length (cols r) < length (si_fields st)")
  case True
  then show ?thesis by (simp add: fill_from_row_positional_ex_def Let_def)
next
  case False
  let ?g = "positional_value X st r"
  have "(\<exists>er. fill_from_row_positional_ex X st r names (default_obj X st) err = (True, dst, er)) \<longleftrightarrow>
     fill_spec ?g 0 (length (si_fields st)) (True, default_obj X st) = (True, dst)"
    unfolding positional_value_def
      fill_positional_loop_spec [where i = 0 and fs = "si_fields st" and all = "si_fields st"
        and names = names and err = err, simplified]
    using False by (auto simp: fill_from_row_positional_ex_def Let_def split: prod.splits)
  with False show ?thesis using fill_spec_iff [of "default_obj X st"] by (simp add: default_obj_def)
qed

lemma map_row_positional_iff:
  "(\<exists>er. map_row_reflect_positional_ex X st q i (default_obj X st) err = (True, dst, er))
     \<longleftrightarrow> i < length (qr_rows q) \<and> length (si_fields st) \<le> length (cols (qr_rows q ! i))
       \<and> map Some dst = map (positional_value X st (qr_rows q ! i)) [0..<length (si_fields st)]"
proof (cases "i < length (qr_rows q)")
  case True
  let ?names = "if qr_columns q = [] then None else Some (qr_columns q)"
  let ?perr = "case err of Some e \<Rightarrow> e | None \<Rightarrow> []"
  have "(\<exists>er. map_row_reflect_positional_ex X st q i (default_obj X st) err = (True, dst, er)) \<longleftrightarrow>
     (\<exists>er. fill_from_row_positional_ex X st (qr_rows q ! i) ?names (default_obj X st) (Some ?perr) = (True, dst, er))"
    using True by (auto simp: map_row_reflect_positional_ex_def Let_def prod_eq_iff)
  with True show ?thesis by (simp add: fill_positional_iff)
next
  case False
  then show ?thesis by (simp add: map_row_reflect_positional_ex_def)
qed

lemma map_rows_loop_Inr:
  "map_rows_loop f i rs = Inr out \<Longrightarrow>
     length out = length rs \<and> (\<forall>j < length rs. \<exists>er. f (rs ! j) (i + j) = (True, out ! j, er))"
proof (induction rs arbitrary: i out)
  case (Cons r rs)
  then obtain dst er out' where r: "f r i = (True, dst, er)" and
    rs: "map_rows_loop f (Suc i) rs = Inr out'" and out: "out = dst # out'"
    by (auto split: prod.splits if_splits sum.splits)
  from Cons.IH [OF rs] r out show ?case by (auto simp: less_Suc_eq_0_disj)
qed simp

lemma try_named_rows_Some:
  "try_named_rows X st plan columns rs = Some out \<Longrightarrow>
     length out = length rs
     \<and> (\<forall>j < length rs. \<exists>er. decode_named X st plan columns (rs ! j) (default_obj X st) None = (True, out ! j, er))"
proof (induction rs arbitrary: out)
  case (Cons r rs)
  then obtain dst er out' where r: "decode_named X st plan columns r (default_obj X st) None = (True, dst, er)"
    and rs: "try_named_rows X st plan columns rs = Some out'" and out: "out = dst # out'"
    by (auto split: prod.splits if_splits)
  from Cons.IH [OF rs] r out show ?case by (auto simp: less_Suc_eq_0_disj)
qed simp

lemma named_value_index:
  "named_value X st columns r j \<noteq> None \<Longrightarrow>
     index_from 0 (map normalize_ident columns) (normalize_ident (fi_name (si_fields st ! j))) \<noteq> None"
  by (cases "index_from 0 (map normalize_ident columns) (normalize_ident (fi_name (si_fields st ! j)))")
     (simp_all add: named_value_def)

section \<open>Properties\<close>

text \<open>Mapping by name succeeds exactly when every member of the target has a column whose normalised
  name is the member's, the row has that column and its text decodes; the object then holds, for
  every member, the value of the first such column. The order of the columns is irrelevant.\<close>

theorem named_mapping_exact:
  "map_single_reflect_named X st q row = Inr dst \<longleftrightarrow>
     row < length (qr_rows q) \<and> qr_columns q \<noteq> []
     \<and> map Some dst = map (named_value X st (qr_columns q) (qr_rows q ! row)) [0..<length (si_fields st)]"
proof -
  let ?plan = "make_named_plan st (qr_columns q) True"
  let ?vals = "map (named_value X st (qr_columns q) (qr_rows q ! row)) [0..<length (si_fields st)]"
  have us: "np_usable ?plan" if "map Some dst = ?vals" "qr_columns q \<noteq> []"
  proof -
    have "named_value X st (qr_columns q) (qr_rows q ! row) j = Some (dst ! j)"
      if "j < length (si_fields st)" for j
      using that arg_cong [OF \<open>map Some dst = ?vals\<close>, of "\<lambda>l. l ! j"]
        map_eq_imp_length_eq [OF \<open>map Some dst = ?vals\<close>] by simp
    then have "named_value X st (qr_columns q) (qr_rows q ! row) j \<noteq> None"
      if "j < length (si_fields st)" for j
      using that by simp
    with that(2) show ?thesis using named_value_index by (simp add: plan_usable_iff del: not_None_eq) blast
  qed
  show ?thesis
  proof (cases "row < length (qr_rows q) \<and> np_usable ?plan")
    case True
    then have "map_single_reflect_named X st q row = Inr dst \<longleftrightarrow>
        (\<exists>er. decode_named X st ?plan (qr_columns q) (qr_rows q ! row) (default_obj X st) (Some [])
           = (True, dst, er))"
      by (auto simp: map_single_reflect_named_def fill_from_row_named_def Let_def split: prod.splits)
    moreover have "qr_columns q \<noteq> []" using True by (simp add: plan_usable_iff)
    ultimately show ?thesis using True by (simp add: decode_named_iff)
  next
    case False
    then show ?thesis using us
      by (auto simp: map_single_reflect_named_def fill_from_row_named_def Let_def split: if_splits)
  qed
qed

text \<open>Rows are mapped all by name or all by position.\<close>

lemma rows_uniform:
  assumes out: "map_rows_named_or_positional X st q = Inr out"
  shows "length out = length (qr_rows q) \<and> (let n = length (si_fields st) in
      (\<forall>i. i < length (qr_rows q) \<longrightarrow> map Some (out ! i) = map (named_value X st (qr_columns q) (qr_rows q ! i)) [0..<n])
      \<or> (\<forall>i. i < length (qr_rows q) \<longrightarrow> map Some (out ! i) = map (positional_value X st (qr_rows q ! i)) [0..<n]))"
proof -
  let ?plan = "make_named_plan st (qr_columns q) False"
  consider "qr_rows q = []" "out = []"
    | (named) "np_usable ?plan" "try_named_rows X st ?plan (qr_columns q) (qr_rows q) = Some out"
    | (pos) "map_all_reflect_positional X st q = Inr out"
    using out unfolding map_rows_named_or_positional_def Let_def
    by (cases "qr_rows q = []"; cases "si_aggregate st \<and> np_usable ?plan";
        cases "try_named_rows X st ?plan (qr_columns q) (qr_rows q)") simp_all
  then show ?thesis
  proof cases
    case named
    note rws = try_named_rows_Some [OF named(2)]
    have "map Some (out ! i) = map (named_value X st (qr_columns q) (qr_rows q ! i)) [0..<length (si_fields st)]"
      if "i < length (qr_rows q)" for i
      using rws that decode_named_iff [OF named(1), of X "qr_rows q ! i" None "out ! i"] by simp
    then show ?thesis unfolding Let_def using rws by (intro conjI disjI1 allI impI) simp_all
  next
    case pos
    note rws = map_rows_loop_Inr [OF pos [unfolded map_all_reflect_positional_def]]
    have "map Some (out ! i) = map (positional_value X st (qr_rows q ! i)) [0..<length (si_fields st)]"
      if "i < length (qr_rows q)" for i
      using rws that map_row_positional_iff [of X st q i "Some []" "out ! i"] by simp
    then show ?thesis unfolding Let_def using rws by (intro conjI disjI2 allI impI) simp_all
  qed simp
qed

text \<open>C31: a successful typed query returns one object per row, all of them mapped by column name or all
  of them by position, never a mixture; a failed one returns the error of the result.\<close>

theorem typed_rows_all_or_nothing:
  "case AsExpectedRows X st q of
     Inl what \<Rightarrow> qr_ok q
   | Inr (Inl e) \<Rightarrow> \<not> qr_ok q \<and> e = to_op_error q
   | Inr (Inr out) \<Rightarrow> qr_ok q \<and> length out = length (qr_rows q)
       \<and> (let n = length (si_fields st) in
          (\<forall>i. i < length (qr_rows q) \<longrightarrow> map Some (out ! i) = map (named_value X st (qr_columns q) (qr_rows q ! i)) [0..<n])
          \<or> (\<forall>i. i < length (qr_rows q) \<longrightarrow> map Some (out ! i) = map (positional_value X st (qr_rows q ! i)) [0..<n]))"
proof (cases "qr_ok q")
  case False
  then show ?thesis by (simp add: AsExpectedRows_def)
next
  case True
  show ?thesis
  proof (cases "map_rows_named_or_positional X st q")
    case (Inl what)
    with True show ?thesis by (simp add: AsExpectedRows_def)
  next
    case (Inr out)
    with True have "AsExpectedRows X st q = Inr (Inr out)" by (simp add: AsExpectedRows_def)
    then show ?thesis using rows_uniform [OF Inr] True by simp
  qed
qed

text \<open>Arrays of integers and of texts written as parameters are decoded to the same vectors when they
  are not empty; the empty array is decoded to a vector with one empty text, and is rejected for a
  vector of integers.\<close>

theorem array_param_decodes:
  assumes "list_all (int_in_range sgnd w) vs"
  shows "decoder X (TVector (TInt sgnd w)) (build_pg_text_array_literal_any P (map (\<lambda>v. Some (EInt ll v)) vs))
           = (if vs = [] then None else Some (VVec (map VInt vs)))
       \<and> decoder X (TVector TString) (build_pg_text_array_literal_any P (map (\<lambda>s. Some (EStr s)) ss))
           = Some (VVec (map VStr (if ss = [] then [[]] else ss)))"
proof -
  have empty: "split_pg_array_items (build_pg_text_array_literal_any P []) = [[]]"
    by (simp add: build_pg_text_array_literal_any_def split_pg_array_items_def split_loop.simps)
  have ints: "decoder X (TVector (TInt sgnd w)) (build_pg_text_array_literal_any P (map (\<lambda>v. Some (EInt ll v)) vs))
      = Some (VVec (map VInt vs))" if "vs \<noteq> []"
  proof -
    have "split_pg_array_items (build_pg_text_array_literal_any P (map (\<lambda>v. Some (EInt ll v)) vs)) = map show_int vs"
      using that by (simp add: build_pg_text_array_literal_any_def comp_def split_join [simplified] list_all_iff
          item_ok_def plain_show_int)
    moreover have "decode_items X (TInt sgnd w) (map show_int vs) = Some (map VInt vs)" (is "?d = _")
    proof -
      have "decode_items X (TInt sgnd w) (map show_int us) = Some (map VInt us)"
        if "list_all (int_in_range sgnd w) us" for us
        using that by (induction us)
          (auto simp: parse_plain_elem plain_show_int show_int_not_NULL from_chars_show_int)
      then show ?thesis using assms .
    qed
    ultimately show ?thesis using that by (simp add: decode_vector_def)
  qed
  have texts: "decoder X (TVector TString) (build_pg_text_array_literal_any P (map (\<lambda>s. Some (EStr s)) ss))
      = Some (VVec (map VStr ss))" if "ss \<noteq> []"
  proof -
    have "split_pg_array_items (build_pg_text_array_literal_any P (map (\<lambda>s. Some (EStr s)) ss))
        = map pg_array_escape_elem ss"
    proof -
      have "list_all item_ok (map pg_array_escape_elem ss)" by (auto simp: list_all_iff item_ok_def)
      with that show ?thesis
        by (simp add: build_pg_text_array_literal_any_def comp_def split_join [simplified])
    qed
    moreover have "decode_items X TString (map pg_array_escape_elem us) = Some (map VStr us)" for us
      by (induction us) auto
    ultimately show ?thesis using that by (simp add: decode_vector_def)
  qed
  have "decode_vector X (TInt sgnd w) (build_pg_text_array_literal_any P []) = None"
    "decode_vector X TString (build_pg_text_array_literal_any P []) = Some (VVec [VStr []])"
    by (simp_all add: decode_vector_def empty parse_pg_text_elt_def from_chars_all_def)
  with ints texts show ?thesis by (cases "vs = []"; cases "ss = []") simp_all
qed

text \<open>Conversions in which floating-point numbers, JSON and user types are texts.\<close>

definition text_externs :: "string externs" where
  "text_externs = \<lparr>x_strtod = (\<lambda>_. Some), x_from_chars = (\<lambda>_. Some), x_json = (\<lambda>_. Inr),
     x_istream = Some, x_zero = []\<rparr>"

theorem array_param_decodes_witness:
  "decoder text_externs (TVector (TInt True 32))
       (build_pg_text_array_literal_any \<lparr>p_to_string_ld = id, p_to_chars = id, p_ostream = id\<rparr>
          [Some (EInt False (- 7)), Some (EInt False 12)])
     = Some (VVec [VInt (- 7), VInt 12])"
  using array_param_decodes [of True 32 "[- 7, 12]" text_externs
      "\<lparr>p_to_string_ld = id, p_to_chars = id, p_ostream = id\<rparr>" False "[]"]
  by (simp add: int_in_range_def)

text \<open>The two decoders of a SQL NULL, which a row stores as the empty text, disagree: the mapping to
  objects gives an empty \<^verbatim>\<open>optional\<close> for every type, but \<^verbatim>\<open>Row::get\<close> and \<^verbatim>\<open>QueryResult::get\<close> give an
  engaged \<^verbatim>\<open>optional\<close> of the empty text, or an error for numbers, and only the text "NULL" gives an
  empty \<^verbatim>\<open>optional\<close>.\<close>

theorem null_cell_decoders_disagree:
  "decoder X (TOptional t) [] = Some (VOpt None)
   \<and> parse_cell X (TOptional TString) [] = Inr (VOpt (Some (VStr [])))
   \<and> parse_cell X (TOptional (TInt sgnd w)) []
       = Inl (op_error ProtocolCorrupt ''failed to parse integer'')
   \<and> parse_cell X (TOptional t) ''NULL'' = Inr (VOpt None)"
  by (simp add: from_chars_all_def)

text \<open>A result with the columns of a two-member aggregate in the other order.\<close>

definition sample_struct :: struct_info where
  "sample_struct = \<lparr>si_aggregate = True,
     si_fields = [\<lparr>fi_name = ''user_name'', fi_type = TString, fi_type_name = ''string''\<rparr>,
                  \<lparr>fi_name = ''id'', fi_type = TInt True 32, fi_type_name = ''int''\<rparr>]\<rparr>"

definition sample_result :: QueryResult where
  "sample_result = empty_result\<lparr>qr_ok := True, qr_code := OK, qr_columns := [''ID'', ''User_Name''],
     qr_rows := [\<lparr>cols = [''7'', ''ann'']\<rparr>]\<rparr>"

theorem typed_rows_all_or_nothing_witness:
  "AsExpectedRows text_externs sample_struct sample_result = Inr (Inr [[VStr ''ann'', VInt 7]])
   \<and> length [[VStr ''ann'', VInt 7 :: string cpp_val]] = length (qr_rows sample_result)"
proof -
  have "AsExpectedRows text_externs sample_struct sample_result = Inr (Inr [[VStr ''ann'', VInt 7]])"
    by code_simp
  with typed_rows_all_or_nothing [where X = text_externs and st = sample_struct and q = sample_result]
  show ?thesis by simp
qed

end
