(* ===== verification/Pg_Json.thy ===== *)
theory Pg_Json
  imports Pg_Params Pg_Reflect
begin

text \<open>
  The JSON codec (PgJsonCodec.h): which backend the macros select, the three built-in backends around their libraries, and
  the entry points \<^verbatim>\<open>dump\<close> and \<^verbatim>\<open>parse\<close> with the per-type override. The libraries are the fields of a record; the codec of
  a type is what the parameter encoder (\<open>dump\<close>) and the decoder of cells (\<open>x_json\<close>) are given.
\<close>

section \<open>Backends\<close>

datatype backend_id = CustomBackend | Ujson | Glaze | Nlohmann

text \<open>The macros \<^verbatim>\<open>UPQ_JSON_BACKEND_CUSTOM\<close>, \<^verbatim>\<open>_GLAZE\<close> and \<^verbatim>\<open>_NLOHMANN\<close>, defined or not.\<close>

definition select_backend :: "bool \<Rightarrow> bool \<Rightarrow> bool \<Rightarrow> backend_id" where
  "select_backend custom glaze nlohmann =
     (if custom then CustomBackend else if glaze then Glaze else if nlohmann then Nlohmann else Ujson)"

text \<open>
  The libraries, for one type of values \<open>'x\<close>. A parse error of ujson is a message or a null pointer; \<open>glz_write_json\<close> is
  what the buffer holds and whether an error is reported; \<open>glz_read\<close> ends with the formatted error; the calls of
  nlohmann end with a value or the \<^verbatim>\<open>what()\<close> of an exception.
\<close>

record 'x json_libs =
  ujson_dump :: "'x \<Rightarrow> string"
  ujson_try_parse :: "bool \<Rightarrow> string \<Rightarrow> string option + 'x"
  glz_write_json :: "'x \<Rightarrow> string \<times> bool"
  glz_read :: "bool \<Rightarrow> string \<Rightarrow> string + 'x"
  nlohmann_dump :: "'x \<Rightarrow> string + string"
  nlohmann_parse_get :: "string \<Rightarrow> string + 'x"
  custom_backend_dump :: "'x \<Rightarrow> string"
  custom_backend_parse :: "bool \<Rightarrow> string \<Rightarrow> string + 'x"

definition ujson_parse :: "'x json_libs \<Rightarrow> bool \<Rightarrow> string \<Rightarrow> string + 'x" where
  "ujson_parse J strict sv =
     (case ujson_try_parse J strict sv of
        Inr v \<Rightarrow> Inr v
      | Inl msg \<Rightarrow> Inl (''ujson parse failed: '' @ (case msg of Some m \<Rightarrow> m | None \<Rightarrow> ''<null>'')))"

definition glaze_dump :: "'x json_libs \<Rightarrow> 'x \<Rightarrow> string" where
  "glaze_dump J v = fst (glz_write_json J v)"

definition glaze_parse :: "'x json_libs \<Rightarrow> bool \<Rightarrow> string \<Rightarrow> string + 'x" where
  "glaze_parse J strict sv = (case glz_read J strict sv of Inr v \<Rightarrow> Inr v | Inl e \<Rightarrow> Inl (''glaze parse failed: '' @ e))"

definition nlohmann_parse :: "'x json_libs \<Rightarrow> bool \<Rightarrow> string \<Rightarrow> string + 'x" where
  "nlohmann_parse J strict sv = (case nlohmann_parse_get J sv of Inr v \<Rightarrow> Inr v | Inl e \<Rightarrow> Inl (''nlohmann parse failed: '' @ e))"

text \<open>\<^verbatim>\<open>backend::dump\<close> and \<^verbatim>\<open>backend::parse\<close>; \<open>Inl\<close> of the former is an exception that leaves it.\<close>

definition backend_dump :: "'x json_libs \<Rightarrow> backend_id \<Rightarrow> 'x \<Rightarrow> string + string" where
  "backend_dump J b v =
     (case b of
        CustomBackend \<Rightarrow> Inr (custom_backend_dump J v)
      | Ujson \<Rightarrow> Inr (ujson_dump J v)
      | Glaze \<Rightarrow> Inr (glaze_dump J v)
      | Nlohmann \<Rightarrow> nlohmann_dump J v)"

definition backend_parse :: "'x json_libs \<Rightarrow> backend_id \<Rightarrow> bool \<Rightarrow> string \<Rightarrow> string + 'x" where
  "backend_parse J b strict sv =
     (case b of
        CustomBackend \<Rightarrow> custom_backend_parse J strict sv
      | Ujson \<Rightarrow> ujson_parse J strict sv
      | Glaze \<Rightarrow> glaze_parse J strict sv
      | Nlohmann \<Rightarrow> nlohmann_parse J strict sv)"

section \<open>Entry points\<close>

text \<open>\<^verbatim>\<open>custom_codec<T>\<close>, when the type has one, wins over the backend.\<close>

record 'x custom_codec =
  cx_dump :: "'x \<Rightarrow> string"
  cx_parse :: "string \<Rightarrow> bool \<Rightarrow> string + 'x"

definition json_dump :: "'x json_libs \<Rightarrow> backend_id \<Rightarrow> 'x custom_codec option \<Rightarrow> 'x \<Rightarrow> string + string" where
  "json_dump J b ov v = (case ov of Some c \<Rightarrow> Inr (cx_dump c v) | None \<Rightarrow> backend_dump J b v)"

definition json_parse :: "'x json_libs \<Rightarrow> backend_id \<Rightarrow> 'x custom_codec option \<Rightarrow> bool \<Rightarrow> string \<Rightarrow> string + 'x" where
  "json_parse J b ov strict sv = (case ov of Some c \<Rightarrow> cx_parse c sv strict | None \<Rightarrow> backend_parse J b strict sv)"

section \<open>Properties\<close>

text \<open>
  What the libraries document: what they write they read back, also from the text \<open>canon t\<close> into which the server turns a
  JSON text \<open>t\<close> it stores, which is never empty; writing does not fail.
\<close>

definition reads_back :: "(string \<Rightarrow> string) \<Rightarrow> 'x json_libs \<Rightarrow> backend_id \<Rightarrow> 'x custom_codec option \<Rightarrow> bool \<Rightarrow> 'x \<Rightarrow> bool" where
  "reads_back canon J b ov strict v =
     (case ov of
        Some c \<Rightarrow> cx_parse c (canon (cx_dump c v)) strict = Inr v
      | None \<Rightarrow>
          (case b of
             CustomBackend \<Rightarrow> custom_backend_parse J strict (canon (custom_backend_dump J v)) = Inr v
           | Ujson \<Rightarrow> ujson_try_parse J strict (canon (ujson_dump J v)) = Inr v
           | Glaze \<Rightarrow> snd (glz_write_json J v) = False \<and> glz_read J strict (canon (fst (glz_write_json J v))) = Inr v
           | Nlohmann \<Rightarrow> (\<exists>t. nlohmann_dump J v = Inr t \<and> nlohmann_parse_get J (canon t) = Inr v)))"

lemma json_reads_back:
  "reads_back canon J b ov strict v \<Longrightarrow> \<exists>t. json_dump J b ov v = Inr t \<and> json_parse J b ov strict (canon t) = Inr v"
  by (auto simp: reads_back_def json_dump_def json_parse_def backend_dump_def backend_parse_def ujson_parse_def glaze_parse_def
      glaze_dump_def nlohmann_parse_def split: option.splits backend_id.splits)

text \<open>The text a value is sent as, when its dump does not throw.\<close>

definition json_text :: "'x json_libs \<Rightarrow> backend_id \<Rightarrow> 'x custom_codec option \<Rightarrow> 'x \<Rightarrow> string" where
  "json_text J b ov v = (case json_dump J b ov v of Inr t \<Rightarrow> t | Inl _ \<Rightarrow> [])"

text \<open>A value sent as a \<^verbatim>\<open>json\<close> or \<^verbatim>\<open>jsonb\<close> parameter and read back from the column the server stores it in is the same value,
  with every backend and with a per-type override, when the library reads back what it wrote: the parameter is one text
  slot with the object id of the type, and the decoder of a JSON cell gives the value.\<close>

theorem json_param_roundtrip:
  assumes "reads_back canon J b ov strict v" "canon (json_text J b ov v) \<noteq> []"
  shows "\<exists>t. json_dump J b ov v = Inr t
    \<and> send_query_params le P (json_text J b ov) [PJsonParam jsonb (Some v)]
      = Some (1, [\<lparr>sl_value = Some (bytes_of_string t), sl_length = to_int (length t), sl_format = 0,
                   sl_type = (if jsonb then 3802 else 114)\<rparr>])
    \<and> decoder (X\<lparr>x_json := json_parse J b ov\<rparr>) (TJson strict) (canon t) = Some (VJson v)"
proof -
  obtain t where t: "json_dump J b ov v = Inr t" "json_parse J b ov strict (canon t) = Inr v"
    using json_reads_back [OF assms(1)] by blast
  with assms(2) show ?thesis
    by (simp add: json_text_def send_query_params_def new_slices_def count_total_params_def set_text_typed_def put_next_def)
qed

definition text_libs :: "string json_libs" where
  "text_libs = \<lparr>ujson_dump = (\<lambda>s. s), ujson_try_parse = (\<lambda>_ s. if s = [] then Inl None else Inr s), glz_write_json = (\<lambda>s. (s, s = [])),
     glz_read = (\<lambda>_. Inr), nlohmann_dump = Inr, nlohmann_parse_get = Inr, custom_backend_dump = (\<lambda>s. s),
     custom_backend_parse = (\<lambda>_. Inr)\<rparr>"

theorem json_param_roundtrip_witness:
  "decoder (text_externs\<lparr>x_json := json_parse text_libs Ujson None\<rparr>) (TJson True) ''[1]'' = Some (VJson ''[1]'')"
  using json_param_roundtrip [where canon = "\<lambda>t. t" and J = text_libs and b = Ujson and ov = None and strict = True and v = "''[1]''"
      and X = text_externs and le = True and P = text_printers and jsonb = True]
  by (auto simp: reads_back_def text_libs_def json_text_def json_dump_def backend_dump_def)

text \<open>
  The exceptions: the glaze backend sends whatever its buffer holds when writing fails, and the nlohmann backend does not
  distinguish strict from lenient parsing.
\<close>

lemma glaze_write_error_ignored:
  assumes "glz_write_json J v = (t, True)"
  shows "json_dump J Glaze None v = Inr t"
  using assms by (simp add: json_dump_def backend_dump_def glaze_dump_def)

lemma nlohmann_never_strict: "json_parse J Nlohmann None strict sv = json_parse J Nlohmann None False sv"
  by (simp add: json_parse_def backend_parse_def nlohmann_parse_def)

end
