(* ===== verification/Pg_Result.thy ===== *)
theory Pg_Result
  imports Pg_Wire
begin

text \<open>
  What the connection layer does with one libpq result (first part of \<^verbatim>\<open>PgConnection.cpp\<close>): the
  fields of a server error, affected rows, appended rows, and how the results of a
  multi-statement query are folded into one \<^verbatim>\<open>QueryResult\<close>.

  A \<^verbatim>\<open>PGresult\<close> is the record \<open>pg_result\<close> of what libpq's accessors return for it; a null
  \<^verbatim>\<open>const char *\<close> is \<open>None\<close>, and a tuple has one entry per field, \<open>None\<close> for NULL.
\<close>

section \<open>Results of libpq\<close>

datatype ExecStatus =
    PGRES_EMPTY_QUERY | PGRES_COMMAND_OK | PGRES_TUPLES_OK | PGRES_COPY_OUT | PGRES_COPY_IN
  | PGRES_BAD_RESPONSE | PGRES_NONFATAL_ERROR | PGRES_FATAL_ERROR | PGRES_COPY_BOTH
  | PGRES_SINGLE_TUPLE | PGRES_PIPELINE

record pg_result =
  rs_status :: ExecStatus
  rs_sqlstate :: "string option"
  rs_primary :: "string option"
  rs_detail :: "string option"
  rs_hint :: "string option"
  rs_error_message :: "string option"
  rs_cmd_tuples :: "string option"
  rs_cmd_status :: "string option"
  rs_fnames :: "string option list"
  rs_tuples :: "string option list list"

definition nonempty_cstr :: "string option \<Rightarrow> bool" where
  "nonempty_cstr p \<longleftrightarrow> (case p of None \<Rightarrow> False | Some s \<Rightarrow> s \<noteq> [])"

section \<open>Server errors\<close>

text \<open>\<^verbatim>\<open>fill_server_error_fields\<close> for a non-null result.\<close>

definition fill_server_error_fields :: "pg_result \<Rightarrow> QueryResult \<Rightarrow> QueryResult" where
  "fill_server_error_fields res out =
     (let err = (if nonempty_cstr (rs_primary res) then the (rs_primary res)
                 else if nonempty_cstr (rs_error_message res) then the (rs_error_message res)
                 else qr_error out);
          d = qr_err_detail out;
          d = (case rs_sqlstate res of Some s \<Rightarrow> d\<lparr>ed_sqlstate := s\<rparr> | None \<Rightarrow> d);
          d = (case rs_detail res of Some s \<Rightarrow> d\<lparr>ed_detail := s\<rparr> | None \<Rightarrow> d);
          d = (case rs_hint res of Some s \<Rightarrow> d\<lparr>ed_hint := s\<rparr> | None \<Rightarrow> d);
          d = (if nonempty_cstr (rs_primary res) then d\<lparr>ed_message := the (rs_primary res)\<rparr>
               else if err \<noteq> [] then d\<lparr>ed_message := err\<rparr> else d);
          d = d\<lparr>ed_category := classify_sqlstate (ed_sqlstate d)\<rparr>
      in out\<lparr>qr_error := err, qr_err_detail := d, qr_ok := False, qr_code := ServerError,
             qr_rows_valid := False\<rparr>)"

text \<open>\<^verbatim>\<open>std::strtoull(s, nullptr, 10)\<close>: blanks, a sign, digits; saturating.\<close>

definition strtoull :: "string \<Rightarrow> u64" where
  "strtoull s =
     (let t = dropWhile is_space s;
          neg = (t \<noteq> [] \<and> hd t = CHR ''-'');
          u = (if t \<noteq> [] \<and> (hd t = CHR ''-'' \<or> hd t = CHR ''+'') then tl t else t);
          v = digits_val (takeWhile is_digit u)
      in if v \<ge> 2 ^ 64 then - 1 else if neg then - word_of_nat v else word_of_nat v)"

definition trailing_digits :: "string \<Rightarrow> string" where
  "trailing_digits tag = rev (takeWhile is_digit (dropWhile is_space (rev tag)))"

definition extract_rows_affected :: "pg_result \<Rightarrow> u64" where
  "extract_rows_affected res =
     (if nonempty_cstr (rs_cmd_tuples res) then strtoull (the (rs_cmd_tuples res))
      else if nonempty_cstr (rs_cmd_status res)
      then (let ds = trailing_digits (the (rs_cmd_status res))
            in if ds \<noteq> [] then strtoull ds else 0)
      else 0)"

definition fill_copy_error :: "pg_result \<Rightarrow> PgCopyResult \<Rightarrow> PgCopyResult" where
  "fill_copy_error res out =
     (let tmp = fill_server_error_fields res empty_result;
          d = qr_err_detail tmp;
          e = qr_error tmp;
          e = (if ed_sqlstate d = [] then e else e @ '' [SQLSTATE '' @ ed_sqlstate d @ '']'');
          e = (if ed_detail d = [] then e else e @ '' detail: '' @ ed_detail d);
          e = (if ed_hint d = [] then e else e @ '' hint: '' @ ed_hint d)
      in out\<lparr>cr_ok := False, cr_code := ServerError, cr_error := e, cr_err_detail := d\<rparr>)"

section \<open>Rows\<close>

definition cell_of :: "string option \<Rightarrow> string" where
  "cell_of v = (case v of None \<Rightarrow> [] | Some s \<Rightarrow> s)"

definition result_rows :: "pg_result \<Rightarrow> Row list" where
  "result_rows res = map (\<lambda>t. \<lparr>cols = map cell_of t\<rparr>) (rs_tuples res)"

definition append_rows :: "pg_result \<Rightarrow> QueryResult \<Rightarrow> QueryResult" where
  "append_rows res out =
     out\<lparr>qr_columns := (if qr_columns out = [] then map cell_of (rs_fnames res) else qr_columns out),
         qr_rows := qr_rows out @ result_rows res\<rparr>"

text \<open>\<^verbatim>\<open>absorb_result\<close>: whether collection must stop, and the result so far.\<close>

definition absorb_result :: "pg_result \<Rightarrow> QueryResult \<Rightarrow> bool \<times> QueryResult" where
  "absorb_result res out =
     (case rs_status res of
        PGRES_TUPLES_OK \<Rightarrow>
          (False, if qr_ok out
                  then (append_rows res out)\<lparr>qr_rows_affected := qr_rows_affected out
                          + word_of_nat (length (rs_tuples res))\<rparr> else out)
      | PGRES_SINGLE_TUPLE \<Rightarrow>
          (False, if qr_ok out
                  then (append_rows res out)\<lparr>qr_rows_affected := qr_rows_affected out
                          + word_of_nat (length (rs_tuples res))\<rparr> else out)
      | PGRES_COMMAND_OK \<Rightarrow>
          (False, if qr_ok out
                  then out\<lparr>qr_rows_affected := qr_rows_affected out + extract_rows_affected res\<rparr>
                  else out)
      | PGRES_COPY_IN \<Rightarrow>
          (True, empty_result\<lparr>qr_ok := False, qr_code := ProtocolCorrupt,
                   qr_error := ''COPY cannot run through a query API; use copy_*'',
                   qr_rows_valid := False\<rparr>)
      | PGRES_COPY_OUT \<Rightarrow>
          (True, empty_result\<lparr>qr_ok := False, qr_code := ProtocolCorrupt,
                   qr_error := ''COPY cannot run through a query API; use copy_*'',
                   qr_rows_valid := False\<rparr>)
      | PGRES_COPY_BOTH \<Rightarrow>
          (True, empty_result\<lparr>qr_ok := False, qr_code := ProtocolCorrupt,
                   qr_error := ''COPY cannot run through a query API; use copy_*'',
                   qr_rows_valid := False\<rparr>)
      | _ \<Rightarrow> (False, fill_server_error_fields res empty_result))"

section \<open>Facts\<close>

text \<open>
  What every query API promises of the result it returns: the flag and the code agree, and a
  failed result carries no rows.
\<close>

definition result_wf :: "QueryResult \<Rightarrow> bool" where
  "result_wf q \<longleftrightarrow> (qr_ok q \<longleftrightarrow> qr_code q = OK) \<and> (qr_ok q \<longrightarrow> qr_rows_valid q)
     \<and> (\<not> qr_ok q \<longrightarrow> qr_rows q = [] \<and> qr_columns q = [] \<and> \<not> qr_rows_valid q)"

definition fresh_result :: QueryResult where
  "fresh_result = empty_result\<lparr>qr_ok := True, qr_code := OK\<rparr>"

definition is_rows_status :: "ExecStatus \<Rightarrow> bool" where
  "is_rows_status s \<longleftrightarrow> s = PGRES_TUPLES_OK \<or> s = PGRES_SINGLE_TUPLE"

definition is_copy_status :: "ExecStatus \<Rightarrow> bool" where
  "is_copy_status s \<longleftrightarrow> s = PGRES_COPY_IN \<or> s = PGRES_COPY_OUT \<or> s = PGRES_COPY_BOTH"

definition is_error_status :: "ExecStatus \<Rightarrow> bool" where
  "is_error_status s \<longleftrightarrow> \<not> is_rows_status s \<and> \<not> is_copy_status s \<and> s \<noteq> PGRES_COMMAND_OK"

lemma fill_server_error_wf: "result_wf (fill_server_error_fields res empty_result)"
  by (simp add: result_wf_def fill_server_error_fields_def empty_result_def Let_def)

lemma fresh_wf: "result_wf fresh_result"
  by (simp add: result_wf_def fresh_result_def empty_result_def)

lemma absorb_wf: "result_wf out \<Longrightarrow> result_wf (snd (absorb_result res out))"
  using fill_server_error_wf [of res]
  by (auto simp: absorb_result_def append_rows_def empty_result_def split: ExecStatus.split)
     (auto simp: result_wf_def)

lemma absorb_stop: "fst (absorb_result res out) = is_copy_status (rs_status res)"
  by (simp add: absorb_result_def is_copy_status_def split: ExecStatus.split)

text \<open>The results of one statement, in the order they arrive.\<close>

fun absorb_all :: "pg_result list \<Rightarrow> QueryResult \<Rightarrow> QueryResult" where
  "absorb_all [] out = out"
| "absorb_all (r # rs) out =
     (case absorb_result r out of (stop, out') \<Rightarrow> if stop then out' else absorb_all rs out')"

lemma absorb_all_wf: "result_wf out \<Longrightarrow> result_wf (absorb_all rs out)"
  using absorb_wf by (induction rs arbitrary: out) (auto split: prod.split, metis snd_conv, metis snd_conv)

text \<open>Rows affected by one successful result.\<close>

definition affected :: "pg_result \<Rightarrow> u64" where
  "affected r = (if rs_status r = PGRES_COMMAND_OK then extract_rows_affected r
                 else word_of_nat (length (rs_tuples r)))"

definition row_results :: "pg_result list \<Rightarrow> pg_result list" where
  "row_results rs = filter (\<lambda>r. is_rows_status (rs_status r)) rs"

lemma absorb_all_ok:
  assumes "list_all (\<lambda>r. is_rows_status (rs_status r) \<or> rs_status r = PGRES_COMMAND_OK) rs"
    and "qr_ok out"
  shows "qr_ok (absorb_all rs out) \<and> qr_code (absorb_all rs out) = qr_code out
    \<and> qr_rows (absorb_all rs out) = qr_rows out @ concat (map result_rows (row_results rs))
    \<and> qr_rows_affected (absorb_all rs out) = qr_rows_affected out + sum_list (map affected rs)"
  using assms
proof (induction rs arbitrary: out)
  case Nil
  then show ?case by (simp add: row_results_def)
next
  case (Cons r rs)
  let ?o = "snd (absorb_result r out)"
  have st: "fst (absorb_result r out) = False"
    using Cons.prems by (auto simp: absorb_stop is_copy_status_def is_rows_status_def)
  then have step: "absorb_all (r # rs) out = absorb_all rs ?o" by (simp add: case_prod_unfold)
  have o: "qr_ok ?o" "qr_code ?o = qr_code out"
    "qr_rows ?o = qr_rows out @ (if is_rows_status (rs_status r) then result_rows r else [])"
    "qr_rows_affected ?o = qr_rows_affected out + affected r"
    using Cons.prems
    by (auto simp: absorb_result_def append_rows_def is_rows_status_def affected_def
        split: ExecStatus.splits)
  have "list_all (\<lambda>r. is_rows_status (rs_status r) \<or> rs_status r = PGRES_COMMAND_OK) rs"
    using Cons.prems(1) by simp
  from Cons.IH [OF this o(1)] show ?case
    unfolding step using o by (simp add: row_results_def)
qed

lemma absorb_all_after_error:
  assumes "list_all (\<lambda>r. \<not> is_copy_status (rs_status r) \<and> \<not> is_error_status (rs_status r)) rs" "\<not> qr_ok out"
  shows "absorb_all rs out = out"
  using assms
proof (induction rs)
  case (Cons r rs)
  have "absorb_result r out = (False, out)"
    using Cons.prems
    by (auto simp: absorb_result_def is_error_status_def is_copy_status_def is_rows_status_def
        split: ExecStatus.split)
  with Cons show ?case by simp
qed simp

lemma absorb_all_append:
  "list_all (\<lambda>r. \<not> is_copy_status (rs_status r)) rs \<Longrightarrow>
     absorb_all (rs @ ss) out = absorb_all ss (absorb_all rs out)"
proof (induction rs arbitrary: out)
  case (Cons r rs)
  have "fst (absorb_result r out) = False" using Cons.prems by (simp add: absorb_stop)
  with Cons show ?case by (simp add: case_prod_unfold)
qed simp

section \<open>Properties\<close>

text \<open>A multi-statement query is folded as the server ran it: without an error the rows of all row
  sets follow each other in order and the affected rows add up; with an error everything gathered
  before it is discarded and the result is exactly the last error, without rows.\<close>

theorem absorb_multi_statement:
  assumes "list_all (\<lambda>r. is_rows_status (rs_status r) \<or> rs_status r = PGRES_COMMAND_OK) ss"
    and "list_all (\<lambda>r. \<not> is_copy_status (rs_status r)) es" "is_error_status (rs_status e)"
  shows "qr_ok (absorb_all ss fresh_result)
    \<and> qr_rows (absorb_all ss fresh_result) = concat (map result_rows (row_results ss))
    \<and> qr_rows_affected (absorb_all ss fresh_result) = sum_list (map affected ss)
    \<and> absorb_all (es @ e # ss) fresh_result = fill_server_error_fields e empty_result"
proof -
  have "absorb_result e out = (False, fill_server_error_fields e empty_result)" for out
    using assms(3)
    by (simp add: absorb_result_def is_error_status_def is_rows_status_def is_copy_status_def
        split: ExecStatus.split)
  moreover have "\<not> qr_ok (fill_server_error_fields e empty_result)"
    by (simp add: fill_server_error_fields_def Let_def)
  moreover have "list_all (\<lambda>r. \<not> is_copy_status (rs_status r) \<and> \<not> is_error_status (rs_status r)) ss"
    using assms(1) by (fastforce simp: list_all_iff is_rows_status_def is_copy_status_def is_error_status_def)
  ultimately have "absorb_all (e # ss) out = fill_server_error_fields e empty_result" for out
    by (simp add: absorb_all_after_error)
  then show ?thesis
    using absorb_all_ok [OF assms(1), of fresh_result] absorb_all_append [OF assms(2)]
    by (simp add: fresh_result_def empty_result_def)
qed

definition sample_pg_result :: "ExecStatus \<Rightarrow> pg_result" where
  "sample_pg_result st = \<lparr>rs_status = st, rs_sqlstate = None, rs_primary = Some ''division by zero'',
     rs_detail = None, rs_hint = None, rs_error_message = None, rs_cmd_tuples = Some ''2'',
     rs_cmd_status = None, rs_fnames = [Some ''a''], rs_tuples = [[Some ''1''], [None]]\<rparr>"

theorem absorb_multi_statement_witness:
  "qr_rows (absorb_all [sample_pg_result PGRES_COMMAND_OK, sample_pg_result PGRES_TUPLES_OK] fresh_result)
     = [\<lparr>cols = [''1'']\<rparr>, \<lparr>cols = [[]]\<rparr>]
   \<and> absorb_all [sample_pg_result PGRES_TUPLES_OK, sample_pg_result PGRES_FATAL_ERROR,
        sample_pg_result PGRES_COMMAND_OK, sample_pg_result PGRES_TUPLES_OK] fresh_result
     = fill_server_error_fields (sample_pg_result PGRES_FATAL_ERROR) empty_result"
  using absorb_multi_statement [of "[sample_pg_result PGRES_COMMAND_OK, sample_pg_result PGRES_TUPLES_OK]"
      "[sample_pg_result PGRES_TUPLES_OK]" "sample_pg_result PGRES_FATAL_ERROR"]
  by (simp add: sample_pg_result_def is_rows_status_def is_copy_status_def is_error_status_def
      row_results_def result_rows_def cell_of_def)

end
