(* ===== verification/Pg_Conn.thy ===== *)
theory Pg_Conn
  imports Pg_Result Pg_Retry Pg_Text
begin

text \<open>
  One connection (\<^verbatim>\<open>PgConnectionLibpq\<close>): its state, the non-blocking steps of a round trip, and
  \<^verbatim>\<open>run_query\<close>, the coroutine behind every statement API, with the statements built on it (cursors,
  snapshots).

  libpq is not code of this repository: its functions are the fields of \<open>libpq\<close>, over an
  unspecified state \<open>'c\<close> of a \<^verbatim>\<open>PGconn\<close>. A coroutine that awaits socket readiness is resumed by the
  event loop; what happens at one such await (bytes that arrived, the watchdog's deadline, a
  cancellation) is a \<open>wake\<close>, and an execution takes the list of the wakes to come. When it is used
  up the coroutine is \<open>Parked\<close>; \<open>Stuck\<close> is a loop inside libpq's contract that never ends.
\<close>

section \<open>libpq\<close>

record 'c libpq =
  pq_status_ok :: "'c \<Rightarrow> bool"                    \<comment> \<open>\<^verbatim>\<open>PQstatus == CONNECTION_OK\<close>\<close>
  pq_trans_idle :: "'c \<Rightarrow> bool"                   \<comment> \<open>\<^verbatim>\<open>PQtransactionStatus == PQTRANS_IDLE\<close>\<close>
  pq_trans_inerror :: "'c \<Rightarrow> bool"                \<comment> \<open>\<^verbatim>\<open>PQtransactionStatus == PQTRANS_INERROR\<close>\<close>
  pq_busy :: "'c \<Rightarrow> bool"                         \<comment> \<open>\<^verbatim>\<open>PQisBusy\<close>\<close>
  pq_error :: "'c \<Rightarrow> string"                      \<comment> \<open>\<^verbatim>\<open>PQerrorMessage\<close>\<close>
  pq_socket :: "'c \<Rightarrow> int"                        \<comment> \<open>\<^verbatim>\<open>PQsocket\<close>\<close>
  pq_flush :: "'c \<Rightarrow> int \<times> 'c"                    \<comment> \<open>\<^verbatim>\<open>PQflush\<close>\<close>
  pq_consume_input :: "'c \<Rightarrow> bool \<times> 'c"           \<comment> \<open>\<^verbatim>\<open>PQconsumeInput != 0\<close>\<close>
  pq_get_result :: "'c \<Rightarrow> pg_result option \<times> 'c"  \<comment> \<open>\<^verbatim>\<open>PQgetResult\<close>\<close>
  pq_send_query :: "string \<Rightarrow> 'c \<Rightarrow> bool \<times> 'c"    \<comment> \<open>\<^verbatim>\<open>PQsendQuery != 0\<close>\<close>
  pq_put_copy_data :: "bytes \<Rightarrow> int \<Rightarrow> 'c \<Rightarrow> int \<times> 'c" \<comment> \<open>\<^verbatim>\<open>PQputCopyData(data, len)\<close>\<close>
  pq_put_copy_end :: "string option \<Rightarrow> 'c \<Rightarrow> int \<times> 'c"  \<comment> \<open>\<^verbatim>\<open>PQputCopyEnd(errormsg)\<close>\<close>
  pq_get_copy_data :: "'c \<Rightarrow> int \<times> bytes \<times> 'c"    \<comment> \<open>\<^verbatim>\<open>PQgetCopyData(async = 1)\<close>\<close>
  pq_peek :: "'c \<Rightarrow> int \<times> bool"                   \<comment> \<open>\<^verbatim>\<open>recv(MSG_PEEK | MSG_DONTWAIT)\<close>: count, would block?\<close>

record 'c conn =
  cn_pq :: "'c option"            \<comment> \<open>\<^verbatim>\<open>conn_\<close>\<close>
  cn_connected :: bool
  cn_io_timed_out :: bool
  cn_await_since_ms :: u64
  cn_io_deadline_ms :: u64
  cn_io_timeout_detail :: string
  cn_sock :: bool                 \<comment> \<open>\<^verbatim>\<open>sock_\<close> is set, registered and not disconnected\<close>
  cn_sock_timeout :: bool         \<comment> \<open>the poller's TIMEOUT flag\<close>
  cn_cursor_seq :: u64
  cn_dead_accounted :: bool

definition new_conn :: "'c conn" where
  "new_conn = \<lparr>cn_pq = None, cn_connected = False, cn_io_timed_out = False, cn_await_since_ms = 0,
     cn_io_deadline_ms = 0, cn_io_timeout_detail = [], cn_sock = False, cn_sock_timeout = False,
     cn_cursor_seq = 0, cn_dead_accounted = False\<rparr>"

definition connected :: "'c libpq \<Rightarrow> 'c conn \<Rightarrow> bool" where
  "connected L c \<longleftrightarrow>
     (case cn_pq c of
        None \<Rightarrow> False
      | Some p \<Rightarrow> cn_connected c \<and> pq_status_ok L p \<and> \<not> cn_io_timed_out c \<and> \<not> cn_sock_timeout c)"

definition is_idle :: "'c libpq \<Rightarrow> 'c conn \<Rightarrow> bool" where
  "is_idle L c \<longleftrightarrow>
     connected L c \<and> (case cn_pq c of None \<Rightarrow> False | Some p \<Rightarrow> \<not> pq_busy L p \<and> pq_trans_idle L p)"

definition conn_close :: "'c conn \<Rightarrow> 'c conn" where
  "conn_close c = c\<lparr>cn_connected := False, cn_pq := None, cn_sock := False\<rparr>"

section \<open>Deadline bookkeeping\<close>

definition kIoDeadlineMs :: u64 where
  "kIoDeadlineMs = 15000"

definition set_io_deadline_ms :: "u64 \<Rightarrow> 'c conn \<Rightarrow> 'c conn" where
  "set_io_deadline_ms ms c = c\<lparr>cn_io_deadline_ms := ms\<rparr>"

definition io_deadline_ms :: "'c conn \<Rightarrow> u64" where
  "io_deadline_ms c = (if cn_io_deadline_ms c \<noteq> 0 then cn_io_deadline_ms c else kIoDeadlineMs)"

definition mark_await_begin :: "u64 \<Rightarrow> 'c conn \<Rightarrow> 'c conn" where
  "mark_await_begin now c = c\<lparr>cn_await_since_ms := now\<rparr>"

definition mark_await_end :: "'c conn \<Rightarrow> 'c conn" where
  "mark_await_end c =
     (let c = c\<lparr>cn_await_since_ms := 0\<rparr>
      in if cn_io_timed_out c then c\<lparr>cn_connected := False\<rparr> else c)"

definition io_error_message :: "'c libpq \<Rightarrow> 'c conn \<Rightarrow> string" where
  "io_error_message L c =
     (if cn_io_timed_out c
      then (if cn_io_timeout_detail c = [] then ''io deadline exceeded'' else cn_io_timeout_detail c)
      else case cn_pq c of Some p \<Rightarrow> pq_error L p | None \<Rightarrow> [])"

text \<open>
  \<^verbatim>\<open>abort_io_from_watchdog\<close>: whether a \<^verbatim>\<open>shutdown(2)\<close> was issued. \<open>pending\<close> is what \<^verbatim>\<open>FIONREAD\<close> reports
  for a valid descriptor (\<open>-1\<close> when the call fails). The text is at most 160 characters long and
  never cut.
\<close>

definition timeout_text :: "u64 \<Rightarrow> u64 \<Rightarrow> int \<Rightarrow> string" where
  "timeout_text waited deadline pending =
     ''io deadline exceeded (waited_ms='' @ show_nat (unat waited) @ '' deadline_ms=''
     @ show_nat (unat deadline) @ '' pending_bytes='' @ show_int pending @ '')''"

definition abort_io_from_watchdog :: "'c libpq \<Rightarrow> u64 \<Rightarrow> int \<Rightarrow> 'c conn \<Rightarrow> bool \<times> 'c conn" where
  "abort_io_from_watchdog L now pending c =
     (case cn_pq c of
        None \<Rightarrow> (False, c)
      | Some p \<Rightarrow>
          (let since = cn_await_since_ms c in
           if since = 0 then (False, c)
           else let fd = pq_socket L p;
                    c' = c\<lparr>cn_io_timeout_detail :=
                             timeout_text (now - since) (io_deadline_ms c) (if fd \<ge> 0 then pending else - 1),
                           cn_io_timed_out := True\<rparr>
             in (fd \<ge> 0, c')))"

section \<open>Steps of a round trip\<close>

datatype step = StepDone | StepWait | StepFailed

definition flush_step :: "'c libpq \<Rightarrow> 'c conn \<Rightarrow> step \<times> 'c conn" where
  "flush_step L c =
     (case cn_pq c of
        None \<Rightarrow> (StepFailed, c\<lparr>cn_connected := False\<rparr>)
      | Some p \<Rightarrow>
          (case pq_flush L p of (fr, p') \<Rightarrow>
             let c' = c\<lparr>cn_pq := Some p'\<rparr> in
             if fr = 0 then (StepDone, c')
             else if fr < 0 then (StepFailed, c'\<lparr>cn_connected := False\<rparr>)
             else (StepWait, c')))"

definition input_step :: "'c libpq \<Rightarrow> 'c conn \<Rightarrow> step \<times> 'c conn" where
  "input_step L c =
     (case cn_pq c of
        None \<Rightarrow> (StepFailed, c\<lparr>cn_connected := False\<rparr>)
      | Some p \<Rightarrow>
          (case pq_consume_input L p of (ok, p') \<Rightarrow>
             let c' = c\<lparr>cn_pq := Some p'\<rparr> in
             if \<not> ok then (StepFailed, c'\<lparr>cn_connected := False\<rparr>)
             else (if pq_busy L p' then StepWait else StepDone, c')))"

text \<open>The loop \<^verbatim>\<open>while (!PQisBusy(conn_))\<close> of \<^verbatim>\<open>collect_step\<close>: its step, whether COPY stopped it, the result.\<close>

partial_function (option) collect_results ::
  "'c libpq \<Rightarrow> 'c \<Rightarrow> QueryResult \<Rightarrow> (step \<times> bool \<times> QueryResult \<times> 'c) option" where
  "collect_results L p out =
     (if pq_busy L p then Some (StepWait, False, out, p)
      else case pq_get_result L p of
          (None, p') \<Rightarrow> Some (StepDone, False, out, p')
        | (Some res, p') \<Rightarrow>
            (case absorb_result res out of
               (stop, out') \<Rightarrow>
                 if stop then Some (StepDone, True, out', p') else collect_results L p' out'))"

definition collect_step ::
  "'c libpq \<Rightarrow> 'c conn \<Rightarrow> QueryResult \<Rightarrow> (step \<times> QueryResult \<times> 'c conn) option" where
  "collect_step L c out =
     (case cn_pq c of
        None \<Rightarrow> Some (StepFailed, out, c\<lparr>cn_connected := False\<rparr>)
      | Some p \<Rightarrow>
          (case pq_consume_input L p of (ok, p') \<Rightarrow>
             if \<not> ok then Some (StepFailed, out, c\<lparr>cn_pq := Some p', cn_connected := False\<rparr>)
             else (case collect_results L p' out of
                 None \<Rightarrow> None
               | Some (s, stopped, out', p'') \<Rightarrow>
                   Some (s, out', c\<lparr>cn_pq := Some p'',
                                    cn_connected := (if stopped then False else cn_connected c)\<rparr>))))"

section \<open>Awaiting the socket\<close>

record 'c wake =
  wk_arrive :: "'c \<Rightarrow> 'c"          \<comment> \<open>what the wait changed in the state libpq sees\<close>
  wk_timeout :: "string option"    \<comment> \<open>the watchdog cut it, with this detail\<close>
  wk_cancel :: bool                \<comment> \<open>\<^verbatim>\<open>cancel_requested()\<close> after it\<close>

text \<open>\<^verbatim>\<open>co_await wait_readable()\<close> / \<^verbatim>\<open>wait_writable()\<close>, up to and including \<^verbatim>\<open>await_resume\<close>.\<close>

definition do_wait :: "'c wake \<Rightarrow> 'c conn \<Rightarrow> 'c conn" where
  "do_wait w c =
     (let c = c\<lparr>cn_pq := map_option (wk_arrive w) (cn_pq c)\<rparr>;
          c = (case wk_timeout w of
                 None \<Rightarrow> c
               | Some d \<Rightarrow> c\<lparr>cn_io_timeout_detail := d, cn_io_timed_out := True\<rparr>)
      in mark_await_end c)"

definition fail_io :: "string \<Rightarrow> QueryResult \<Rightarrow> QueryResult" where
  "fail_io msg out =
     out\<lparr>qr_ok := False, qr_code := SocketReadFailed, qr_error := msg,
         qr_err_detail := (qr_err_detail out)\<lparr>ed_message := msg\<rparr>\<rparr>"

definition after_wait ::
  "'c libpq \<Rightarrow> step \<Rightarrow> bool \<Rightarrow> 'c conn \<Rightarrow> QueryResult \<Rightarrow> bool \<times> QueryResult \<times> 'c conn" where
  "after_wait L s cancel c out =
     (if s = StepFailed \<or> cn_io_timed_out c
      then (True, fail_io (io_error_message L c) out, c\<lparr>cn_connected := False\<rparr>)
      else if s = StepWait \<and> cancel
      then (True, (fail_io ''canceled'' out)\<lparr>qr_code := AwaitCanceled\<rparr>, c\<lparr>cn_connected := False\<rparr>)
      else (False, out, c))"

datatype 'r async = Finished 'r | Parked | Stuck

section \<open>run\_query\<close>

fun flush_loop ::
  "'c libpq \<Rightarrow> 'c wake list \<Rightarrow> 'c conn \<Rightarrow> QueryResult
    \<Rightarrow> (bool \<times> QueryResult \<times> 'c conn \<times> 'c wake list) async" where
  "flush_loop L ws c out =
     (case flush_step L c of
        (StepDone, c') \<Rightarrow> Finished (False, out, c', ws)
      | (StepFailed, c') \<Rightarrow>
          (case after_wait L StepFailed False c' out of (failed, out', c'') \<Rightarrow>
             Finished (failed, out', c'', ws))
      | (StepWait, c') \<Rightarrow>
          (case ws of
             [] \<Rightarrow> Parked
           | w # ws' \<Rightarrow>
               (case after_wait L StepWait (wk_cancel w) (do_wait w c') out of (failed, out', c'') \<Rightarrow>
                  if failed then Finished (True, out', c'', ws')
                  else flush_loop L ws' c'' out')))"

fun collect_loop ::
  "'c libpq \<Rightarrow> 'c wake list \<Rightarrow> 'c conn \<Rightarrow> QueryResult
    \<Rightarrow> (bool \<times> QueryResult \<times> 'c conn \<times> 'c wake list) async" where
  "collect_loop L ws c out =
     (case collect_step L c out of
        None \<Rightarrow> Stuck
      | Some (StepDone, out', c') \<Rightarrow> Finished (False, out', c', ws)
      | Some (StepFailed, out', c') \<Rightarrow>
          (case after_wait L StepFailed False c' out' of (failed, out'', c'') \<Rightarrow>
             Finished (failed, out'', c'', ws))
      | Some (StepWait, out', c') \<Rightarrow>
          (case ws of
             [] \<Rightarrow> Parked
           | w # ws' \<Rightarrow>
               (case after_wait L StepWait (wk_cancel w) (do_wait w c') out' of (failed, out'', c'') \<Rightarrow>
                  if failed then Finished (True, out'', c'', ws')
                  else collect_loop L ws' c'' out'')))"

declare flush_loop.simps [simp del] collect_loop.simps [simp del]

definition closed_result :: "string \<Rightarrow> QueryResult" where
  "closed_result why = empty_result\<lparr>qr_ok := False, qr_code := ConnectionClosed, qr_error := why,
     qr_rows_valid := False\<rparr>"

definition invalid_cursor_result :: QueryResult where
  "invalid_cursor_result = empty_result\<lparr>qr_ok := False, qr_code := ProtocolCorrupt,
     qr_error := ''invalid cursor name'', qr_rows_valid := False\<rparr>"

text \<open>The result when \<^verbatim>\<open>failed\<close> is set.\<close>

definition drop_rows :: "QueryResult \<Rightarrow> QueryResult" where
  "drop_rows out = out\<lparr>qr_rows := [], qr_columns := [], qr_rows_valid := False\<rparr>"

text \<open>\<open>send\<close> is \<^verbatim>\<open>SimpleSend\<close> or \<^verbatim>\<open>ParamSend\<close>; the conversion \<^verbatim>\<open>finish\<close> is applied by the caller.\<close>

definition run_query ::
  "'c libpq \<Rightarrow> ('c \<Rightarrow> bool \<times> 'c) \<Rightarrow> 'c wake list \<Rightarrow> 'c conn
    \<Rightarrow> (QueryResult \<times> 'c conn \<times> 'c wake list) async" where
  "run_query L send ws c =
     (case cn_pq c of
        None \<Rightarrow> Finished (closed_result ''connection not OK'', c, ws)
      | Some p \<Rightarrow>
          if \<not> connected L c then Finished (closed_result ''connection not OK'', c, ws)
          else (case send p of (sent, p') \<Rightarrow>
             let c' = c\<lparr>cn_pq := Some p'\<rparr> in
             if \<not> sent
             then Finished (drop_rows (fail_io (pq_error L p') fresh_result), c'\<lparr>cn_connected := False\<rparr>, ws)
             else (case flush_loop L ws c' fresh_result of
                 Parked \<Rightarrow> Parked | Stuck \<Rightarrow> Stuck
               | Finished (failed, out, c2, ws2) \<Rightarrow>
                   if failed then Finished (drop_rows out, c2, ws2)
                   else (case collect_loop L ws2 c2 out of
                       Parked \<Rightarrow> Parked | Stuck \<Rightarrow> Stuck
                     | Finished (failed, out, c3, ws3) \<Rightarrow>
                         Finished (if failed then drop_rows out else out, c3, ws3)))))"

definition map_async :: "('a \<Rightarrow> 'b) \<Rightarrow> ('a \<times> 's) async \<Rightarrow> ('b \<times> 's) async" where
  "map_async f r = (case r of Finished (x, s) \<Rightarrow> Finished (f x, s) | Parked \<Rightarrow> Parked | Stuck \<Rightarrow> Stuck)"

definition exec_simple :: "'c libpq \<Rightarrow> string \<Rightarrow> 'c wake list \<Rightarrow> 'c conn
    \<Rightarrow> (QueryResult \<times> 'c conn \<times> 'c wake list) async" where
  "exec_simple L sql ws c = run_query L (pq_send_query L sql) ws c"


section \<open>Cold paths\<close>

text \<open>\<^verbatim>\<open>flush_outgoing\<close> and \<^verbatim>\<open>pump_input\<close>: one loop with two different steps.\<close>

fun pump_loop ::
  "('c conn \<Rightarrow> step \<times> 'c conn) \<Rightarrow> 'c wake list \<Rightarrow> 'c conn \<Rightarrow> (bool \<times> 'c conn \<times> 'c wake list) async" where
  "pump_loop stp ws c =
     (case stp c of
        (StepDone, c') \<Rightarrow> Finished (True, c', ws)
      | (StepFailed, c') \<Rightarrow> Finished (False, c', ws)
      | (StepWait, c') \<Rightarrow>
          (case ws of
             [] \<Rightarrow> Parked
           | w # ws' \<Rightarrow>
               (let c'' = do_wait w c' in
                if cn_io_timed_out c'' then Finished (False, c'', ws')
                else if wk_cancel w then Finished (False, c''\<lparr>cn_connected := False\<rparr>, ws')
                else pump_loop stp ws' c'')))"

declare pump_loop.simps [simp del]

definition flush_outgoing :: "'c libpq \<Rightarrow> 'c wake list \<Rightarrow> 'c conn \<Rightarrow> (bool \<times> 'c conn \<times> 'c wake list) async" where
  "flush_outgoing L = pump_loop (flush_step L)"

definition pump_input :: "'c libpq \<Rightarrow> 'c wake list \<Rightarrow> 'c conn \<Rightarrow> (bool \<times> 'c conn \<times> 'c wake list) async" where
  "pump_input L = pump_loop (input_step L)"

definition round_trip_input :: "'c libpq \<Rightarrow> 'c wake list \<Rightarrow> 'c conn \<Rightarrow> (bool \<times> 'c conn \<times> 'c wake list) async" where
  "round_trip_input L ws c =
     (case flush_outgoing L ws c of
        Finished (ok, c', ws') \<Rightarrow> if \<not> ok then Finished (False, c', ws') else pump_input L ws' c'
      | r \<Rightarrow> r)"

partial_function (option) discard_results :: "'c libpq \<Rightarrow> 'c \<Rightarrow> 'c option" where
  "discard_results L p =
     (if pq_busy L p then Some p
      else case pq_get_result L p of
          (None, p') \<Rightarrow> Some p'
        | (Some res, p') \<Rightarrow> discard_results L p')"

definition discard_pending_results :: "'c libpq \<Rightarrow> 'c conn \<Rightarrow> 'c conn option" where
  "discard_pending_results L c =
     (case cn_pq c of
        None \<Rightarrow> Some c
      | Some p \<Rightarrow> map_option (\<lambda>p'. c\<lparr>cn_pq := Some p'\<rparr>) (discard_results L p))"

text \<open>The rounds of \<^verbatim>\<open>idle_socket_alive\<close> left, and whether libpq's state is still good.\<close>

fun alive_rounds :: "'c libpq \<Rightarrow> nat \<Rightarrow> 'c conn \<Rightarrow> 'c \<Rightarrow> bool \<times> 'c conn" where
  "alive_rounds L 0 c p = (pq_status_ok L p \<and> \<not> pq_busy L p, c)"
| "alive_rounds L (Suc k) c p =
     (case pq_peek L p of (n, again) \<Rightarrow>
        if n < 0 then (again \<and> pq_status_ok L p \<and> \<not> pq_busy L p, c)
        else if n = 0 then (False, c)
        else (case pq_consume_input L p of (ok, p') \<Rightarrow>
            if \<not> ok then (False, c\<lparr>cn_pq := Some p', cn_connected := False\<rparr>)
            else alive_rounds L k (c\<lparr>cn_pq := Some p'\<rparr>) p'))"

definition idle_socket_alive :: "'c libpq \<Rightarrow> 'c conn \<Rightarrow> bool \<times> 'c conn" where
  "idle_socket_alive L c =
     (case cn_pq c of
        None \<Rightarrow> (False, c)
      | Some p \<Rightarrow> if pq_socket L p < 0 \<or> \<not> cn_sock c then (False, c) else alive_rounds L 4 c p)"

section \<open>Cursors and snapshots\<close>

definition make_cursor_name :: "'c conn \<Rightarrow> string \<times> 'c conn" where
  "make_cursor_name c =
     (let n = cn_cursor_seq c + 1 in (''usub_cur_'' @ show_nat (unat n), c\<lparr>cn_cursor_seq := n\<rparr>))"

definition cursor_declare_in_tx :: "'c libpq \<Rightarrow> string \<Rightarrow> string \<Rightarrow> 'c wake list \<Rightarrow> 'c conn
    \<Rightarrow> (QueryResult \<times> 'c conn \<times> 'c wake list) async" where
  "cursor_declare_in_tx L name sql ws c =
     (if \<not> is_safe_cursor_ident name then Finished (invalid_cursor_result, c, ws)
      else exec_simple L (''DECLARE '' @ name @ '' NO SCROLL CURSOR FOR '' @ sql @ '';'') ws c)"

definition cursor_declare :: "'c libpq \<Rightarrow> string \<Rightarrow> string \<Rightarrow> 'c wake list \<Rightarrow> 'c conn
    \<Rightarrow> (QueryResult \<times> 'c conn \<times> 'c wake list) async" where
  "cursor_declare L name sql ws c =
     (if \<not> is_safe_cursor_ident name then Finished (invalid_cursor_result, c, ws)
      else exec_simple L (''BEGIN; DECLARE '' @ name @ '' NO SCROLL CURSOR FOR '' @ sql @ '';'') ws c)"

definition chunk_of_result :: "QueryResult \<Rightarrow> PgCursorChunk" where
  "chunk_of_result q =
     (let chunk = empty_chunk\<lparr>cc_ok := qr_ok q, cc_code := qr_code q\<rparr> in
      if \<not> qr_ok q
      then chunk\<lparr>cc_error := qr_error q, cc_err_detail := qr_err_detail q, cc_done := True\<rparr>
      else chunk\<lparr>cc_rows := qr_rows q, cc_columns := qr_columns q, cc_done := (qr_rows q = [])\<rparr>)"

definition cursor_fetch_chunk :: "'c libpq \<Rightarrow> string \<Rightarrow> u32 \<Rightarrow> 'c wake list \<Rightarrow> 'c conn
    \<Rightarrow> (PgCursorChunk \<times> 'c conn \<times> 'c wake list) async" where
  "cursor_fetch_chunk L name count ws c =
     (if \<not> is_safe_cursor_ident name
      then Finished (empty_chunk\<lparr>cc_code := ProtocolCorrupt, cc_error := ''invalid cursor name''\<rparr>, c, ws)
      else map_async chunk_of_result
             (exec_simple L (''FETCH FORWARD '' @ show_nat (unat count) @ '' FROM '' @ name @ '';'') ws c))"

definition cursor_close_in_tx :: "'c libpq \<Rightarrow> string \<Rightarrow> 'c wake list \<Rightarrow> 'c conn
    \<Rightarrow> (QueryResult \<times> 'c conn \<times> 'c wake list) async" where
  "cursor_close_in_tx L name ws c =
     (if \<not> is_safe_cursor_ident name then Finished (invalid_cursor_result, c, ws)
      else exec_simple L (''CLOSE '' @ name @ '';'') ws c)"

definition cursor_close :: "'c libpq \<Rightarrow> string \<Rightarrow> 'c wake list \<Rightarrow> 'c conn
    \<Rightarrow> (QueryResult \<times> 'c conn \<times> 'c wake list) async" where
  "cursor_close L name ws c =
     (if \<not> is_safe_cursor_ident name then Finished (invalid_cursor_result, c, ws)
      else map_async (\<lambda>q. q\<lparr>qr_rows := [], qr_rows_valid := True\<rparr>)
             (exec_simple L (''CLOSE '' @ name @ ''; COMMIT;'') ws c))"

definition export_snapshot :: "'c libpq \<Rightarrow> 'c wake list \<Rightarrow> 'c conn
    \<Rightarrow> ((PgOpError + string) \<times> 'c conn \<times> 'c wake list) async" where
  "export_snapshot L ws c =
     map_async (\<lambda>q. if \<not> qr_ok q then Inl (to_op_error q)
                    else case qr_rows q of
                        [] \<Rightarrow> Inl (op_error ProtocolCorrupt ''pg_export_snapshot returned no value'')
                      | r # _ \<Rightarrow>
                          (case cols r of
                             [] \<Rightarrow> Inl (op_error ProtocolCorrupt ''pg_export_snapshot returned no value'')
                           | v # _ \<Rightarrow> Inr v))
       (exec_simple L ''SELECT pg_export_snapshot();'' ws c)"

definition snapshot_char :: "char \<Rightarrow> bool" where
  "snapshot_char u \<longleftrightarrow> is_digit u \<or> (97 \<le> ord u \<and> ord u \<le> 102) \<or> (65 \<le> ord u \<and> ord u \<le> 70)
     \<or> u = CHR ''-''"

definition set_snapshot :: "'c libpq \<Rightarrow> string \<Rightarrow> 'c wake list \<Rightarrow> 'c conn
    \<Rightarrow> (PgOpError option \<times> 'c conn \<times> 'c wake list) async" where
  "set_snapshot L snapshot_id ws c =
     (if \<not> list_all snapshot_char snapshot_id
      then Finished (Some (op_error ProtocolCorrupt ''invalid snapshot id format''), c, ws)
      else map_async (\<lambda>q. if \<not> qr_ok q then Some (to_op_error q) else None)
             (exec_simple L (''SET TRANSACTION SNAPSHOT '' @ [CHR 0x27] @ snapshot_id @ [CHR 0x27] @ '';'') ws c))"

section \<open>Facts on run\_query\<close>

text \<open>The part of libpq's contract the loops rely on: a statement has finitely many results.\<close>

definition finite_results :: "'c libpq \<Rightarrow> ('c \<Rightarrow> nat) \<Rightarrow> bool" where
  "finite_results L m \<longleftrightarrow>
     (\<forall>p r p'. \<not> pq_busy L p \<longrightarrow> pq_get_result L p = (Some r, p') \<longrightarrow> \<not> is_copy_status (rs_status r)
        \<longrightarrow> m p' < m p)"

lemma collect_results_total: "finite_results L m \<Longrightarrow> \<exists>r. collect_results L p out = Some r"
proof (induction "m p" arbitrary: p out rule: less_induct)
  case less
  show ?case
  proof (cases "pq_busy L p")
    case True
    then show ?thesis by (auto simp: collect_results.simps [of L p])
  next
    case nb: False
    obtain r p' where g: "pq_get_result L p = (r, p')" by (cases "pq_get_result L p")
    show ?thesis
    proof (cases r)
      case None
      with nb g show ?thesis by (auto simp: collect_results.simps [of L p])
    next
      case (Some res)
      obtain stop out' where a: "absorb_result res out = (stop, out')" by fastforce
      have "\<not> stop \<Longrightarrow> m p' < m p"
        using less.prems nb g Some a absorb_stop [of res out] by (simp add: finite_results_def)
      with less.hyps [of p'] less.prems nb g Some a show ?thesis
        by (cases stop) (auto simp: collect_results.simps [of L p])
    qed
  qed
qed

text \<open>A result that only server messages went into.\<close>

definition absorbed_wf :: "QueryResult \<Rightarrow> bool" where
  "absorbed_wf q \<longleftrightarrow> result_wf q \<and> qr_code q \<in> {OK, ServerError, ProtocolCorrupt}"

lemma absorbed_absorb: "absorbed_wf out \<Longrightarrow> absorbed_wf (snd (absorb_result res out))"
  using absorb_wf [of out res]
  by (auto simp: absorbed_wf_def absorb_result_def append_rows_def fill_server_error_fields_def Let_def
      split: ExecStatus.split)

lemma absorbed_fresh: "absorbed_wf fresh_result"
  using fresh_wf by (simp add: absorbed_wf_def fresh_result_def)

lemma collect_results_wf_aux:
  "collect_results L p out = Some r \<Longrightarrow>
     absorbed_wf out \<longrightarrow> absorbed_wf (fst (snd (snd r))) \<and> fst r \<noteq> StepFailed"
proof (erule collect_results.raw_induct [rotated])
  fix rec L p out r
  assume IH: "\<And>L p out r. rec L p out = Some r \<Longrightarrow>
      absorbed_wf out \<longrightarrow> absorbed_wf (fst (snd (snd r))) \<and> fst r \<noteq> StepFailed"
    and eq: "(if pq_busy L p then Some (StepWait, False, out, p)
      else case pq_get_result L p of
          (None, p') \<Rightarrow> Some (StepDone, False, out, p')
        | (Some res, p') \<Rightarrow>
            (case absorb_result res out of
               (stop, out') \<Rightarrow>
                 if stop then Some (StepDone, True, out', p') else rec L p' out')) = Some r"
  show "absorbed_wf out \<longrightarrow> absorbed_wf (fst (snd (snd r))) \<and> fst r \<noteq> StepFailed"
  proof
    assume wf: "absorbed_wf out"
    show "absorbed_wf (fst (snd (snd r))) \<and> fst r \<noteq> StepFailed"
    proof (cases "pq_busy L p")
      case True
      with eq wf show ?thesis by auto
    next
      case False
      obtain ro p' where g: "pq_get_result L p = (ro, p')" by (cases "pq_get_result L p")
      show ?thesis
      proof (cases ro)
        case None
        with False eq g wf show ?thesis by auto
      next
        case (Some res)
        obtain stop out' where a: "absorb_result res out = (stop, out')" by fastforce
        with absorbed_absorb [OF wf, of res] have "absorbed_wf out'" by simp
        with False eq g Some a IH show ?thesis by (cases stop) auto
      qed
    qed
  qed
qed

lemma collect_results_wf:
  "collect_results L p out = Some (s, st, out', p') \<Longrightarrow> absorbed_wf out \<Longrightarrow> absorbed_wf out' \<and> s \<noteq> StepFailed"
  using collect_results_wf_aux by fastforce

lemma collect_step_wf:
  "collect_step L c out = Some (s, out', c') \<Longrightarrow> absorbed_wf out \<Longrightarrow>
     absorbed_wf out' \<and> (s = StepFailed \<longrightarrow> \<not> cn_connected c') \<and> cn_io_timed_out c' = cn_io_timed_out c"
  by (auto simp: collect_step_def split: option.splits prod.splits if_splits dest: collect_results_wf)

lemma collect_step_total: "finite_results L m \<Longrightarrow> \<exists>r. collect_step L c out = Some r"
proof (cases "cn_pq c")
  case (Some p)
  assume "finite_results L m"
  from collect_results_total [OF this] obtain r
    where "collect_results L (snd (pq_consume_input L p)) out = Some r" ..
  with Some show ?thesis by (cases r) (auto simp: collect_step_def case_prod_unfold)
qed (simp add: collect_step_def)

text \<open>A failed await leaves the connection unusable and the result marked.\<close>

definition failed_io :: "QueryResult \<Rightarrow> 'c conn \<Rightarrow> bool" where
  "failed_io out c \<longleftrightarrow> \<not> qr_ok out \<and> qr_code out \<in> {SocketReadFailed, AwaitCanceled} \<and> \<not> cn_connected c"

lemma after_wait_cases:
  assumes "after_wait L s cancel c out = (failed, out', c')"
  shows "failed \<longleftrightarrow> s = StepFailed \<or> cn_io_timed_out c \<or> (s = StepWait \<and> cancel)"
    and "failed \<Longrightarrow> failed_io out' c'" and "\<not> failed \<Longrightarrow> out' = out \<and> c' = c"
    and "cn_io_timed_out c' = cn_io_timed_out c"
  using assms by (auto simp: after_wait_def failed_io_def fail_io_def split: if_splits)

lemma flush_step_out: "flush_step L c = (s, c') \<Longrightarrow> cn_io_timed_out c' = cn_io_timed_out c"
  by (auto simp: flush_step_def Let_def split: option.splits prod.splits if_splits)

lemma flush_loop_wf:
  "flush_loop L ws c out = Finished (failed, out', c', ws') \<Longrightarrow>
     (failed \<longrightarrow> failed_io out' c') \<and> (\<not> failed \<longrightarrow> out' = out)"
proof (induction L ws c out rule: flush_loop.induct)
  case (1 L ws c out)
  obtain s c1 where s: "flush_step L c = (s, c1)" by fastforce
  show ?case
  proof (cases s)
    case StepDone
    with s "1.prems" show ?thesis by (simp add: flush_loop.simps [of L ws])
  next
    case StepFailed
    with s "1.prems" after_wait_cases [of L StepFailed False c1 out] show ?thesis
      by (auto simp: flush_loop.simps [of L ws] split: prod.splits)
  next
    case StepWait
    with s "1.prems" obtain w wr where ws: "ws = w # wr"
      by (cases ws) (auto simp: flush_loop.simps [of L "[]"])
    obtain f2 o2 c2 where a: "after_wait L StepWait (wk_cancel w) (do_wait w c1) out = (f2, o2, c2)"
      using prod_cases3 by blast
    with after_wait_cases [OF a] 1 s StepWait ws show ?thesis
      by (cases f2) (auto simp: flush_loop.simps [of L "w # wr"])
  qed
qed

lemma collect_loop_wf:
  "collect_loop L ws c out = Finished (failed, out', c', ws') \<Longrightarrow> absorbed_wf out \<Longrightarrow>
     (failed \<longrightarrow> failed_io out' c') \<and> (\<not> failed \<longrightarrow> absorbed_wf out')"
proof (induction L ws c out rule: collect_loop.induct)
  case (1 L ws c out)
  then obtain s o1 c1 where s: "collect_step L c out = Some (s, o1, c1)"
    by (auto simp: collect_loop.simps [of L ws] split: option.splits)
  note wf = collect_step_wf [OF s "1.prems"(2)]
  show ?case
  proof (cases s)
    case StepDone
    with s "1.prems" wf show ?thesis by (simp add: collect_loop.simps [of L ws])
  next
    case StepFailed
    with s "1.prems" after_wait_cases [of L StepFailed False c1 o1] show ?thesis
      by (auto simp: collect_loop.simps [of L ws] split: prod.splits)
  next
    case StepWait
    with s "1.prems" obtain w wr where ws: "ws = w # wr"
      by (cases ws) (auto simp: collect_loop.simps [of L "[]"])
    obtain f2 o2 c2 where a: "after_wait L StepWait (wk_cancel w) (do_wait w c1) o1 = (f2, o2, c2)"
      using prod_cases3 by blast
    with after_wait_cases [OF a] 1 s StepWait ws wf show ?thesis
      by (cases f2) (auto simp: collect_loop.simps [of L "w # wr"])
  qed
qed

text \<open>A wake after which the statement gives up.\<close>

definition interrupts :: "'c wake \<Rightarrow> bool" where
  "interrupts w \<longleftrightarrow> wk_timeout w \<noteq> None \<or> wk_cancel w"

lemma after_wait_interrupts:
  "interrupts w \<Longrightarrow> fst (after_wait L StepWait (wk_cancel w) (do_wait w c) out)"
  by (auto simp: interrupts_def after_wait_def do_wait_def mark_await_end_def Let_def split: option.split)

lemma flush_loop_live:
  "list_ex interrupts ws \<Longrightarrow>
     \<exists>f o' c' ws'. flush_loop L ws c out = Finished (f, o', c', ws') \<and> (f \<or> list_ex interrupts ws')"
proof (induction L ws c out rule: flush_loop.induct)
  case (1 L ws c out)
  obtain s c1 where s: "flush_step L c = (s, c1)" by fastforce
  from "1.prems" obtain w wr where ws: "ws = w # wr" by (cases ws) auto
  show ?case
  proof (cases s)
    case StepDone
    with s "1.prems" show ?thesis by (auto simp: flush_loop.simps [of L ws])
  next
    case StepFailed
    with s show ?thesis by (auto simp: flush_loop.simps [of L ws] after_wait_def)
  next
    case StepWait
    obtain f2 o2 c2 where a: "after_wait L StepWait (wk_cancel w) (do_wait w c1) out = (f2, o2, c2)"
      using prod_cases3 by blast
    show ?thesis
    proof (cases f2)
      case True
      with s a ws StepWait show ?thesis by (auto simp: flush_loop.simps [of L "w # wr"])
    next
      case False
      with after_wait_interrupts [of w L c1 out] a have "\<not> interrupts w" by auto
      with "1.prems" ws have "list_ex interrupts wr" by simp
      with "1.IH" s a ws StepWait False show ?thesis by (auto simp: flush_loop.simps [of L "w # wr"])
    qed
  qed
qed

lemma collect_loop_live:
  "finite_results L m \<Longrightarrow> list_ex interrupts ws \<Longrightarrow>
     \<exists>f o' c' ws'. collect_loop L ws c out = Finished (f, o', c', ws') \<and> (f \<or> list_ex interrupts ws')"
proof (induction L ws c out rule: collect_loop.induct)
  case (1 L ws c out)
  from collect_step_total [OF "1.prems"(1)] obtain s o1 c1
    where s: "collect_step L c out = Some (s, o1, c1)" using prod_cases3 by metis
  from "1.prems" obtain w wr where ws: "ws = w # wr" by (cases ws) auto
  show ?case
  proof (cases s)
    case StepWait
    obtain f2 o2 c2 where a: "after_wait L StepWait (wk_cancel w) (do_wait w c1) o1 = (f2, o2, c2)"
      using prod_cases3 by blast
    show ?thesis
    proof (cases f2)
      case True
      with s a ws StepWait show ?thesis by (auto simp: collect_loop.simps [of L "w # wr"])
    next
      case False
      with after_wait_interrupts [of w L c1 o1] a have "\<not> interrupts w" by auto
      with "1.prems" ws have "list_ex interrupts wr" by simp
      with "1.IH" "1.prems"(1) s a ws StepWait False show ?thesis
        by (auto simp: collect_loop.simps [of L "w # wr"])
    qed
  qed (use s "1.prems" in \<open>auto simp: collect_loop.simps [of L ws] after_wait_def\<close>)
qed

lemma starts_with_append: "starts_with (p @ s) p"
  by (simp add: starts_with_def)

lemma fail_drop_wf: "failed_io out c \<Longrightarrow> result_wf (drop_rows out)"
  by (auto simp: failed_io_def result_wf_def drop_rows_def)

section \<open>Properties\<close>

lemma run_query_wf:
  assumes "run_query L send ws c = Finished (q, c', ws')"
  shows "result_wf q \<and> (qr_code q \<in> {SocketReadFailed, AwaitCanceled, ConnectionClosed} \<longrightarrow> \<not> connected L c')"
proof (cases "connected L c")
  case False
  with assms have "q = closed_result ''connection not OK''" "c' = c"
    by (auto simp: run_query_def split: option.splits)
  with False show ?thesis by (simp add: closed_result_def result_wf_def empty_result_def)
next
  case True
  then obtain p where p: "cn_pq c = Some p" by (auto simp: connected_def split: option.splits)
  obtain sent p' where send: "send p = (sent, p')" by fastforce
  let ?c = "c\<lparr>cn_pq := Some p'\<rparr>"
  have fin: "result_wf (drop_rows out) \<and> \<not> connected L c2" if "failed_io out c2" for out and c2 :: "'a conn"
    using that fail_drop_wf by (auto simp: failed_io_def connected_def split: option.splits)
  show ?thesis
  proof (cases sent)
    case False
    with assms True p send show ?thesis
      by (auto simp: run_query_def Let_def result_wf_def drop_rows_def fail_io_def connected_def)
  next
    case sent: True
    then obtain f out c2 ws2 where fl: "flush_loop L ws ?c fresh_result = Finished (f, out, c2, ws2)"
      using assms True p send by (auto simp: run_query_def Let_def split: async.splits)
    show ?thesis
    proof (cases f)
      case True
      with flush_loop_wf [OF fl] fin fl assms \<open>connected L c\<close> p send sent show ?thesis
        by (auto simp: run_query_def Let_def)
    next
      case nf: False
      then obtain f2 o2 where cl: "collect_loop L ws2 c2 out = Finished (f2, o2, c', ws')"
        and q: "q = (if f2 then drop_rows o2 else o2)"
        using fl assms \<open>connected L c\<close> p send sent
        by (auto simp: run_query_def Let_def split: async.splits)
      have "out = fresh_result" using flush_loop_wf [OF fl] nf by simp
      with collect_loop_wf [OF cl] absorbed_fresh
      have w: "f2 \<longrightarrow> failed_io o2 c'" "\<not> f2 \<longrightarrow> absorbed_wf o2" by auto
      show ?thesis
      proof (cases f2)
        case True
        with w fin q show ?thesis by simp
      next
        case False
        with w q show ?thesis by (auto simp: absorbed_wf_def)
      qed
    qed
  qed
qed

text \<open>C34: whatever libpq and the event loop do, a query result is well formed (the flag and the code agree,
  a failed result has no rows), and after an I/O failure or a cancellation the connection is never
  reported as connected again.\<close>

theorem run_query_result_wf:
  assumes "run_query L send ws c = Finished (q, c', ws')"
  shows "result_wf q \<and> (qr_code q \<in> {SocketReadFailed, AwaitCanceled, ConnectionClosed} \<longrightarrow> \<not> connected L c')"
  by (rule run_query_wf [OF assms])

text \<open>A libpq whose state is the list of results to hand out, on a connection that always works.\<close>

definition list_libpq :: "pg_result list libpq" where
  "list_libpq = \<lparr>pq_status_ok = (\<lambda>_. True), pq_trans_idle = (\<lambda>_. True), pq_trans_inerror = (\<lambda>_. False),
     pq_busy = (\<lambda>_. False),
     pq_error = (\<lambda>_. []), pq_socket = (\<lambda>_. 3), pq_flush = (\<lambda>p. (0, p)),
     pq_consume_input = (\<lambda>p. (True, p)),
     pq_get_result = (\<lambda>p. case p of [] \<Rightarrow> (None, []) | r # rs \<Rightarrow> (Some r, rs)),
     pq_send_query = (\<lambda>_ p. (True, p)), pq_put_copy_data = (\<lambda>_ _ p. (1, p)),
     pq_put_copy_end = (\<lambda>_ p. (1, p)), pq_get_copy_data = (\<lambda>p. (- 1, [], p)),
     pq_peek = (\<lambda>_. (- 1, True))\<rparr>"

definition open_conn :: "'c \<Rightarrow> 'c conn" where
  "open_conn p = new_conn\<lparr>cn_pq := Some p, cn_connected := True, cn_sock := True\<rparr>"

lemma list_libpq_finite: "finite_results list_libpq length"
  by (auto simp: finite_results_def list_libpq_def split: list.splits)

theorem run_query_result_wf_witness:
  "\<exists>q c' ws'. run_query list_libpq (\<lambda>p. (False, p)) [] (open_conn []) = Finished (q, c', ws')
     \<and> result_wf q \<and> \<not> connected list_libpq c'"
proof -
  have r: "run_query list_libpq (\<lambda>p. (False, p)) [] (open_conn [])
      = Finished (drop_rows (fail_io [] fresh_result), (open_conn [])\<lparr>cn_connected := False\<rparr>, [])"
    by (simp add: run_query_def connected_def open_conn_def new_conn_def list_libpq_def Let_def)
  with run_query_result_wf [OF r] show ?thesis by (simp add: drop_rows_def fail_io_def)
qed

text \<open>A statement that is cut returns, and whatever is awaited behind it is cut as well, or is not awaited at all.\<close>

lemma run_query_interruptible:
  assumes "finite_results L m" "list_ex interrupts ws"
  shows "\<exists>q c' ws'. run_query L send ws c = Finished (q, c', ws') \<and> (\<not> connected L c' \<or> list_ex interrupts ws')"
proof (cases "connected L c")
  case False
  with assms(2) show ?thesis by (auto simp: run_query_def split: option.split)
next
  case True
  then obtain p where p: "cn_pq c = Some p" by (auto simp: connected_def split: option.splits)
  obtain sent p' where send: "send p = (sent, p')" by fastforce
  obtain f out c2 ws2 where fl: "flush_loop L ws (c\<lparr>cn_pq := Some p'\<rparr>) fresh_result = Finished (f, out, c2, ws2)"
    "f \<or> list_ex interrupts ws2"
    using flush_loop_live [OF assms(2)] by metis
  have dead: "\<not> connected L c'" if "failed_io out c'" for out and c' :: "'a conn"
    using that by (auto simp: failed_io_def connected_def split: option.splits)
  show ?thesis
  proof (cases f)
    case True
    with fl flush_loop_wf [OF fl(1)] p send \<open>connected L c\<close> dead show ?thesis
      by (auto simp: run_query_def Let_def connected_def)
  next
    case False
    with fl collect_loop_live [OF assms(1)] obtain f3 o3 c3 ws3
      where cl: "collect_loop L ws2 c2 out = Finished (f3, o3, c3, ws3)" "f3 \<or> list_ex interrupts ws3" by metis
    have "out = fresh_result" using flush_loop_wf [OF fl(1)] False by simp
    with collect_loop_wf [OF cl(1)] absorbed_fresh dead have "f3 \<longrightarrow> \<not> connected L c3" by auto
    with cl fl p send \<open>connected L c\<close> False show ?thesis
      by (auto simp: run_query_def Let_def connected_def)
  qed
qed

lemma run_query_live:
  assumes "finite_results L m" "list_ex interrupts ws"
  shows "\<exists>q c' ws'. run_query L send ws c = Finished (q, c', ws')"
  using run_query_interruptible [OF assms] by blast

text \<open>No statement hangs: if libpq hands out finitely many results per statement and some await is cut
  by the deadline watchdog or by a cancellation, the coroutine finishes.\<close>

theorem run_query_never_hangs:
  assumes "finite_results L m" "list_ex interrupts ws"
  shows "\<exists>q c' ws'. run_query L send ws c = Finished (q, c', ws')"
  by (rule run_query_live [OF assms])

theorem run_query_never_hangs_witness:
  "\<exists>q c' ws'. run_query list_libpq (\<lambda>p. (True, p))
       [\<lparr>wk_arrive = (\<lambda>p. p), wk_timeout = None, wk_cancel = True\<rparr>]
       (open_conn [sample_pg_result PGRES_TUPLES_OK]) = Finished (q, c', ws')"
  by (rule run_query_never_hangs [OF list_libpq_finite]) (simp add: interrupts_def)

text \<open>An await that the watchdog cuts is recognised as an expired deadline everywhere: the connection
  is no longer connected, its error text says so, and the failure is classified as \<open>Deadline\<close>,
  with the connection's flag as well as, when only the error survives, from the text.\<close>

theorem watchdog_abort_is_deadline:
  assumes "abort_io_from_watchdog L now pending c = (shut, c')" "cn_pq c \<noteq> None" "cn_await_since_ms c \<noteq> 0"
    and "qr_code q = SocketReadFailed" "\<not> qr_ok q" "qr_error q = io_error_message L c'"
    and "ed_sqlstate (qr_err_detail q) = []"
  shows "\<not> connected L c' \<and> starts_with (io_error_message L c') ''io deadline exceeded''
    \<and> classify_retry q (cn_io_timed_out c') = Deadline
    \<and> classify_retry_error (to_op_error q) = Deadline"
proof -
  from assms(1-3) have to: "cn_io_timed_out c'"
    and det: "starts_with (cn_io_timeout_detail c') ''io deadline exceeded''"
    by (auto simp: timeout_text_def starts_with_def abort_io_from_watchdog_def Let_def split: option.splits)
  have sw: "starts_with (io_error_message L c') ''io deadline exceeded''"
    using to det by (auto simp: io_error_message_def starts_with_def)
  moreover have "\<not> connected L c'" using to by (simp add: connected_def split: option.split)
  moreover have "classify_retry q (cn_io_timed_out c') = Deadline"
    using to assms(4,5) by (simp add: classify_retry_def classify_retry_code_def)
  moreover have "classify_retry_error (to_op_error q) = Deadline"
    using sw assms(4,6,7)
    by (simp add: classify_retry_error_def to_op_error_def classify_retry_code_def
        classify_sqlstate_retry_def)
  ultimately show ?thesis by simp
qed

theorem watchdog_abort_is_deadline_witness:
  "\<exists>c' q. abort_io_from_watchdog list_libpq 20000 0 ((open_conn [])\<lparr>cn_await_since_ms := 1\<rparr>) = (True, c')
     \<and> classify_retry q (cn_io_timed_out c') = Deadline \<and> \<not> connected list_libpq c'"
proof -
  obtain c' where c': "abort_io_from_watchdog list_libpq 20000 0 ((open_conn [])\<lparr>cn_await_since_ms := 1\<rparr>) = (True, c')"
    by (simp add: abort_io_from_watchdog_def open_conn_def new_conn_def list_libpq_def Let_def)
  define q where "q = empty_result\<lparr>qr_code := SocketReadFailed, qr_error := io_error_message list_libpq c'\<rparr>"
  from watchdog_abort_is_deadline [OF c', of q] have
    "classify_retry q (cn_io_timed_out c') = Deadline \<and> \<not> connected list_libpq c'"
    by (simp add: q_def open_conn_def empty_result_def no_detail_def)
  with c' show ?thesis by blast
qed

end
