(* ===== verification/Pg_Copy.thy ===== *)
theory Pg_Copy
  imports Pg_Conn
begin

text \<open>
  Connecting and COPY on one connection: the handshake of \<^verbatim>\<open>connect_async\<close> with its deadline, the
  COPY IN and COPY OUT coroutines of \<^verbatim>\<open>PgConnection.cpp\<close>, and the streaming wrappers \<^verbatim>\<open>copy_to\<close>,
  \<^verbatim>\<open>copy_to_lines\<close>, \<^verbatim>\<open>copy_from\<close> of \<^verbatim>\<open>PgConnection.h\<close>.

  User callbacks (sinks and sources) are functions on a user state \<open>'s\<close>. Loops that libpq alone
  could keep running are \<^theory_text>\<open>partial_function (option)\<close>: not returning is \<open>None\<close>, reported as \<open>Stuck\<close>.
\<close>

section \<open>Connecting\<close>

text \<open>The scan for a \<^verbatim>\<open>connect_timeout\<close> key in a connection string.\<close>

fun skip_quoted :: "string \<Rightarrow> string" where
  "skip_quoted [] = []"
| "skip_quoted [c] = []"
| "skip_quoted (c # d # cs) =
     (if c = CHR 0x5C then skip_quoted cs else if c = CHR 0x27 then d # cs else skip_quoted (d # cs))"

lemma skip_quoted_le: "length (skip_quoted s) \<le> length s"
  by (induction s rule: skip_quoted.induct) auto

definition conn_blank :: "char \<Rightarrow> bool" where
  "conn_blank c \<longleftrightarrow> c = CHR '' '' \<or> c = CHR 0x09"

definition key_char :: "char \<Rightarrow> bool" where
  "key_char c \<longleftrightarrow> c \<noteq> CHR ''='' \<and> c \<noteq> CHR '' ''"

function has_connect_timeout :: "string \<Rightarrow> bool" where
  "has_connect_timeout ci =
     (let t = dropWhile conn_blank ci in
      if t = [] then False
      else let key = takeWhile key_char t; r = dropWhile key_char t in
        if r = [] \<or> hd r \<noteq> CHR ''='' then False
        else let r1 = tl r;
                 r2 = (if r1 \<noteq> [] \<and> hd r1 = CHR 0x27 then skip_quoted (tl r1)
                       else dropWhile (\<lambda>c. \<not> conn_blank c) r1)
          in if key = ''connect_timeout'' then True else has_connect_timeout r2)"
  by pat_completeness auto
termination
proof (relation "measure length", simp, goal_cases)
  case (1 ci t key r r1 r2)
  have "length r2 \<le> length r1"
    using 1(7) skip_quoted_le [of "tl r1"] length_dropWhile_le [of "\<lambda>c. \<not> conn_blank c" r1]
    by (cases r1) (auto split: if_splits)
  moreover have "length r1 < length r" using 1(5,6) by (cases r) auto
  moreover have "length r \<le> length ci"
    using 1 length_dropWhile_le [of key_char t] length_dropWhile_le [of conn_blank ci] by simp
  ultimately show ?case by simp
qed

declare has_connect_timeout.simps [simp del]

text \<open>\<^verbatim>\<open>conninfo_with_to\<close>; the budget is in milliseconds, at least one second is requested.\<close>

definition connect_budget_ms :: "int \<Rightarrow> int" where
  "connect_budget_ms timeout = (if timeout \<le> 0 then 5000 else timeout)"

definition conninfo_with_timeout :: "int \<Rightarrow> string \<Rightarrow> string" where
  "conninfo_with_timeout budget ci =
     (if has_connect_timeout ci then ci
      else let secs = budget div 1000; secs = (if secs \<le> 0 then 1 else secs)
           in ci @ '' connect_timeout='' @ show_int secs)"

datatype poll_status = PollReading | PollWriting | PollOk | PollFailed

text \<open>
  One round of the handshake: whether the socket could be watched before it, a cancellation after
  the wait, the deadline timer (with the elapsed milliseconds), and the outcome of \<^verbatim>\<open>PQconnectPoll\<close>.
\<close>

record hs_round =
  hs_watched :: bool
  hs_cancel :: bool
  hs_fired :: "int option"
  hs_poll :: poll_status
  hs_error :: string

fun handshake :: "hs_round list \<Rightarrow> poll_status \<Rightarrow> string option async" where
  "handshake rs st =
     (if st = PollOk then Finished None
      else case rs of
          [] \<Rightarrow> Parked
        | e # es \<Rightarrow>
            if \<not> hs_watched e then Finished (Some ''PQsocket < 0'')
            else if hs_cancel e then Finished (Some ''connect canceled'')
            else (case hs_fired e of
                Some ms \<Rightarrow> Finished (Some (''connect timeout after '' @ show_int ms @ '' ms''))
              | None \<Rightarrow>
                  if hs_poll e = PollFailed then Finished (Some (hs_error e))
                  else handshake es (hs_poll e)))"

declare handshake.simps [simp del]

text \<open>
  \<^verbatim>\<open>connect_async\<close>: \<open>start\<close> is \<^verbatim>\<open>PQconnectStart\<close> (null, or the connection with its error text if it is
  already bad), \<open>nonblocking\<close> the success of \<^verbatim>\<open>PQsetnonblocking\<close>, \<open>watched\<close> the last \<^verbatim>\<open>watch_socket\<close>.
\<close>

definition connect_fail :: "string \<Rightarrow> 'c conn \<Rightarrow> string option \<times> 'c conn" where
  "connect_fail err c = (Some err, c\<lparr>cn_sock := False, cn_pq := None, cn_connected := False\<rparr>)"

definition connect_async ::
  "(string \<Rightarrow> ('c \<times> string option) option) \<Rightarrow> bool \<Rightarrow> hs_round list \<Rightarrow> bool \<Rightarrow> int \<Rightarrow> string
    \<Rightarrow> 'c conn \<Rightarrow> (string option \<times> 'c conn) async" where
  "connect_async start nonblocking rs watched timeout conninfo c =
     (let ci = conninfo_with_timeout (connect_budget_ms timeout) conninfo in
      case start ci of
        None \<Rightarrow> Finished (Some ''PQconnectStart failed'', c\<lparr>cn_pq := None\<rparr>)
      | Some (p, bad) \<Rightarrow>
          (let c = c\<lparr>cn_pq := Some p\<rparr> in
           case bad of
             Some msg \<Rightarrow> Finished (connect_fail msg c)
           | None \<Rightarrow>
               if \<not> nonblocking then Finished (connect_fail ''PQsetnonblocking failed'' c)
               else (case handshake rs PollWriting of
                   Parked \<Rightarrow> Parked
                 | Stuck \<Rightarrow> Stuck
                 | Finished (Some err) \<Rightarrow> Finished (connect_fail err c)
                 | Finished None \<Rightarrow>
                     if \<not> watched then Finished (connect_fail ''PQsocket < 0'' c)
                     else Finished (None, c\<lparr>cn_connected := True, cn_sock := True\<rparr>))))"

section \<open>COPY IN\<close>

definition copy_failure :: "PgErrorCode \<Rightarrow> string \<Rightarrow> PgCopyResult" where
  "copy_failure code msg = empty_copy\<lparr>cr_ok := False, cr_code := code, cr_error := msg\<rparr>"

definition copy_ok :: PgCopyResult where
  "copy_ok = empty_copy\<lparr>cr_ok := True, cr_code := OK\<rparr>"

text \<open>\<^verbatim>\<open>copy_in_start\<close> (\<open>want\<close> = \<^verbatim>\<open>PGRES_COPY_IN\<close>) and \<^verbatim>\<open>copy_out_start\<close> (\<^verbatim>\<open>PGRES_COPY_OUT\<close>).\<close>

definition copy_start ::
  "'c libpq \<Rightarrow> ExecStatus \<Rightarrow> string \<Rightarrow> 'c wake list \<Rightarrow> 'c conn
    \<Rightarrow> (PgCopyResult \<times> 'c conn \<times> 'c wake list) async" where
  "copy_start L want sql ws c =
     (case (if connected L c then cn_pq c else None) of
        None \<Rightarrow> Finished (copy_failure ConnectionClosed ''connection not OK'', c, ws)
      | Some p \<Rightarrow>
          (case pq_send_query L sql p of (sent, p') \<Rightarrow>
             let c = c\<lparr>cn_pq := Some p'\<rparr> in
             if \<not> sent
             then Finished (copy_failure SocketReadFailed (pq_error L p'), c\<lparr>cn_connected := False\<rparr>, ws)
             else (case round_trip_input L ws c of
                 Parked \<Rightarrow> Parked | Stuck \<Rightarrow> Stuck
               | Finished (ok, c', ws') \<Rightarrow>
                   if \<not> ok
                   then Finished (copy_failure SocketReadFailed (io_error_message L c'),
                                  c'\<lparr>cn_connected := False\<rparr>, ws')
                   else (case cn_pq c' of
                       None \<Rightarrow> Finished (copy_failure ProtocolCorrupt ''no result after COPY start'', c', ws')
                     | Some p2 \<Rightarrow>
                         (case pq_get_result L p2 of
                            (None, p3) \<Rightarrow>
                              Finished (copy_failure ProtocolCorrupt ''no result after COPY start'',
                                        c'\<lparr>cn_pq := Some p3\<rparr>, ws')
                          | (Some res, p3) \<Rightarrow>
                              Finished (if rs_status res = want then copy_ok
                                        else fill_copy_error res empty_copy,
                                        c'\<lparr>cn_pq := Some p3\<rparr>, ws'))))))"

text \<open>
  The loop around \<^verbatim>\<open>PQputCopyData\<close> / \<^verbatim>\<open>PQputCopyEnd\<close>: \<open>Inr\<close> when the data was queued, \<open>Inl\<close> the failure.
\<close>

partial_function (option) put_loop ::
  "'c libpq \<Rightarrow> ('c \<Rightarrow> int \<times> 'c) \<Rightarrow> 'c wake list \<Rightarrow> 'c conn
    \<Rightarrow> ((PgCopyResult + unit) \<times> 'c conn \<times> 'c wake list) async option" where
  "put_loop L put ws c =
     (case cn_pq c of
        None \<Rightarrow> Some (Finished (Inl (copy_failure SocketReadFailed []), c\<lparr>cn_connected := False\<rparr>, ws))
      | Some p \<Rightarrow>
          (case put p of (rc, p') \<Rightarrow>
             let c = c\<lparr>cn_pq := Some p'\<rparr> in
             if rc = 1 then Some (Finished (Inr (), c, ws))
             else if rc < 0
             then Some (Finished (Inl (copy_failure SocketReadFailed (pq_error L p')), c\<lparr>cn_connected := False\<rparr>, ws))
             else (case flush_outgoing L ws c of
                 Parked \<Rightarrow> Some Parked | Stuck \<Rightarrow> Some Stuck
               | Finished (ok, c', ws') \<Rightarrow>
                   if \<not> ok
                   then Some (Finished (Inl (copy_failure SocketReadFailed (io_error_message L c')),
                                        c'\<lparr>cn_connected := False\<rparr>, ws'))
                   else put_loop L put ws' c')))"

text \<open>\<^verbatim>\<open>static_cast<int>(len)\<close>.\<close>

definition copy_len :: "bytes \<Rightarrow> int" where
  "copy_len d = signed_take_bit 31 (int (length d))"

definition copy_in_send_chunk ::
  "'c libpq \<Rightarrow> bytes \<Rightarrow> 'c wake list \<Rightarrow> 'c conn \<Rightarrow> (PgCopyResult \<times> 'c conn \<times> 'c wake list) async" where
  "copy_in_send_chunk L d ws c =
     (if \<not> connected L c then Finished (copy_failure ConnectionClosed ''connection not OK'', c, ws)
      else case put_loop L (pq_put_copy_data L d (copy_len d)) ws c of
          None \<Rightarrow> Stuck
        | Some r \<Rightarrow> map_async (\<lambda>x. case x of Inl e \<Rightarrow> e | Inr _ \<Rightarrow> copy_ok) r)"

text \<open>\<^verbatim>\<open>drain_copy_end_result\<close>: the results that are ready are folded into one.\<close>

definition absorb_copy :: "pg_result \<Rightarrow> PgCopyResult \<Rightarrow> PgCopyResult" where
  "absorb_copy res out =
     (if rs_status res = PGRES_COMMAND_OK
      then (if cr_ok out then out\<lparr>cr_rows_affected := cr_rows_affected out + extract_rows_affected res\<rparr>
            else out)
      else fill_copy_error res empty_copy)"

partial_function (option) drain_copy_results ::
  "'c libpq \<Rightarrow> 'c \<Rightarrow> PgCopyResult \<Rightarrow> (PgCopyResult \<times> 'c) option" where
  "drain_copy_results L p out =
     (if pq_busy L p then Some (out, p)
      else case pq_get_result L p of
          (None, p') \<Rightarrow> Some (out, p')
        | (Some res, p') \<Rightarrow> drain_copy_results L p' (absorb_copy res out))"

definition copy_in_finish ::
  "'c libpq \<Rightarrow> string option \<Rightarrow> 'c wake list \<Rightarrow> 'c conn \<Rightarrow> (PgCopyResult \<times> 'c conn \<times> 'c wake list) async" where
  "copy_in_finish L error_msg ws c =
     (if \<not> connected L c then Finished (copy_failure ConnectionClosed ''connection not OK'', c, ws)
      else case put_loop L (pq_put_copy_end L error_msg) ws c of
          None \<Rightarrow> Stuck | Some Parked \<Rightarrow> Parked | Some Stuck \<Rightarrow> Stuck
        | Some (Finished (Inl e, c1, ws1)) \<Rightarrow> Finished (e, c1, ws1)
        | Some (Finished (Inr _, c1, ws1)) \<Rightarrow>
            (case round_trip_input L ws1 c1 of
               Parked \<Rightarrow> Parked | Stuck \<Rightarrow> Stuck
             | Finished (ok, c2, ws2) \<Rightarrow>
                 if \<not> ok
                 then Finished (copy_failure SocketReadFailed (io_error_message L c2),
                                c2\<lparr>cn_connected := False\<rparr>, ws2)
                 else (case cn_pq c2 of
                     None \<Rightarrow> Finished (copy_ok, c2, ws2)
                   | Some p \<Rightarrow>
                       (case drain_copy_results L p copy_ok of
                          None \<Rightarrow> Stuck
                        | Some (out, p') \<Rightarrow> Finished (out, c2\<lparr>cn_pq := Some p'\<rparr>, ws2)))))"

text \<open>The source of \<^verbatim>\<open>copy_from\<close> yields one chunk after the other, an empty one at the end.\<close>

partial_function (option) copy_from_loop ::
  "'c libpq \<Rightarrow> ('s \<Rightarrow> bytes \<times> 's) \<Rightarrow> 's \<Rightarrow> 'c wake list \<Rightarrow> 'c conn
    \<Rightarrow> (PgCopyResult \<times> 'c conn \<times> 'c wake list) async option" where
  "copy_from_loop L src s ws c =
     (case src s of (d, s') \<Rightarrow>
        if d = [] then Some (copy_in_finish L None ws c)
        else (case copy_in_send_chunk L d ws c of
            Parked \<Rightarrow> Some Parked | Stuck \<Rightarrow> Some Stuck
          | Finished (send, c', ws') \<Rightarrow>
              if \<not> cr_ok send
              then Some (case copy_in_finish L (Some ''aborted: send chunk failed'') ws' c' of
                  Parked \<Rightarrow> Parked | Stuck \<Rightarrow> Stuck
                | Finished (_, c'', ws'') \<Rightarrow> Finished (send, c'', ws''))
              else copy_from_loop L src s' ws' c'))"

definition copy_from ::
  "'c libpq \<Rightarrow> string \<Rightarrow> ('s \<Rightarrow> bytes \<times> 's) \<Rightarrow> 's \<Rightarrow> 'c wake list \<Rightarrow> 'c conn
    \<Rightarrow> (PgCopyResult \<times> 'c conn \<times> 'c wake list) async" where
  "copy_from L sql src s ws c =
     (case copy_start L PGRES_COPY_IN sql ws c of
        Parked \<Rightarrow> Parked | Stuck \<Rightarrow> Stuck
      | Finished (start, c', ws') \<Rightarrow>
          if \<not> cr_ok start then Finished (start, c', ws')
          else (case copy_from_loop L src s ws' c' of None \<Rightarrow> Stuck | Some r \<Rightarrow> r))"

definition copy_from_buffer ::
  "'c libpq \<Rightarrow> string \<Rightarrow> bytes \<Rightarrow> 'c wake list \<Rightarrow> 'c conn
    \<Rightarrow> (PgCopyResult \<times> 'c conn \<times> 'c wake list) async" where
  "copy_from_buffer L sql d ws c =
     (case copy_start L PGRES_COPY_IN sql ws c of
        Parked \<Rightarrow> Parked | Stuck \<Rightarrow> Stuck
      | Finished (start, c', ws') \<Rightarrow>
          if \<not> cr_ok start then Finished (start, c', ws')
          else if d = [] then copy_in_finish L None ws' c'
          else (case copy_in_send_chunk L d ws' c' of
              Parked \<Rightarrow> Parked | Stuck \<Rightarrow> Stuck
            | Finished (send, c2, ws2) \<Rightarrow>
                if \<not> cr_ok send
                then (case copy_in_finish L (Some ''aborted: send chunk failed'') ws2 c2 of
                    Parked \<Rightarrow> Parked | Stuck \<Rightarrow> Stuck
                  | Finished (_, c3, ws3) \<Rightarrow> Finished (send, c3, ws3))
                else copy_in_finish L None ws2 c2))"


section \<open>COPY OUT\<close>

text \<open>\<^verbatim>\<open>while (PGresult *extra = PQgetResult(conn_)) PQclear(extra);\<close>\<close>

partial_function (option) drain_all_results :: "'c libpq \<Rightarrow> 'c \<Rightarrow> 'c option" where
  "drain_all_results L p =
     (case pq_get_result L p of
        (None, p') \<Rightarrow> Some p'
      | (Some res, p') \<Rightarrow> drain_all_results L p')"

text \<open>\<open>Inl\<close> the error, \<open>Inr []\<close> the end of the data, \<open>Inr\<close> a chunk otherwise.\<close>

fun copy_out_read_chunk ::
  "'c libpq \<Rightarrow> 'c wake list \<Rightarrow> 'c conn \<Rightarrow> ((PgWireError + bytes) \<times> 'c conn \<times> 'c wake list) async" where
  "copy_out_read_chunk L ws c =
     (let fail = (\<lambda>code msg. Inl \<lparr>we_code = code, we_message = msg\<rparr>) in
      case cn_pq c of
        None \<Rightarrow> Finished (fail SocketReadFailed [], c\<lparr>cn_connected := False\<rparr>, ws)
      | Some p \<Rightarrow>
          (case pq_get_copy_data L p of (rc, buf, p1) \<Rightarrow>
             let c1 = c\<lparr>cn_pq := Some p1\<rparr> in
             if rc > 0 then Finished (Inr (take (nat rc) buf), c1, ws)
             else if rc = 0
             then (case ws of
                 [] \<Rightarrow> Parked
               | w # ws' \<Rightarrow>
                   (let c2 = do_wait w c1 in
                    if cn_io_timed_out c2
                    then Finished (fail SocketReadFailed (io_error_message L c2), c2, ws')
                    else if wk_cancel w
                    then Finished (fail AwaitCanceled ''canceled'', c2\<lparr>cn_connected := False\<rparr>, ws')
                    else (case cn_pq c2 of
                        None \<Rightarrow> Finished (fail SocketReadFailed [], c2\<lparr>cn_connected := False\<rparr>, ws')
                      | Some p2 \<Rightarrow>
                          (case pq_consume_input L p2 of (ok, p3) \<Rightarrow>
                             let c3 = c2\<lparr>cn_pq := Some p3\<rparr> in
                             if \<not> ok
                             then Finished (fail SocketReadFailed (pq_error L p3), c3\<lparr>cn_connected := False\<rparr>, ws')
                             else copy_out_read_chunk L ws' c3))))
             else if rc = - 1
             then (case pq_get_result L p1 of
                 (None, p2) \<Rightarrow>
                   Finished (fail ProtocolCorrupt ''COPY OUT ended but no result'', c1\<lparr>cn_pq := Some p2\<rparr>, ws)
               | (Some res, p2) \<Rightarrow>
                   (case drain_all_results L p2 of
                      None \<Rightarrow> Stuck
                    | Some p3 \<Rightarrow>
                        let ok = (rs_status res = PGRES_COMMAND_OK \<or> rs_status res = PGRES_TUPLES_OK);
                            err = fill_copy_error res empty_copy
                        in Finished (if ok then Inr [] else fail (cr_code err) (cr_error err),
                                     c1\<lparr>cn_pq := Some p3\<rparr>, ws)))
             else Finished (fail SocketReadFailed (pq_error L p1), c1\<lparr>cn_connected := False\<rparr>, ws)))"

declare copy_out_read_chunk.simps [simp del]

text \<open>The guard of \<^verbatim>\<open>copy_out_read_chunk\<close>.\<close>

definition read_chunk ::
  "'c libpq \<Rightarrow> 'c wake list \<Rightarrow> 'c conn \<Rightarrow> ((PgWireError + bytes) \<times> 'c conn \<times> 'c wake list) async" where
  "read_chunk L ws c =
     (if \<not> connected L c
      then Finished (Inl \<lparr>we_code = ConnectionClosed, we_message = ''connection not OK''\<rparr>, c, ws)
      else copy_out_read_chunk L ws c)"

text \<open>The loop of \<^verbatim>\<open>copy_to\<close>: after the sink refused a chunk the rest of the data is read and dropped.\<close>

partial_function (option) copy_to_loop ::
  "'c libpq \<Rightarrow> ('s \<Rightarrow> string \<Rightarrow> bool \<times> 's) \<Rightarrow> bool \<Rightarrow> 's \<Rightarrow> 'c wake list \<Rightarrow> 'c conn
    \<Rightarrow> (PgCopyResult \<times> 's \<times> 'c conn \<times> 'c wake list) async option" where
  "copy_to_loop L sink aborted s ws c =
     (case read_chunk L ws c of
        Parked \<Rightarrow> Some Parked | Stuck \<Rightarrow> Some Stuck
      | Finished (Inl e, c', ws') \<Rightarrow>
          Some (Finished (copy_ok\<lparr>cr_ok := False, cr_code := we_code e, cr_error := we_message e\<rparr>, s, c', ws'))
      | Finished (Inr d, c', ws') \<Rightarrow>
          if d = []
          then Some (Finished (if aborted
                     then copy_ok\<lparr>cr_ok := False, cr_code := AwaitCanceled, cr_error := ''COPY TO aborted by sink''\<rparr>
                     else copy_ok, s, c', ws'))
          else if aborted then copy_to_loop L sink True s ws' c'
          else (case sink s (string_of_bytes d) of (keep, s') \<Rightarrow>
              copy_to_loop L sink (\<not> keep) s' ws' c'))"

definition copy_to ::
  "'c libpq \<Rightarrow> string \<Rightarrow> ('s \<Rightarrow> string \<Rightarrow> bool \<times> 's) \<Rightarrow> 's \<Rightarrow> 'c wake list \<Rightarrow> 'c conn
    \<Rightarrow> (PgCopyResult \<times> 's \<times> 'c conn \<times> 'c wake list) async" where
  "copy_to L sql sink s ws c =
     (case copy_start L PGRES_COPY_OUT sql ws c of
        Parked \<Rightarrow> Parked | Stuck \<Rightarrow> Stuck
      | Finished (start, c', ws') \<Rightarrow>
          if \<not> cr_ok start then Finished (start, s, c', ws')
          else (case copy_to_loop L sink False s ws' c' of None \<Rightarrow> Stuck | Some r \<Rightarrow> r))"

section \<open>Lines\<close>

text \<open>
  \<^verbatim>\<open>chunk_sink\<close> of \<^verbatim>\<open>copy_to_lines\<close> on the part of a chunk that is left: whether to go on, the new
  \<^verbatim>\<open>carry\<close>, and the user state. The line is \<open>carry\<close> followed by the text before the newline.
\<close>

lemma find_char_less: "find_char c s = Some k \<Longrightarrow> k < length s"
  by (induction s arbitrary: k) (auto split: if_splits)

function chunk_sink :: "('s \<Rightarrow> string \<Rightarrow> bool \<times> 's) \<Rightarrow> string \<times> 's \<Rightarrow> string \<Rightarrow> bool \<times> string \<times> 's" where
  "chunk_sink line_sink (carry, s) sv =
     (if sv = [] then (True, carry, s)
      else case find_char (CHR 0x0A) sv of
          None \<Rightarrow> (True, carry @ sv, s)
        | Some nl \<Rightarrow>
            (case line_sink s (carry @ take nl sv) of (keep, s') \<Rightarrow>
               if \<not> keep then (False, [], s')
               else chunk_sink line_sink ([], s') (drop (Suc nl) sv)))"
  by pat_completeness auto
termination
  by (relation "measure (\<lambda>(f, st, sv). length sv)") (auto dest: find_char_less)

declare chunk_sink.simps [simp del]

definition copy_to_lines ::
  "'c libpq \<Rightarrow> string \<Rightarrow> ('s \<Rightarrow> string \<Rightarrow> bool \<times> 's) \<Rightarrow> 's \<Rightarrow> 'c wake list \<Rightarrow> 'c conn
    \<Rightarrow> (PgCopyResult \<times> 's \<times> 'c conn \<times> 'c wake list) async" where
  "copy_to_lines L sql line_sink s ws c =
     (case copy_to L sql (\<lambda>(carry, s) sv. chunk_sink line_sink (carry, s) sv) ([], s) ws c of
        Parked \<Rightarrow> Parked | Stuck \<Rightarrow> Stuck
      | Finished (r, (carry, s'), c', ws') \<Rightarrow>
          if cr_ok r \<and> carry \<noteq> []
          then (case line_sink s' carry of (keep, s'') \<Rightarrow>
              Finished (if keep then r
                        else r\<lparr>cr_ok := False, cr_code := AwaitCanceled, cr_error := ''COPY TO aborted by sink''\<rparr>,
                        s'', c', ws'))
          else Finished (r, s', c', ws'))"

section \<open>Facts on lines\<close>

text \<open>The lines of a text: the newline-terminated ones and the rest behind the last newline.\<close>

fun split_lines :: "string \<Rightarrow> string list \<times> string" where
  "split_lines [] = ([], [])"
| "split_lines (c # s) =
     (case split_lines s of (ls, r) \<Rightarrow>
        if c = CHR 0x0A then ([] # ls, r)
        else (case ls of [] \<Rightarrow> ([], c # r) | l # ls' \<Rightarrow> ((c # l) # ls', r)))"

lemma split_lines_no_newline: "CHR 0x0A \<notin> set s \<Longrightarrow> split_lines s = ([], s)"
  by (induction s) auto

lemma split_lines_newline:
  "CHR 0x0A \<notin> set l \<Longrightarrow> split_lines (l @ CHR 0x0A # s) = (l # fst (split_lines s), snd (split_lines s))"
  by (induction l) (auto simp: case_prod_unfold)

lemma find_char_Some: "find_char c s = Some k \<Longrightarrow> s = take k s @ c # drop (Suc k) s \<and> c \<notin> set (take k s)"
  by (induction s arbitrary: k) (auto split: if_splits)

lemma find_char_None: "find_char c s = None \<Longrightarrow> c \<notin> set s"
  by (induction s) (auto split: if_splits)

text \<open>A user sink that never refuses sees the lines one after the other.\<close>

definition feed :: "('s \<Rightarrow> string \<Rightarrow> bool \<times> 's) \<Rightarrow> string list \<Rightarrow> 's \<Rightarrow> 's" where
  "feed line_sink ls s = fold (\<lambda>l s. snd (line_sink s l)) ls s"

lemma chunk_sink_lines:
  "\<forall>s l. fst (line_sink s l) \<Longrightarrow> CHR 0x0A \<notin> set carry \<Longrightarrow>
   chunk_sink line_sink (carry, s) sv =
     (True, snd (split_lines (carry @ sv)), feed line_sink (fst (split_lines (carry @ sv))) s)"
proof (induction line_sink "(carry, s)" sv arbitrary: carry s rule: chunk_sink.induct)
  case (1 line_sink carry s sv)
  show ?case
  proof (cases "sv = []")
    case True
    with 1 show ?thesis by (simp add: chunk_sink.simps split_lines_no_newline feed_def)
  next
    case ne: False
    show ?thesis
    proof (cases "find_char (CHR 0x0A) sv")
      case None
      with find_char_None [OF None] 1 ne show ?thesis
        by (simp add: chunk_sink.simps split_lines_no_newline feed_def)
    next
      case (Some nl)
      let ?l = "carry @ take nl sv" and ?r = "drop (Suc nl) sv"
      obtain s' where s': "line_sink s ?l = (True, s')" using "1.prems"(1) by (metis prod.collapse)
      have sv: "carry @ sv = ?l @ CHR 0x0A # ?r" "CHR 0x0A \<notin> set ?l"
        using find_char_Some [OF Some] "1.prems"(2) by (simp_all add: append.assoc [symmetric] del: append.assoc)
      have "chunk_sink line_sink (carry, s) sv = chunk_sink line_sink ([], s') ?r"
        using ne Some s' by (simp add: chunk_sink.simps [of line_sink carry])
      also have "\<dots> = (True, snd (split_lines ?r), feed line_sink (fst (split_lines ?r)) s')"
        using "1.hyps" [OF ne Some, of True s'] s' "1.prems"(1) by simp
      finally show ?thesis
        using s' by (simp only: sv(1) split_lines_newline [OF sv(2)]) (simp add: feed_def)
    qed
  qed
qed


section \<open>Facts on connection strings\<close>

lemma skip_quoted_escape:
  "skip_quoted (escape_with special_conn_char (CHR 0x5C) v @ CHR 0x27 # rest) = rest"
proof (induction v)
  case Nil
  show ?case by (cases rest) auto
next
  case (Cons c v)
  have "\<exists>d cs. escape_with special_conn_char (CHR 0x5C) v @ CHR 0x27 # rest = d # cs"
    by (cases "escape_with special_conn_char (CHR 0x5C) v") auto
  then obtain d cs where "escape_with special_conn_char (CHR 0x5C) v @ CHR 0x27 # rest = d # cs" by blast
  with Cons show ?case
    by (cases "special_conn_char c") (use special_conn_char_def [of c] in auto)
qed

lemma key_ok_key_char: "key_ok k \<Longrightarrow> \<forall>c \<in> set k. key_char c \<and> \<not> conn_blank c"
  by (auto simp: key_ok_def list_all_iff is_lower_def key_char_def conn_blank_def ord_def)

lemma has_connect_timeout_key:
  assumes "key_ok k" "list_all conn_blank sp"
  shows "has_connect_timeout (sp @ k @ CHR ''='' # r1) \<longleftrightarrow>
     k = ''connect_timeout''
     \<or> has_connect_timeout (if r1 \<noteq> [] \<and> hd r1 = CHR 0x27 then skip_quoted (tl r1)
                             else dropWhile (\<lambda>c. \<not> conn_blank c) r1)"
proof -
  obtain x xs where k: "k = x # xs" using assms(1) by (cases k) (auto simp: key_ok_def)
  have t: "dropWhile conn_blank (sp @ k @ CHR ''='' # r1) = k @ CHR ''='' # r1"
    using assms(2) key_ok_key_char [OF assms(1)] by (simp add: k list_all_iff dropWhile_append2)
  have tw: "takeWhile key_char (k @ CHR ''='' # r1) = k"
    using key_ok_key_char [OF assms(1)] by (simp add: takeWhile_append2 key_char_def)
  have dw: "dropWhile key_char (k @ CHR ''='' # r1) = CHR ''='' # r1"
    using key_ok_key_char [OF assms(1)] by (simp add: dropWhile_append2 key_char_def)
  have ne: "k @ CHR ''='' # r1 \<noteq> []" by simp
  show ?thesis
    by (subst has_connect_timeout.simps) (simp only: Let_def t tw dw ne list.sel list.distinct if_False if_True simp_thms, simp)
qed

lemma has_connect_timeout_pairs:
  assumes "list_all (\<lambda>p. key_ok (fst p)) ps" "list_all conn_blank sp"
    and "\<And>sp. list_all conn_blank sp \<Longrightarrow> has_connect_timeout (sp @ rest) = b"
  shows "has_connect_timeout (sp @ enc_pairs ps @ rest) \<longleftrightarrow> ''connect_timeout'' \<in> fst ` set ps \<or> b"
  using assms(1,2)
proof (induction ps arbitrary: sp)
  case Nil
  then show ?case by (simp add: enc_pairs_def assms(3))
next
  case (Cons p ps)
  obtain k v where p: "p = (k, v)" by (cases p)
  let ?tl = "(if ps = [] then [] else '' '' @ enc_pairs ps) @ rest"
  have e: "enc_pairs (p # ps) @ rest = k @ CHR ''='' # conn_value v @ ?tl"
    by (simp add: enc_pairs_def join_with_Cons p)
  have tl: "has_connect_timeout ?tl \<longleftrightarrow> ''connect_timeout'' \<in> fst ` set ps \<or> b"
    using Cons.IH [of "'' ''"] Cons.prems(1) assms(3) [of "[]"] by (simp add: conn_blank_def)
  have "skip_quoted (tl (conn_value v @ ?tl)) = ?tl"
    using skip_quoted_escape [of v ?tl] by (simp add: conn_value_def)
  moreover have "conn_value v @ ?tl \<noteq> [] \<and> hd (conn_value v @ ?tl) = CHR 0x27"
    by (simp add: conn_value_def)
  ultimately have "has_connect_timeout (sp @ enc_pairs (p # ps) @ rest)
      \<longleftrightarrow> k = ''connect_timeout'' \<or> has_connect_timeout ?tl"
    using has_connect_timeout_key [of k sp "conn_value v @ ?tl"] Cons.prems by (simp only: e) (simp add: p)
  then show ?case unfolding tl by (auto simp: p)
qed

lemma has_connect_timeout_blank: "list_all conn_blank sp \<Longrightarrow> \<not> has_connect_timeout sp"
  by (subst has_connect_timeout.simps) (auto simp: Let_def list_all_iff)

lemma conninfo_with_timeout_pairs:
  assumes "list_all (\<lambda>p. key_ok (fst p)) ps"
  shows "has_connect_timeout (enc_pairs ps) \<longleftrightarrow> ''connect_timeout'' \<in> fst ` set ps"
    and "has_connect_timeout (conninfo_with_timeout budget (enc_pairs ps))"
proof -
  have b: "list_all conn_blank sp \<Longrightarrow> has_connect_timeout (sp @ []) = False" for sp
    by (simp add: has_connect_timeout_blank)
  show 1: "has_connect_timeout (enc_pairs ps) \<longleftrightarrow> ''connect_timeout'' \<in> fst ` set ps"
    using has_connect_timeout_pairs [OF assms, of "[]" "[]" False] b by simp
  have ok: "key_ok ''connect_timeout''" by code_simp
  have c: "has_connect_timeout (sp @ '' connect_timeout='' @ secs) = True" if "list_all conn_blank sp" for sp secs
    using has_connect_timeout_key [OF ok, of "sp @ '' ''" secs] that by (simp add: conn_blank_def)
  show "has_connect_timeout (conninfo_with_timeout budget (enc_pairs ps))"
    using has_connect_timeout_pairs [OF assms, of "[]" "'' connect_timeout='' @ _" True] c 1
    by (simp add: conninfo_with_timeout_def Let_def)
qed

lemma make_conninfo_pairs:
  "make_conninfo ip4 ip6 host port user dbname password ssl ka = Inr ci \<Longrightarrow>
   ci = enc_pairs (conn_pairs ip4 ip6 host port user dbname password ssl ka)"
  using add_value_fold [OF conn_pairs_keys, where qs = "[]"]
  by (auto simp: make_conninfo_fold enc_pairs_def split: if_splits)

section \<open>Facts on COPY IN\<close>

text \<open>The length handed to \<^verbatim>\<open>PQputCopyData\<close> is exact below 2 GiB; a buffer of exactly 4 GiB is announced as empty.\<close>

lemma copy_len_exact: "length d < 2 ^ 31 \<Longrightarrow> copy_len d = int (length d)"
  by (simp add: copy_len_def signed_take_bit_int_eq_self)

lemma copy_len_wraps: "length d = 2 ^ 32 \<Longrightarrow> copy_len d = 0"
  by (simp add: copy_len_def signed_take_bit_eq_if_positive)

section \<open>Facts on COPY OUT\<close>

text \<open>
  The chunks that the remaining reads of a COPY OUT deliver until its end, and the connection and
  wakes behind it.
\<close>

inductive copy_data ::
  "'c libpq \<Rightarrow> 'c wake list \<Rightarrow> 'c conn \<Rightarrow> bytes list \<Rightarrow> 'c wake list \<Rightarrow> 'c conn \<Rightarrow> bool" for L where
  data_end: "read_chunk L ws c = Finished (Inr [], c', ws') \<Longrightarrow> copy_data L ws c [] ws' c'"
| data_more: "read_chunk L ws c = Finished (Inr d, c1, ws1) \<Longrightarrow> d \<noteq> [] \<Longrightarrow> copy_data L ws1 c1 ds ws' c'
    \<Longrightarrow> copy_data L ws c (d # ds) ws' c'"

text \<open>What a sink makes of the chunks, with the flag that it refused one.\<close>

fun sink_run :: "('s \<Rightarrow> string \<Rightarrow> bool \<times> 's) \<Rightarrow> string list \<Rightarrow> 's \<Rightarrow> bool \<times> 's" where
  "sink_run sink [] s = (True, s)"
| "sink_run sink (d # ds) s =
     (case sink s d of (keep, s') \<Rightarrow> if keep then sink_run sink ds s' else (False, s'))"

lemma copy_to_loop_aborted:
  "copy_data L ws c ds ws' c' \<Longrightarrow>
   copy_to_loop L sink True s ws c
     = Some (Finished (copy_ok\<lparr>cr_ok := False, cr_code := AwaitCanceled, cr_error := ''COPY TO aborted by sink''\<rparr>,
                       s, c', ws'))"
  by (induction rule: copy_data.induct) (simp_all add: copy_to_loop.simps [of L sink True s])

lemma copy_to_loop_data:
  "copy_data L ws c ds ws' c' \<Longrightarrow>
   copy_to_loop L sink False s ws c =
     (case sink_run sink (map string_of_bytes ds) s of (keep, s') \<Rightarrow>
        Some (Finished (if keep then copy_ok
                        else copy_ok\<lparr>cr_ok := False, cr_code := AwaitCanceled, cr_error := ''COPY TO aborted by sink''\<rparr>,
                        s', c', ws')))"
proof (induction arbitrary: s rule: copy_data.induct)
  case (data_end ws c c' ws')
  then show ?case by (simp add: copy_to_loop.simps [of L sink False s])
next
  case (data_more ws c d c1 ws1 ds ws' c')
  obtain keep s' where k: "sink s (string_of_bytes d) = (keep, s')" by fastforce
  with data_more copy_to_loop_aborted [OF data_more(3)] show ?case
    by (cases keep) (simp_all add: copy_to_loop.simps [of L sink False s])
qed

lemma split_lines_rest: "CHR 0x0A \<notin> set (snd (split_lines s))"
  by (induction s) (auto simp: case_prod_unfold split: list.split)

lemma split_lines_append:
  "split_lines (a @ b) =
     (fst (split_lines a) @ fst (split_lines (snd (split_lines a) @ b)), snd (split_lines (snd (split_lines a) @ b)))"
  by (induction a) (auto simp: case_prod_unfold split: list.split)

lemma feed_append: "feed f (ls @ ls') s = feed f ls' (feed f ls s)"
  by (simp add: feed_def)

lemma sink_run_lines:
  "\<forall>s l. fst (line_sink s l) \<Longrightarrow> CHR 0x0A \<notin> set carry \<Longrightarrow>
   sink_run (chunk_sink line_sink) ds (carry, s) =
     (True, snd (split_lines (carry @ concat ds)), feed line_sink (fst (split_lines (carry @ concat ds))) s)"
proof (induction ds arbitrary: carry s)
  case Nil
  then show ?case by (simp add: split_lines_no_newline feed_def)
next
  case (Cons d ds)
  then show ?case
    using split_lines_append [of "carry @ d" "concat ds"]
    by (simp add: chunk_sink_lines split_lines_rest feed_append)
qed

text \<open>All lines of a text, a last one without newline included.\<close>

definition all_lines :: "string \<Rightarrow> string list" where
  "all_lines t = (case split_lines t of (ls, r) \<Rightarrow> if r = [] then ls else ls @ [r])"

section \<open>Properties\<close>

lemma connect_timeout_facts:
  assumes "make_conninfo ip4 ip6 host port user dbname password ssl ka = Inr ci"
  shows "\<not> has_connect_timeout ci"
    and "\<exists>secs > 0. conninfo_with_timeout (connect_budget_ms timeout) ci = ci @ '' connect_timeout='' @ show_int secs"
    and "conninfo_with_timeout budget' (conninfo_with_timeout (connect_budget_ms timeout) ci)
       = conninfo_with_timeout (connect_budget_ms timeout) ci"
proof -
  note ci = make_conninfo_pairs [OF assms]
  show no: "\<not> has_connect_timeout ci"
    using conninfo_with_timeout_pairs(1) [OF conn_pairs_keys]
    by (simp add: ci) (auto simp: conn_pairs_def Let_def split: option.splits if_splits)
  show "\<exists>secs > 0. conninfo_with_timeout (connect_budget_ms timeout) ci = ci @ '' connect_timeout='' @ show_int secs"
    using no by (cases "connect_budget_ms timeout div 1000 \<le> 0")
      (auto simp: conninfo_with_timeout_def Let_def intro: exI [of _ 1] exI [of _ "connect_budget_ms timeout div 1000"])
  show "conninfo_with_timeout budget' (conninfo_with_timeout (connect_budget_ms timeout) ci)
       = conninfo_with_timeout (connect_budget_ms timeout) ci"
    using conninfo_with_timeout_pairs(2) [OF conn_pairs_keys, of "connect_budget_ms timeout"]
    unfolding ci by (subst conninfo_with_timeout_def) simp
qed

text \<open>A connection string of \<^verbatim>\<open>make_conninfo\<close> never sets \<^verbatim>\<open>connect_timeout\<close> itself, whatever its values
  contain, and \<^verbatim>\<open>connect_async\<close> adds exactly one: applied to its own output the addition changes
  nothing. The added value is at least one second.\<close>

theorem connect_timeout_added_once:
  assumes "make_conninfo ip4 ip6 host port user dbname password ssl ka = Inr ci"
  shows "\<not> has_connect_timeout ci
    \<and> (\<exists>secs > 0. conninfo_with_timeout (connect_budget_ms timeout) ci = ci @ '' connect_timeout='' @ show_int secs)
    \<and> conninfo_with_timeout budget' (conninfo_with_timeout (connect_budget_ms timeout) ci)
       = conninfo_with_timeout (connect_budget_ms timeout) ci"
  using connect_timeout_facts [OF assms] by blast

definition plain_ssl :: SSLConfig where
  "plain_ssl = \<lparr>ssl_mode = ssl_prefer, ssl_root_cert = None, ssl_crl = None, ssl_client_cert = None,
     ssl_client_key = None, ssl_server_hostname = None\<rparr>"

definition no_keepalive :: TCPKeepaliveConfig where
  "no_keepalive = \<lparr>ka_enabled = False, ka_keepalives = 1, ka_idle = 30, ka_interval = 10, ka_count = 3\<rparr>"

theorem connect_timeout_added_once_witness:
  "\<exists>ci. make_conninfo (\<lambda>_. False) (\<lambda>_. False) ''db'' ''5432'' ''u'' ''d'' ''p connect_timeout=1''
         plain_ssl no_keepalive = Inr ci \<and> \<not> has_connect_timeout ci"
proof -
  obtain ci where ci: "make_conninfo (\<lambda>_. False) (\<lambda>_. False) ''db'' ''5432'' ''u'' ''d'' ''p connect_timeout=1''
         plain_ssl no_keepalive = Inr ci"
  proof -
    have "\<not> isl (make_conninfo (\<lambda>_. False) (\<lambda>_. False) ''db'' ''5432'' ''u'' ''d'' ''p connect_timeout=1''
         plain_ssl no_keepalive)" by code_simp
    then show ?thesis using that by (metis sum.collapse(2))
  qed
  with connect_timeout_added_once [OF ci] show ?thesis by blast
qed

text \<open>C38: a connect attempt either leaves a usable descriptor with no error or an error and no
  \<^verbatim>\<open>PGconn\<close>, it succeeds only after the handshake reported OK, and a round in which the deadline
  fires (or the socket is gone, or the task is cancelled) ends it.\<close>

theorem connect_async_outcome:
  assumes "\<exists>e \<in> set rs. hs_poll e = PollFailed \<or> \<not> hs_watched e \<or> hs_cancel e \<or> hs_fired e \<noteq> None"
  shows "\<exists>err c'. connect_async start nonblocking rs watched timeout conninfo c = Finished (err, c')
     \<and> (err = None \<longleftrightarrow> cn_pq c' \<noteq> None)
     \<and> (err = None \<longrightarrow> cn_connected c' \<and> cn_sock c' \<and> (\<exists>e \<in> set rs. hs_poll e = PollOk))"
proof -
  have hs: "\<exists>r. handshake rs st = Finished r
      \<and> (r = None \<longrightarrow> st = PollOk \<or> (\<exists>e \<in> set rs. hs_poll e = PollOk))" for st
    using assms
  proof (induction rs arbitrary: st)
    case (Cons e es)
    show ?case
    proof (cases "st = PollOk \<or> hs_poll e = PollFailed \<or> \<not> hs_watched e \<or> hs_cancel e \<or> hs_fired e \<noteq> None")
      case True
      then show ?thesis by (auto simp: handshake.simps [of "e # es"] split: option.split)
    next
      case False
      with Cons.prems have "\<exists>e \<in> set es. hs_poll e = PollFailed \<or> \<not> hs_watched e \<or> hs_cancel e \<or> hs_fired e \<noteq> None"
        by auto
      from Cons.IH [OF this, of "hs_poll e"] False show ?thesis
        by (auto simp: handshake.simps [of "e # es"])
    qed
  qed simp
  from hs [of PollWriting] obtain r where "handshake rs PollWriting = Finished r"
    "r = None \<longrightarrow> (\<exists>e \<in> set rs. hs_poll e = PollOk)" by auto
  then show ?thesis
    by (cases r) (auto simp: connect_async_def connect_fail_def Let_def split: option.split)
qed

theorem connect_async_outcome_witness:
  "\<exists>c'. connect_async (\<lambda>_. Some (0 :: nat, None)) True
     [\<lparr>hs_watched = True, hs_cancel = False, hs_fired = Some 5000, hs_poll = PollReading, hs_error = []\<rparr>]
     True 5000 ''host=db'' new_conn = Finished (Some ''connect timeout after 5000 ms'', c') \<and> cn_pq c' = None"
proof -
  let ?r = "\<lparr>hs_watched = True, hs_cancel = False, hs_fired = Some 5000, hs_poll = PollReading, hs_error = []\<rparr>"
  obtain err c' where c': "connect_async (\<lambda>_. Some (0 :: nat, None)) True [?r] True 5000 ''host=db'' new_conn = Finished (err, c')"
    "err = None \<longleftrightarrow> cn_pq c' \<noteq> None"
    using connect_async_outcome [of "[?r]" "\<lambda>_. Some (0 :: nat, None)" True True 5000 "''host=db''" new_conn] by auto
  have "show_int 5000 = ''5000''" by code_simp
  with c'(1) have "err = Some ''connect timeout after 5000 ms''"
    by (simp add: connect_async_def Let_def handshake.simps connect_fail_def)
  with c' show ?thesis by (intro exI [of _ c']) simp
qed

lemma copy_to_lines_facts:
  assumes "copy_start L PGRES_COPY_OUT sql ws c = Finished (start, c1, ws1)" "cr_ok start"
    and "copy_data L ws1 c1 ds ws' c'"
  shows "\<forall>s l. fst (line_sink s l) \<Longrightarrow> copy_to_lines L sql line_sink s0 ws c
       = Finished (copy_ok, feed line_sink (all_lines (string_of_bytes (concat ds))) s0, c', ws')"
    and "\<exists>r s'. copy_to L sql sink s ws c = Finished (r, s', c', ws')
       \<and> (cr_ok r \<longleftrightarrow> fst (sink_run sink (map string_of_bytes ds) s))
       \<and> (\<not> cr_ok r \<longrightarrow> cr_code r = AwaitCanceled)"
proof -
  have cp: "copy_to L sql sk t ws c = the (copy_to_loop L sk False t ws1 c1)" for sk :: "'x \<Rightarrow> string \<Rightarrow> bool \<times> 'x" and t
    using assms copy_to_loop_data [OF assms(3), of sk t]
    by (simp add: copy_to_def case_prod_unfold)
  have cc: "string_of_bytes (concat ds) = concat (map string_of_bytes ds)"
    by (induction ds) (simp_all add: string_of_bytes_def)
  show "copy_to_lines L sql line_sink s0 ws c
       = Finished (copy_ok, feed line_sink (all_lines (string_of_bytes (concat ds))) s0, c', ws')"
    if keep: "\<forall>s l. fst (line_sink s l)"
  proof -
    let ?t = "concat (map string_of_bytes ds)"
    have "copy_to L sql (\<lambda>(carry, s) sv. chunk_sink line_sink (carry, s) sv) ([], s0) ws c
        = Finished (copy_ok, (snd (split_lines ?t), feed line_sink (fst (split_lines ?t)) s0), c', ws')"
      using sink_run_lines [OF keep, of "[]" "map string_of_bytes ds" s0]
      by (simp add: cp copy_to_loop_data [OF assms(3)] case_prod_eta)
    moreover have "line_sink s l = (True, snd (line_sink s l))" for s l
      using keep by (metis prod.collapse)
    ultimately show ?thesis
      by (simp add: copy_to_lines_def cc all_lines_def copy_ok_def case_prod_unfold feed_append)
         (simp add: feed_def keep)
  qed
  show "\<exists>r s'. copy_to L sql sink s ws c = Finished (r, s', c', ws')
       \<and> (cr_ok r \<longleftrightarrow> fst (sink_run sink (map string_of_bytes ds) s))
       \<and> (\<not> cr_ok r \<longrightarrow> cr_code r = AwaitCanceled)"
    by (simp add: cp copy_to_loop_data [OF assms(3)] case_prod_unfold copy_ok_def)
qed

text \<open>C37: the line callback of \<^verbatim>\<open>copy_to_lines\<close> receives exactly the lines of the COPY data, in order and
  whatever the chunks in which the data arrived, and then the call reports success. With a chunk sink
  that refuses (\<^verbatim>\<open>copy_to\<close>), the data is still read to its end: the connection is left in the same
  state as after an accepted copy, and the result is \<open>AwaitCanceled\<close>.\<close>

theorem copy_to_lines_exact:
  assumes "copy_start L PGRES_COPY_OUT sql ws c = Finished (start, c1, ws1)" "cr_ok start"
    and "copy_data L ws1 c1 ds ws' c'"
  shows "((\<forall>s l. fst (line_sink s l)) \<longrightarrow> copy_to_lines L sql line_sink s0 ws c
       = Finished (copy_ok, feed line_sink (all_lines (string_of_bytes (concat ds))) s0, c', ws'))
    \<and> (\<exists>r s'. copy_to L sql sink s ws c = Finished (r, s', c', ws')
       \<and> (cr_ok r \<longleftrightarrow> fst (sink_run sink (map string_of_bytes ds) s))
       \<and> (\<not> cr_ok r \<longrightarrow> cr_code r = AwaitCanceled))"
  by (intro conjI impI copy_to_lines_facts(1) [OF assms] copy_to_lines_facts(2) [OF assms])

text \<open>A libpq that hands out prepared COPY chunks.\<close>

definition copy_libpq :: "(pg_result list \<times> bytes list) libpq" where
  "copy_libpq = \<lparr>pq_status_ok = (\<lambda>_. True), pq_trans_idle = (\<lambda>_. True), pq_trans_inerror = (\<lambda>_. False),
     pq_busy = (\<lambda>_. False),
     pq_error = (\<lambda>_. []), pq_socket = (\<lambda>_. 3), pq_flush = (\<lambda>p. (0, p)),
     pq_consume_input = (\<lambda>p. (True, p)),
     pq_get_result = (\<lambda>(rs, ds). case rs of [] \<Rightarrow> (None, [], ds) | r # rs \<Rightarrow> (Some r, rs, ds)),
     pq_send_query = (\<lambda>_ p. (True, p)), pq_put_copy_data = (\<lambda>_ _ p. (1, p)),
     pq_put_copy_end = (\<lambda>_ p. (1, p)),
     pq_get_copy_data = (\<lambda>(rs, ds). case ds of [] \<Rightarrow> (- 1, [], rs, []) | d # ds \<Rightarrow> (int (length d), d, rs, ds)),
     pq_peek = (\<lambda>_. (- 1, True))\<rparr>"


theorem copy_to_lines_exact_witness:
  "copy_to_lines copy_libpq ''COPY t TO STDOUT'' (\<lambda>ls l. (True, ls @ [l])) [] []
     (open_conn ([sample_pg_result PGRES_COPY_OUT, sample_pg_result PGRES_COMMAND_OK], [[97, 10, 98], [99, 10]]))
   = Finished (copy_ok, [''a'', ''bc''], open_conn ([], []), [])"
proof -
  let ?res = "[sample_pg_result PGRES_COMMAND_OK]"
  have st: "copy_start copy_libpq PGRES_COPY_OUT ''COPY t TO STDOUT'' []
     (open_conn (sample_pg_result PGRES_COPY_OUT # ?res, [[97, 10, 98], [99, 10]]))
     = Finished (copy_ok, open_conn (?res, [[97, 10, 98], [99, 10]]), [])"
    by (simp add: copy_start_def copy_libpq_def connected_def open_conn_def new_conn_def Let_def
        round_trip_input_def flush_outgoing_def pump_input_def pump_loop.simps flush_step_def input_step_def
        sample_pg_result_def)
  have dr: "drain_all_results copy_libpq ([], []) = Some ([], [])"
    by (subst drain_all_results.simps) (simp add: copy_libpq_def)
  have rd: "read_chunk copy_libpq [] (open_conn (?res, d # ds)) = Finished (Inr d, open_conn (?res, ds), [])"
    if "d \<noteq> []" for d ds
    using that by (simp add: read_chunk_def copy_out_read_chunk.simps connected_def open_conn_def new_conn_def
        copy_libpq_def Let_def)
  have re: "read_chunk copy_libpq [] (open_conn (?res, [])) = Finished (Inr [], open_conn ([], []), [])"
    using dr by (simp add: read_chunk_def copy_out_read_chunk.simps connected_def open_conn_def new_conn_def
        copy_libpq_def Let_def sample_pg_result_def)
  have data: "copy_data copy_libpq [] (open_conn (?res, [[97, 10, 98], [99, 10]])) [[97, 10, 98], [99, 10]]
      [] (open_conn ([], []))"
    by (rule data_more [OF rd], simp, simp, rule data_more [OF rd], simp, simp, rule data_end [OF re])
  have "feed (\<lambda>ls l. (True, ls @ [l])) (all_lines (string_of_bytes (concat [[97, 10, 98], [99, 10]]))) [] = [''a'', ''bc'']"
    by code_simp
  with copy_to_lines_exact [OF st _ data, of "\<lambda>ls l. (True, ls @ [l])" "[]" "\<lambda>s d. (True, s)" "()"] show ?thesis
    by (simp add: copy_ok_def)
qed

end
