(* ===== verification/Pg_Socket.thy ===== *)
theory Pg_Socket
  imports Upq_Prelude
begin

text \<open>
  Who owns the file descriptors a connection closes and shuts down (PgConnection.cpp \<^verbatim>\<open>watch_socket\<close>, \<^verbatim>\<open>close\<close>, the
  deadline timer of \<^verbatim>\<open>connect_async\<close>, \<^verbatim>\<open>abort_io_from_watchdog\<close>). The kernel hands the number of a closed descriptor
  to the next one who opens a file, so a close or a shutdown by a stale number hits a stranger. libpq owns its socket, uvent
  the duplicate that \<^verbatim>\<open>watch_socket\<close> registers. The coroutine of the connection, the poller, the deadline timer, the pool
  watchdog and the rest of the process are the interleaved steps of \<^term>\<open>sk_step\<close>; every close and shutdown is recorded
  with the owner the descriptor had at that moment. Pg\_Conn has the same operations on the protocol level, where a
  descriptor is just there or not.
\<close>

section \<open>State\<close>

datatype owner = Libpq | Poller | Stranger

text \<open>Where the coroutine of the connection is: outside \<^verbatim>\<open>connect_async\<close> without a \<^verbatim>\<open>PGconn\<close>, behind \<^verbatim>\<open>PQconnectStart\<close>,
  in the handshake loop, between that loop and the end of \<^verbatim>\<open>connect_async\<close>, and connected.\<close>

datatype phase = Idle | Started | Handshake | Handshaken | Established

record connect_deadline =
  dl_fd :: "nat option"             \<comment> \<open>\<open>None\<close> for -1\<close>
  dl_done :: bool
  dl_fired :: bool

record sockets =
  sk_fds :: "nat \<Rightarrow> (owner \<times> u64) option"   \<comment> \<open>the open descriptors of the process, with owner and inode\<close>
  sk_conn :: bool                   \<comment> \<open>\<^verbatim>\<open>conn_\<close> is not null\<close>
  sk_pq :: "nat option"             \<comment> \<open>\<^verbatim>\<open>PQsocket(conn_)\<close>\<close>
  sk_sock :: "nat option option"    \<comment> \<open>\<^verbatim>\<open>sock_\<close> and its descriptor, \<open>None\<close> once uvent has closed it\<close>
  sk_watched_fd :: "nat option"
  sk_watched_ino :: u64
  sk_deadline :: connect_deadline
  sk_phase :: phase
  sk_parked :: bool                 \<comment> \<open>\<^verbatim>\<open>await_since_ms_ != 0\<close>\<close>
  sk_cut :: "nat option option"     \<comment> \<open>\<^verbatim>\<open>abort_io_from_watchdog\<close> holds \<^verbatim>\<open>close_mtx_\<close>, with the socket it read\<close>
  sk_hits :: "(nat \<times> owner option) list"  \<comment> \<open>descriptors the connection closed or shut down, with their owner at that time\<close>

definition init_sockets :: "(nat \<Rightarrow> u64 option) \<Rightarrow> sockets" where
  "init_sockets strangers = \<lparr>sk_fds = (\<lambda>i. map_option (Pair Stranger) (strangers i)), sk_conn = False, sk_pq = None, sk_sock = None,
     sk_watched_fd = None, sk_watched_ino = 0, sk_deadline = \<lparr>dl_fd = None, dl_done = True, dl_fired = False\<rparr>,
     sk_phase = Idle, sk_parked = False, sk_cut = None, sk_hits = []\<rparr>"

section \<open>Operations\<close>

definition shutdown_fd :: "nat \<Rightarrow> sockets \<Rightarrow> sockets" where
  "shutdown_fd i s = s\<lparr>sk_hits := sk_hits s @ [(i, map_option fst (sk_fds s i))]\<rparr>"

definition close_fd :: "nat \<Rightarrow> sockets \<Rightarrow> sockets" where
  "close_fd i s = (shutdown_fd i s)\<lparr>sk_fds := (sk_fds s)(i := None)\<rparr>"

text \<open>\<^verbatim>\<open>sock_.reset()\<close>: uvent closes the descriptor it watches, unless it has done so before.\<close>

definition reset_sock :: "sockets \<Rightarrow> sockets" where
  "reset_sock s = ((case sk_sock s of Some (Some i) \<Rightarrow> close_fd i s | _ \<Rightarrow> s)\<lparr>sk_sock := None\<rparr>)"

text \<open>\<^verbatim>\<open>PQfinish(conn_); conn_ = nullptr;\<close>: libpq closes the socket it has.\<close>

definition finish_pq :: "sockets \<Rightarrow> sockets" where
  "finish_pq s = ((case sk_pq s of Some i \<Rightarrow> close_fd i s | None \<Rightarrow> s)\<lparr>sk_pq := None, sk_conn := False\<rparr>)"

text \<open>\<^verbatim>\<open>watch_socket\<close>; \<open>dup\<close> is the result of \<^verbatim>\<open>fcntl(fd, F_DUPFD_CLOEXEC, 0)\<close>. A duplicate has the inode of its original.\<close>

definition watch_socket :: "nat option \<Rightarrow> sockets \<Rightarrow> bool \<times> sockets" where
  "watch_socket dup s =
     (case (if sk_conn s then sk_pq s else None) of
        None \<Rightarrow> (False, s)
      | Some fd \<Rightarrow>
          (case sk_fds s fd of
             None \<Rightarrow> (False, s)
           | Some (_, ino) \<Rightarrow>
               if sk_sock s \<noteq> None \<and> sk_watched_fd s = Some fd \<and> sk_watched_ino s = ino then (True, s)
               else let s = reset_sock s in
                 (case dup of
                    None \<Rightarrow> (False, s)
                  | Some own \<Rightarrow>
                      (True, s\<lparr>sk_fds := (sk_fds s)(own \<mapsto> (Poller, ino)), sk_sock := Some (Some own),
                               sk_watched_fd := Some fd, sk_watched_ino := ino\<rparr>))))"

text \<open>The lambda \<^verbatim>\<open>fail\<close> of \<^verbatim>\<open>connect_async\<close>, and \<^verbatim>\<open>close()\<close>.\<close>

definition fail_connect :: "sockets \<Rightarrow> sockets" where
  "fail_connect s = (let s = reset_sock s in if sk_conn s then finish_pq s else s)"

definition close_sockets :: "sockets \<Rightarrow> sockets" where
  "close_sockets s =
     (let s = (case sk_sock s of Some (Some i) \<Rightarrow> shutdown_fd i s | _ \<Rightarrow> s);
          s = (if sk_conn s then finish_pq s else s)
      in reset_sock s)"

text \<open>\<^verbatim>\<open>connect_deadline_timer\<close> behind its sleep.\<close>

definition deadline_fires :: "sockets \<Rightarrow> sockets" where
  "deadline_fires s =
     (let d = sk_deadline s in
      if dl_done d then s
      else let s = s\<lparr>sk_deadline := d\<lparr>dl_fired := True\<rparr>\<rparr>
        in case dl_fd d of None \<Rightarrow> s | Some i \<Rightarrow> shutdown_fd i s)"

text \<open>The end of the handshake loop: \<^verbatim>\<open>dl->done = true; dl->fd = -1;\<close>.\<close>

definition end_handshake :: "sockets \<Rightarrow> sockets" where
  "end_handshake s = s\<lparr>sk_deadline := (sk_deadline s)\<lparr>dl_done := True, dl_fd := None\<rparr>\<rparr>"

text \<open>\<^verbatim>\<open>abort_io_from_watchdog\<close>: it reads the socket of a parked await under \<^verbatim>\<open>close_mtx_\<close>, and shuts it down.\<close>

definition cut_read :: "sockets \<Rightarrow> sockets" where
  "cut_read s = (if \<not> sk_conn s \<or> \<not> sk_parked s then s else s\<lparr>sk_cut := Some (sk_pq s)\<rparr>)"

definition cut_shutdown :: "nat option \<Rightarrow> sockets \<Rightarrow> sockets" where
  "cut_shutdown fd s = (case fd of None \<Rightarrow> s | Some i \<Rightarrow> shutdown_fd i s)\<lparr>sk_cut := None\<rparr>"

section \<open>Interleavings\<close>

text \<open>
  The coroutine, the poller, the deadline timer, the watchdog and everybody else in the process. \<open>libpq_socket\<close> is what a
  call of libpq may do to its socket: keep it, close it, or replace it by a new one, whose number may be the old one and
  whose inode no open descriptor has.
  With \<open>careful\<close> libpq does not touch its socket while the watchdog is between its two accesses.
\<close>

inductive libpq_socket :: "sockets \<Rightarrow> sockets \<Rightarrow> bool" where
  keep: "libpq_socket s s"
| drop: "sk_pq s = Some i \<Longrightarrow> libpq_socket s ((close_fd i s)\<lparr>sk_pq := None\<rparr>)"
| reopen: "s1 = (case sk_pq s of Some i \<Rightarrow> close_fd i s | None \<Rightarrow> s) \<Longrightarrow> sk_fds s1 j = None
    \<Longrightarrow> \<forall>k. map_option snd (sk_fds s1 k) \<noteq> Some ino
    \<Longrightarrow> libpq_socket s (s1\<lparr>sk_fds := (sk_fds s1)(j \<mapsto> (Libpq, ino)), sk_pq := Some j\<rparr>)"

inductive sk_step :: "bool \<Rightarrow> sockets \<Rightarrow> sockets \<Rightarrow> bool" for careful where
  connect_start: "sk_phase s = Idle \<Longrightarrow> \<not> sk_conn s \<Longrightarrow> libpq_socket s s'
    \<Longrightarrow> sk_step careful s (s'\<lparr>sk_conn := True, sk_phase := Started\<rparr>)"
| start_failed: "sk_phase s = Started \<Longrightarrow> sk_step careful s ((fail_connect s)\<lparr>sk_phase := Idle\<rparr>)"
| handshake: "sk_phase s = Started
    \<Longrightarrow> sk_step careful s (s\<lparr>sk_deadline := \<lparr>dl_fd = sk_pq s, dl_done = False, dl_fired = False\<rparr>, sk_phase := Handshake\<rparr>)"
| watch: "sk_phase s \<notin> {Idle, Started} \<Longrightarrow> dup = None \<or> (\<exists>own. dup = Some own \<and> sk_fds (reset_sock s) own = None)
    \<Longrightarrow> watch_socket dup s = (b, s') \<Longrightarrow> sk_step careful s s'"
| connect_poll: "sk_phase s = Handshake \<Longrightarrow> \<not> dl_fired (sk_deadline s) \<Longrightarrow> libpq_socket s s'
    \<Longrightarrow> sk_step careful s (s'\<lparr>sk_deadline := (sk_deadline s')\<lparr>dl_fd := sk_pq s'\<rparr>\<rparr>)"
| connect_failed: "sk_phase s = Handshake \<or> sk_phase s = Handshaken
    \<Longrightarrow> sk_step careful s ((fail_connect (end_handshake s))\<lparr>sk_phase := Idle\<rparr>)"
| connect_done: "sk_phase s = Handshake \<Longrightarrow> sk_step careful s ((end_handshake s)\<lparr>sk_phase := Handshaken\<rparr>)"
| connected: "sk_phase s = Handshaken \<Longrightarrow> sk_step careful s (s\<lparr>sk_phase := Established\<rparr>)"
| park: "sk_phase s = Established \<Longrightarrow> sk_step careful s (s\<lparr>sk_parked := True\<rparr>)"
| wake: "sk_step careful s (s\<lparr>sk_parked := False\<rparr>)"
| libpq_call: "sk_phase s = Established \<Longrightarrow> \<not> sk_parked s \<Longrightarrow> careful \<longrightarrow> sk_cut s = None \<Longrightarrow> libpq_socket s s' \<Longrightarrow> sk_step careful s s'"
| close: "sk_phase s = Established \<or> sk_phase s = Idle \<Longrightarrow> \<not> sk_parked s \<Longrightarrow> sk_cut s = None
    \<Longrightarrow> sk_step careful s ((close_sockets s)\<lparr>sk_phase := Idle\<rparr>)"
| deadline: "sk_step careful s (deadline_fires s)"
| watchdog_read: "sk_cut s = None \<Longrightarrow> sk_step careful s (cut_read s)"
| watchdog_shutdown: "sk_cut s = Some fd \<Longrightarrow> sk_step careful s (cut_shutdown fd s)"
| hup: "sk_sock s = Some (Some i) \<Longrightarrow> sk_step careful s ((close_fd i s)\<lparr>sk_sock := Some None\<rparr>)"
| stranger_opens: "sk_fds s i = None \<Longrightarrow> sk_step careful s (s\<lparr>sk_fds := (sk_fds s)(i \<mapsto> (Stranger, ino))\<rparr>)"
| stranger_closes: "sk_fds s i = Some (Stranger, ino) \<Longrightarrow> sk_step careful s (s\<lparr>sk_fds := (sk_fds s)(i := None)\<rparr>)"

section \<open>Ownership\<close>

definition sk_inv :: "sockets \<Rightarrow> bool" where
  "sk_inv s \<longleftrightarrow>
     (\<forall>i. sk_sock s = Some (Some i) \<longrightarrow> sk_fds s i = Some (Poller, sk_watched_ino s))
     \<and> (\<forall>i. sk_pq s = Some i \<longrightarrow> map_option fst (sk_fds s i) = Some Libpq)
     \<and> (\<not> sk_conn s \<longrightarrow> sk_pq s = None) \<and> (sk_phase s \<noteq> Idle \<longrightarrow> sk_conn s)
     \<and> (sk_phase s = Handshake \<longleftrightarrow> \<not> dl_done (sk_deadline s))
     \<and> (\<not> dl_done (sk_deadline s) \<longrightarrow> dl_fd (sk_deadline s) = sk_pq s)
     \<and> (sk_parked s \<or> sk_cut s \<noteq> None \<longrightarrow> sk_phase s = Established)
     \<and> (\<forall>fd. sk_cut s = Some fd \<longrightarrow> fd = sk_pq s)
     \<and> (\<forall>(i, ow) \<in> set (sk_hits s). ow = Some Libpq \<or> ow = Some Poller)"

lemmas sk_ops = shutdown_fd_def close_fd_def reset_sock_def finish_pq_def fail_connect_def close_sockets_def
  deadline_fires_def end_handshake_def cut_read_def cut_shutdown_def

lemma sk_inv_init: "sk_inv (init_sockets strangers)"
  by (simp add: sk_inv_def init_sockets_def)

lemma fst_of_fd: "map_option fst (sk_fds s i) = Some ow \<longleftrightarrow> (\<exists>ino. sk_fds s i = Some (ow, ino))"
  by (cases "sk_fds s i") auto

lemma inv_shutdown:
  "sk_inv s \<Longrightarrow> sk_pq s = Some i \<or> sk_sock s = Some (Some i) \<Longrightarrow> sk_inv (shutdown_fd i s)"
  by (auto simp: sk_inv_def shutdown_fd_def)

lemma inv_reset_sock:
  "sk_inv s \<Longrightarrow> sk_inv (reset_sock s) \<and> sk_sock (reset_sock s) = None \<and> sk_pq (reset_sock s) = sk_pq s
   \<and> sk_conn (reset_sock s) = sk_conn s \<and> (\<forall>i. sk_pq s = Some i \<longrightarrow> sk_fds (reset_sock s) i = sk_fds s i)"
  by (cases "sk_sock s"; cases "the (sk_sock s)") (auto simp: sk_inv_def sk_ops)

lemma inv_watch:
  assumes "sk_inv s" "dup = None \<or> (\<exists>own. dup = Some own \<and> sk_fds (reset_sock s) own = None)" "watch_socket dup s = (b, s')"
  shows "sk_inv s'"
proof -
  have r: "sk_inv (reset_sock s)" "sk_sock (reset_sock s) = None" using inv_reset_sock [OF assms(1)] by auto
  have new: "sk_inv ((reset_sock s)\<lparr>sk_fds := (sk_fds (reset_sock s))(own \<mapsto> (Poller, ino)), sk_sock := Some (Some own),
      sk_watched_fd := w, sk_watched_ino := ino\<rparr>)" if "sk_fds (reset_sock s) own = None" for own ino w
    using r that by (auto simp: sk_inv_def)
  show ?thesis
    using assms r(1) new unfolding watch_socket_def by (auto simp: Let_def split: option.splits prod.splits if_splits)
qed

lemma watch_true:
  assumes "sk_inv s" "watch_socket dup s = (True, s')" "\<forall>own. dup = Some own \<longrightarrow> sk_fds (reset_sock s) own = None"
  shows "\<exists>fd ino. sk_pq s' = Some fd \<and> sk_fds s' fd = Some (Libpq, ino)
    \<and> (sk_sock s' = Some None \<or> (\<exists>j. sk_sock s' = Some (Some j) \<and> j \<noteq> fd \<and> sk_fds s' j = Some (Poller, ino)))"
proof -
  obtain fd ino where fd: "sk_conn s" "sk_pq s = Some fd" "sk_fds s fd = Some (Libpq, ino)"
    using assms(1,2) by (auto simp: watch_socket_def sk_inv_def split: if_splits option.splits)
  have r: "sk_pq (reset_sock s) = Some fd" "sk_fds (reset_sock s) fd = Some (Libpq, ino)"
    using inv_reset_sock [OF assms(1)] fd by auto
  show ?thesis
  proof (cases "sk_sock s \<noteq> None \<and> sk_watched_fd s = Some fd \<and> sk_watched_ino s = ino")
    case True
    with fd assms(2) have s': "s' = s" by (auto simp: watch_socket_def)
    from True obtain y where y: "sk_sock s = Some y" by blast
    show ?thesis
    proof (cases y)
      case None
      with fd y s' show ?thesis by simp
    next
      case (Some j)
      then have "sk_fds s j = Some (Poller, ino)" using assms(1) True y by (simp add: sk_inv_def)
      with fd y s' Some show ?thesis by auto
    qed
  next
    case False
    with fd r assms(2,3) show ?thesis by (cases dup) (auto simp: watch_socket_def Let_def)
  qed
qed

lemma inv_libpq:
  assumes "libpq_socket s s'" "sk_inv s" "sk_cut s = None" "sk_conn s"
  shows "if sk_phase s = Handshake then sk_inv (s'\<lparr>sk_deadline := (sk_deadline s')\<lparr>dl_fd := sk_pq s'\<rparr>\<rparr>) else sk_inv s'"
  using assms
proof (induction rule: libpq_socket.induct)
  case (reopen s1 s j ino)
  show ?case
  proof (cases "sk_pq s")
    case None
    with reopen show ?thesis by (auto simp: sk_inv_def)
  next
    case (Some i)
    with reopen show ?thesis by (auto simp: sk_inv_def close_fd_def shutdown_fd_def)
  qed
qed (auto simp: sk_inv_def close_fd_def shutdown_fd_def)

lemma inv_start:
  assumes "libpq_socket s s'" "sk_inv s" "sk_cut s = None" "\<not> sk_parked s" "sk_phase s = Idle" "\<not> sk_conn s"
  shows "sk_inv (s'\<lparr>sk_conn := True, sk_phase := Started\<rparr>)"
  using assms by (cases rule: libpq_socket.cases) (auto simp: sk_inv_def)

lemma inv_end:
  assumes "sk_inv s" "sk_cut s = None" "\<not> sk_parked s"
  shows "sk_inv ((fail_connect (end_handshake s))\<lparr>sk_phase := Idle\<rparr>)"
    "sk_phase s \<noteq> Handshake \<Longrightarrow> sk_inv ((fail_connect s)\<lparr>sk_phase := Idle\<rparr>)"
    "sk_phase s \<noteq> Handshake \<Longrightarrow> sk_inv ((close_sockets s)\<lparr>sk_phase := Idle\<rparr>)"
proof -
  have own: "sk_sock s = Some (Some i) \<Longrightarrow> sk_pq s = Some j \<Longrightarrow> i \<noteq> j" for i j using assms(1) by (auto simp: sk_inv_def)
  show "sk_inv ((fail_connect (end_handshake s))\<lparr>sk_phase := Idle\<rparr>)"
    using assms own by (cases "sk_sock s"; cases "the (sk_sock s)"; cases "sk_pq s") (auto simp: sk_inv_def sk_ops Let_def)
  show "sk_inv ((fail_connect s)\<lparr>sk_phase := Idle\<rparr>)" if "sk_phase s \<noteq> Handshake"
    using that assms own by (cases "sk_sock s"; cases "the (sk_sock s)"; cases "sk_pq s") (auto simp: sk_inv_def sk_ops Let_def)
  show "sk_inv ((close_sockets s)\<lparr>sk_phase := Idle\<rparr>)" if "sk_phase s \<noteq> Handshake"
    using that assms own by (cases "sk_sock s"; cases "the (sk_sock s)"; cases "sk_pq s") (auto simp: sk_inv_def sk_ops Let_def)
qed

lemma sk_step_inv: "sk_step True s s' \<Longrightarrow> sk_inv s \<Longrightarrow> sk_inv s'"
proof (induction rule: sk_step.induct)
  case (watch s dup b s')
  then show ?case by (blast intro: inv_watch)
next
  case (connect_poll s s')
  moreover from connect_poll have "sk_cut s = None" "sk_conn s" by (auto simp: sk_inv_def)
  ultimately show ?case using inv_libpq [of s s'] by simp
next
  case (libpq_call s s')
  moreover from libpq_call have "sk_conn s" by (auto simp: sk_inv_def)
  ultimately show ?case using inv_libpq [of s s'] by simp
next
  case (close s)
  then show ?case by (intro inv_end) auto
next
  case (connect_failed s)
  then have "sk_cut s = None" "\<not> sk_parked s" by (auto simp: sk_inv_def)
  with connect_failed show ?case by (blast intro: inv_end)
next
  case (connect_start s s')
  then have "sk_cut s = None" "\<not> sk_parked s" by (auto simp: sk_inv_def)
  with connect_start inv_start show ?case by blast
next
  case (start_failed s)
  then have "sk_cut s = None" "\<not> sk_parked s" by (auto simp: sk_inv_def)
  with start_failed show ?case using inv_end(2) [of s] by simp
next
  case (deadline s)
  then show ?case by (auto simp: sk_inv_def deadline_fires_def shutdown_fd_def Let_def split: option.splits)
qed (auto simp: sk_inv_def sk_ops Let_def split: option.splits)

interpretation sk: inv_system "\<lambda>s. s \<in> range init_sockets" "sk_step True" sk_inv
  by unfold_locales (auto simp: sk_inv_init intro: sk_step_inv)

section \<open>Properties\<close>

text \<open>C36: In every interleaving in which libpq leaves its socket alone while the watchdog is between reading the socket and
  shutting it down, every descriptor the connection, its poller, its deadline timer or the watchdog closes or shuts down is
  open and owned by libpq or the poller at that moment; and when \<^verbatim>\<open>watch_socket\<close> returns true, libpq has a socket and the
  poller has, unless a hangup has made it drop it, a duplicate of that very socket, under a number of its own, whatever
  sockets libpq has gone through before.\<close>

theorem descriptors_stay_own:
  assumes "(sk_step True)\<^sup>*\<^sup>* (init_sockets strangers) s"
  shows "(\<forall>(i, ow) \<in> set (sk_hits s). ow = Some Libpq \<or> ow = Some Poller)
    \<and> (\<forall>dup s'. watch_socket dup s = (True, s') \<and> (\<forall>own. dup = Some own \<longrightarrow> sk_fds (reset_sock s) own = None)
         \<longrightarrow> (\<exists>fd ino. sk_pq s' = Some fd \<and> sk_fds s' fd = Some (Libpq, ino)
               \<and> (sk_sock s' = Some None \<or> (\<exists>j. sk_sock s' = Some (Some j) \<and> j \<noteq> fd \<and> sk_fds s' j = Some (Poller, ino)))))"
proof -
  have "sk_inv s" using sk.reachable_inv [OF _ assms] by blast
  moreover from this have "\<forall>(i, ow) \<in> set (sk_hits s). ow = Some Libpq \<or> ow = Some Poller" by (simp add: sk_inv_def)
  ultimately show ?thesis using watch_true by blast
qed

text \<open>A run for the two theorems below: connect on descriptor 3, watch its duplicate 4, establish, park, let the watchdog read
  the socket, wake.\<close>

definition parked_run :: "bool \<Rightarrow> sockets \<Rightarrow> bool" where
  "parked_run careful s \<longleftrightarrow> (sk_step careful)\<^sup>*\<^sup>* (init_sockets (\<lambda>_. None)) s
     \<and> sk_phase s = Established \<and> \<not> sk_parked s \<and> sk_cut s = Some (Some 3) \<and> sk_pq s = Some 3 \<and> sk_hits s = []
     \<and> sk_sock s = Some (Some 4) \<and> sk_conn s \<and> sk_fds s = [3 \<mapsto> (Libpq, 7), 4 \<mapsto> (Poller, 7)]"

lemma parked_run_exists: "\<exists>s. parked_run careful s"
proof -
  let ?s0 = "init_sockets (\<lambda>_. None)"
  let ?s1 = "?s0\<lparr>sk_fds := (sk_fds ?s0)(3 \<mapsto> (Libpq, 7)), sk_pq := Some 3\<rparr>\<lparr>sk_conn := True, sk_phase := Started\<rparr>"
  let ?s2 = "?s1\<lparr>sk_deadline := \<lparr>dl_fd = sk_pq ?s1, dl_done = False, dl_fired = False\<rparr>, sk_phase := Handshake\<rparr>"
  let ?s3 = "snd (watch_socket (Some 4) ?s2)"
  let ?s4 = "(end_handshake ?s3)\<lparr>sk_phase := Handshaken\<rparr>"
  let ?s5 = "?s4\<lparr>sk_phase := Established\<rparr>"
  let ?s6 = "?s5\<lparr>sk_parked := True\<rparr>"
  let ?s7 = "cut_read ?s6"
  let ?s8 = "?s7\<lparr>sk_parked := False\<rparr>"
  note e = init_sockets_def watch_socket_def reset_sock_def end_handshake_def cut_read_def
  have "libpq_socket ?s0 (?s0\<lparr>sk_fds := (sk_fds ?s0)(3 \<mapsto> (Libpq, 7)), sk_pq := Some 3\<rparr>)"
    by (rule reopen) (simp_all add: init_sockets_def)
  then have "sk_step careful ?s0 ?s1" by (intro connect_start) (simp_all add: init_sockets_def)
  moreover have "sk_step careful ?s1 ?s2" by (rule handshake) simp
  moreover have "sk_step careful ?s2 ?s3"
    by (rule watch [of _ "Some 4" "fst (watch_socket (Some 4) ?s2)"]) (simp_all add: e)
  moreover have "sk_step careful ?s3 ?s4" by (rule connect_done) (simp add: e)
  moreover have "sk_step careful ?s4 ?s5" by (rule connected) (simp add: e)
  moreover have "sk_step careful ?s5 ?s6" by (rule park) (simp add: e)
  moreover have "sk_step careful ?s6 ?s7" by (rule watchdog_read) (simp add: e)
  moreover have "sk_step careful ?s7 ?s8" by (rule wake)
  ultimately have "(sk_step careful)\<^sup>*\<^sup>* ?s0 ?s8" by (meson rtranclp.rtrancl_refl rtranclp.rtrancl_into_rtrancl)
  then have "parked_run careful ?s8" by (simp add: parked_run_def e)
  then show ?thesis ..
qed

lemma descriptors_stay_own_witness:
  "\<exists>s. (sk_step True)\<^sup>*\<^sup>* (init_sockets (\<lambda>_. None)) s \<and> sk_hits s = [(3, Some Libpq)]
    \<and> (\<forall>(i, ow) \<in> set (sk_hits s). ow = Some Libpq \<or> ow = Some Poller)"
proof -
  obtain s where s: "parked_run True s" using parked_run_exists by blast
  then have "sk_step True s (cut_shutdown (Some 3) s)" by (intro watchdog_shutdown) (simp add: parked_run_def)
  with s have r: "(sk_step True)\<^sup>*\<^sup>* (init_sockets (\<lambda>_. None)) (cut_shutdown (Some 3) s)"
    unfolding parked_run_def by (meson rtranclp.rtrancl_into_rtrancl)
  moreover from s have "sk_hits (cut_shutdown (Some 3) s) = [(3, Some Libpq)]"
    by (simp add: parked_run_def cut_shutdown_def shutdown_fd_def)
  ultimately show ?thesis using descriptors_stay_own [OF r] by blast
qed

text \<open>C40: The lock the watchdog takes does not keep libpq from closing its socket: an await that completes between the two
  accesses of the watchdog lets the coroutine call libpq, which drops a broken socket without the lock; another part of the
  process opens a file and is given the number; the shutdown of the watchdog then hits that stranger's descriptor.\<close>

theorem watchdog_shutdown_race:
  "\<exists>s. (sk_step False)\<^sup>*\<^sup>* (init_sockets (\<lambda>_. None)) s \<and> sk_conn s \<and> (3, Some Stranger) \<in> set (sk_hits s)"
proof -
  obtain s where s: "parked_run False s" using parked_run_exists by blast
  let ?s1 = "(close_fd 3 s)\<lparr>sk_pq := None\<rparr>"
  let ?s2 = "?s1\<lparr>sk_fds := (sk_fds ?s1)(3 \<mapsto> (Stranger, 8))\<rparr>"
  have "libpq_socket s ?s1" by (rule drop) (use s in \<open>simp add: parked_run_def\<close>)
  with s have "sk_step False s ?s1" by (intro libpq_call) (simp_all add: parked_run_def)
  moreover have "sk_step False ?s1 ?s2" by (rule stranger_opens) (simp add: close_fd_def)
  moreover from s have "sk_step False ?s2 (cut_shutdown (Some 3) ?s2)"
    by (intro watchdog_shutdown) (simp add: parked_run_def close_fd_def shutdown_fd_def)
  ultimately have "(sk_step False)\<^sup>*\<^sup>* s (cut_shutdown (Some 3) ?s2)"
    by (meson rtranclp.rtrancl_refl rtranclp.rtrancl_into_rtrancl)
  moreover from s have "sk_conn (cut_shutdown (Some 3) ?s2)" "(3, Some Stranger) \<in> set (sk_hits (cut_shutdown (Some 3) ?s2))"
    by (simp_all add: parked_run_def cut_shutdown_def shutdown_fd_def close_fd_def)
  ultimately show ?thesis using s unfolding parked_run_def by (meson rtranclp_trans)
qed

end
