(* ===== verification/Pg_IoWait.thy ===== *)
theory Pg_IoWait
  imports Upq_Prelude
begin

text \<open>
  Waiting for a socket (PgConnection.h \<^verbatim>\<open>IoWait\<close>, PgConnection.cpp \<^verbatim>\<open>read_would_not_block\<close>, \<^verbatim>\<open>await_ready\<close>, \<^verbatim>\<open>await_suspend\<close>,
  \<^verbatim>\<open>await_resume\<close>, and the part of \<^verbatim>\<open>flush_step\<close> that belongs to it). The poller of uvent is edge-triggered: it is told once when
  something happens on the socket, wakes the coroutine parked in that direction, or leaves the READY hint in the header when
  there is none. A wake-up is lost when a coroutine parks for something that happened before and was already reported.
  The coroutine, the poller and the kernel are interleaved in their atomic actions; the header and the poller belong to uvent
  and are a parameter, with the wake-up protocol the sources rely on as its laws.
\<close>

section \<open>The kernel's side of the socket\<close>

datatype Kind = IoRead | IoWrite | IoListenRead | IoHandshakeRead | IoHandshakeWrite

datatype dir = In | Out

text \<open>What the kernel holds for the socket: unread bytes, the end of the stream, a pending error or hang-up, room
  to send.\<close>

record kernel =
  kn_bytes :: nat
  kn_eof :: bool
  kn_error :: bool
  kn_space :: nat

datatype errno = EAGAIN | EWOULDBLOCK | EINTR | ECONN

datatype recv_result = Received nat | Errno errno

text \<open>
  \<^verbatim>\<open>recv(fd, &b, 1, MSG_PEEK | MSG_DONTWAIT)\<close>: a pending error, a byte, 0 at the end of the stream; when there is nothing, one
  of the codes of a call that would block or was interrupted (\<open>none\<close>).
\<close>

definition recv_peek :: "errno \<Rightarrow> kernel \<Rightarrow> recv_result" where
  "recv_peek none k =
     (if kn_error k then Errno ECONN else if 0 < kn_bytes k then Received 1 else if kn_eof k then Received 0
      else Errno (if none = ECONN then EAGAIN else none))"

definition read_would_not_block :: "recv_result \<Rightarrow> bool" where
  "read_would_not_block r =
     (case r of Received n \<Rightarrow> True | Errno e \<Rightarrow> e \<noteq> EAGAIN \<and> e \<noteq> EWOULDBLOCK \<and> e \<noteq> EINTR)"

text \<open>\<^verbatim>\<open>shutdown(fd, SHUT_RDWR)\<close>, with which the watchdog cuts a wait.\<close>

definition shut_down :: "kernel \<Rightarrow> kernel" where
  "shut_down k = k\<lparr>kn_eof := True, kn_error := True\<rparr>"

text \<open>\<^verbatim>\<open>poll(&p, 1, 0) > 0\<close> for \<^verbatim>\<open>POLLIN\<close> or \<^verbatim>\<open>POLLOUT\<close>: errors and hang-ups count as ready.\<close>

definition poll_now :: "dir \<Rightarrow> kernel \<Rightarrow> bool" where
  "poll_now d k \<longleftrightarrow> kn_error k \<or> (case d of In \<Rightarrow> 0 < kn_bytes k \<or> kn_eof k | Out \<Rightarrow> 0 < kn_space k)"

section \<open>The header and the poller\<close>

text \<open>
  What the connection uses of \<^verbatim>\<open>SocketHeader\<close>, by direction, the poller's turn, and two observations of
  their state: a coroutine is parked in a direction, an edge of it is reported and not handled.
\<close>

record 'h uvent =
  uv_fd :: "'h \<Rightarrow> int"
  uv_is_disconnected_now :: "'h \<Rightarrow> bool"
  uv_armed :: "dir \<Rightarrow> 'h \<Rightarrow> bool"           \<comment> \<open>\<^verbatim>\<open>is_read_armed\<close>, \<^verbatim>\<open>is_write_armed\<close>\<close>
  uv_disarm :: "dir \<Rightarrow> 'h \<Rightarrow> 'h"            \<comment> \<open>\<^verbatim>\<open>disarm_read\<close>, \<^verbatim>\<open>disarm_write\<close>\<close>
  uv_park :: "dir \<Rightarrow> 'h \<Rightarrow> 'h"              \<comment> \<open>\<^verbatim>\<open>AwaiterRead\<close>, \<^verbatim>\<open>AwaiterWrite::await_suspend\<close>\<close>
  uv_edge :: "dir \<Rightarrow> 'h \<Rightarrow> 'h"              \<comment> \<open>the kernel reports an edge\<close>
  uv_poll :: "'h \<Rightarrow> 'h \<Rightarrow> bool"              \<comment> \<open>a turn of the poller\<close>
  uv_parked :: "dir \<Rightarrow> 'h \<Rightarrow> bool"
  uv_pending :: "dir \<Rightarrow> 'h \<Rightarrow> bool"

text \<open>
  The wake-up protocol. A hint is only cleared by \<^verbatim>\<open>disarm\<close>; parking in a direction whose hint is set resumes at once; the poller,
  handling an edge, resumes who is parked there or leaves the hint.
\<close>

definition uvent_laws :: "'h uvent \<Rightarrow> bool" where
  "uvent_laws u \<longleftrightarrow>
     (\<forall>d e h. uv_armed u e (uv_disarm u d h) = (uv_armed u e h \<and> e \<noteq> d)
        \<and> uv_pending u e (uv_disarm u d h) = uv_pending u e h \<and> uv_parked u e (uv_disarm u d h) = uv_parked u e h) \<and>
     (\<forall>d e h. uv_armed u e (uv_edge u d h) = uv_armed u e h
        \<and> uv_pending u e (uv_edge u d h) = (uv_pending u e h \<or> e = d) \<and> uv_parked u e (uv_edge u d h) = uv_parked u e h) \<and>
     (\<forall>d e h. uv_parked u e (uv_park u d h) = (if e = d then \<not> uv_armed u d h else uv_parked u e h)
        \<and> uv_pending u e (uv_park u d h) = uv_pending u e h) \<and>
     (\<forall>d h h'. uv_poll u h h' \<longrightarrow>
        (uv_parked u d h' \<longrightarrow> uv_parked u d h)
        \<and> (\<not> uv_parked u d h \<longrightarrow> uv_armed u d h \<longrightarrow> uv_armed u d h')
        \<and> (uv_pending u d h \<longrightarrow> uv_pending u d h' \<or> (if uv_parked u d h then \<not> uv_parked u d h' else uv_armed u d h')))"

section \<open>The wait\<close>

definition dir_of :: "Kind \<Rightarrow> dir" where
  "dir_of kind = (if kind = IoWrite \<or> kind = IoHandshakeWrite then Out else In)"

definition disarm_if :: "'h uvent \<Rightarrow> dir \<Rightarrow> 'h \<Rightarrow> 'h" where
  "disarm_if u d h = (if uv_armed u d h then uv_disarm u d h else h)"

text \<open>The two halves of the \<^verbatim>\<open>switch\<close>: clearing the hint, and the probe of the kernel behind it.\<close>

definition clear_hint :: "'h uvent \<Rightarrow> Kind \<Rightarrow> 'h \<Rightarrow> 'h" where
  "clear_hint u kind h =
     (case kind of
        IoRead \<Rightarrow> disarm_if u In h | IoListenRead \<Rightarrow> disarm_if u In h | IoWrite \<Rightarrow> h
      | IoHandshakeRead \<Rightarrow> disarm_if u In h | IoHandshakeWrite \<Rightarrow> disarm_if u Out h)"

definition probe :: "Kind \<Rightarrow> errno \<Rightarrow> kernel \<Rightarrow> bool" where
  "probe kind none k =
     (case kind of
        IoRead \<Rightarrow> read_would_not_block (recv_peek none k)
      | IoListenRead \<Rightarrow> read_would_not_block (recv_peek none k)
      | IoWrite \<Rightarrow> False
      | IoHandshakeRead \<Rightarrow> poll_now In k
      | IoHandshakeWrite \<Rightarrow> poll_now Out k)"

text \<open>Whether a wait that is about to park publishes its start for the watchdog, and whether \<^verbatim>\<open>await_resume\<close> ends it.\<close>

definition marks_begin :: "Kind \<Rightarrow> bool" where
  "marks_begin kind =
     (case kind of IoRead \<Rightarrow> True | IoWrite \<Rightarrow> True | IoListenRead \<Rightarrow> False | IoHandshakeRead \<Rightarrow> False | IoHandshakeWrite \<Rightarrow> False)"

definition marks_end :: "Kind \<Rightarrow> bool" where
  "marks_end kind \<longleftrightarrow> kind = IoRead \<or> kind = IoWrite"

definition registered :: "'h uvent \<Rightarrow> 'h \<Rightarrow> bool" where
  "registered u h \<longleftrightarrow> \<not> (uv_fd u h < 0 \<or> uv_is_disconnected_now u h)"

text \<open>\<^verbatim>\<open>await_ready\<close> as one call that nothing interrupts: whether not to park, the header, whether the start was published.\<close>

definition await_ready :: "'h uvent \<Rightarrow> Kind \<Rightarrow> errno \<Rightarrow> kernel \<Rightarrow> 'h \<Rightarrow> bool \<times> 'h \<times> bool" where
  "await_ready u kind none k h =
     (if \<not> registered u h then (True, h, False)
      else let h = clear_hint u kind h in
        if probe kind none k then (True, h, False) else (False, h, marks_begin kind))"

section \<open>Interleavings\<close>

text \<open>
  Where the coroutine is: running; in \<^verbatim>\<open>flush_step\<close> with the write hint cleared, and behind a send that would have blocked; in
  \<^verbatim>\<open>await_ready\<close> behind the clearing of the hint; behind a probe that found nothing; parked.
\<close>

datatype wpc = Running | Flushing | Blocked | Cleared Kind | Refused Kind | ParkedIn Kind

record 'h io =
  io_kernel :: kernel
  io_hdr :: 'h
  io_marked :: bool                 \<comment> \<open>\<^verbatim>\<open>await_since_ms_ != 0\<close>\<close>
  io_pc :: wpc

definition await_resume :: "Kind \<Rightarrow> 'h io \<Rightarrow> 'h io" where
  "await_resume kind s = s\<lparr>io_marked := (if marks_end kind then False else io_marked s), io_pc := Running\<rparr>"

text \<open>The coroutine goes on when it is not, or no longer, parked in the direction of its wait.\<close>

definition unless_parked :: "'h uvent \<Rightarrow> Kind \<Rightarrow> 'h io \<Rightarrow> 'h io" where
  "unless_parked u kind s =
     (if uv_parked u (dir_of kind) (io_hdr s) then s\<lparr>io_pc := ParkedIn kind\<rparr> else await_resume kind s)"

definition await_suspend :: "'h uvent \<Rightarrow> Kind \<Rightarrow> 'h io \<Rightarrow> 'h io" where
  "await_suspend u kind s = unless_parked u kind (s\<lparr>io_hdr := uv_park u (dir_of kind) (io_hdr s)\<rparr>)"

definition polled :: "'h uvent \<Rightarrow> 'h \<Rightarrow> 'h io \<Rightarrow> 'h io" where
  "polled u h s =
     (case io_pc s of ParkedIn kind \<Rightarrow> unless_parked u kind (s\<lparr>io_hdr := h\<rparr>) | _ \<Rightarrow> s\<lparr>io_hdr := h\<rparr>)"

text \<open>
  The kernel takes in bytes, the end of the stream or an error (\<open>arrive\<close>) and drains what was sent (\<open>drain_out\<close>), and reports each. Write waits
  only follow a \<^verbatim>\<open>flush_step\<close> that could not send everything.
\<close>

inductive io_step :: "'h uvent \<Rightarrow> 'h io \<Rightarrow> 'h io \<Rightarrow> bool" for u where
  enter: "io_pc s = Running \<and> kind \<noteq> IoWrite \<or> io_pc s = Blocked \<and> kind = IoWrite \<Longrightarrow> registered u (io_hdr s)
    \<Longrightarrow> io_step u s (s\<lparr>io_hdr := clear_hint u kind (io_hdr s), io_pc := Cleared kind\<rparr>)"
| enter_closed: "io_pc s = Running \<and> kind \<noteq> IoWrite \<or> io_pc s = Blocked \<and> kind = IoWrite \<Longrightarrow> \<not> registered u (io_hdr s)
    \<Longrightarrow> io_step u s (await_resume kind s)"
| probe_ready: "io_pc s = Cleared kind \<Longrightarrow> probe kind none (io_kernel s) \<Longrightarrow> io_step u s (await_resume kind s)"
| probe_blocks: "io_pc s = Cleared kind \<Longrightarrow> \<not> probe kind none (io_kernel s)
    \<Longrightarrow> io_step u s (s\<lparr>io_marked := io_marked s \<or> marks_begin kind, io_pc := Refused kind\<rparr>)"
| suspend: "io_pc s = Refused kind \<Longrightarrow> io_step u s (await_suspend u kind s)"
| poller: "uv_poll u (io_hdr s) h \<Longrightarrow> io_step u s (polled u h s)"
| arrive: "kn_bytes (io_kernel s) \<le> kn_bytes k \<Longrightarrow> kn_space k = kn_space (io_kernel s) \<Longrightarrow> e = kn_error k \<Longrightarrow>
    io_step u s (s\<lparr>io_kernel := k, io_hdr := uv_edge u In (if e then uv_edge u Out (io_hdr s) else io_hdr s)\<rparr>)"
| drain_out: "kn_space (io_kernel s) \<le> n \<Longrightarrow>
    io_step u s (s\<lparr>io_kernel := (io_kernel s)\<lparr>kn_space := n\<rparr>, io_hdr := uv_edge u Out (io_hdr s)\<rparr>)"
| receive: "io_pc s = Running \<Longrightarrow> n \<le> kn_bytes (io_kernel s)
    \<Longrightarrow> io_step u s (s\<lparr>io_kernel := (io_kernel s)\<lparr>kn_bytes := n, kn_error := kn_error (io_kernel s) \<and> b\<rparr>\<rparr>)"
| flush: "io_pc s = Running \<Longrightarrow> io_step u s (s\<lparr>io_hdr := disarm_if u Out (io_hdr s), io_pc := Flushing\<rparr>)"
| flushed: "io_pc s = Flushing \<Longrightarrow> n \<le> kn_space (io_kernel s)
    \<Longrightarrow> io_step u s (s\<lparr>io_kernel := (io_kernel s)\<lparr>kn_space := n\<rparr>, io_pc := Running\<rparr>)"
| flush_blocked: "io_pc s = Flushing \<Longrightarrow> \<not> kn_error (io_kernel s)
    \<Longrightarrow> io_step u s (s\<lparr>io_kernel := (io_kernel s)\<lparr>kn_space := 0\<rparr>, io_pc := Blocked\<rparr>)"

definition fresh_io :: "'h uvent \<Rightarrow> 'h io \<Rightarrow> bool" where
  "fresh_io u s \<longleftrightarrow> io_pc s = Running \<and> \<not> io_marked s \<and> \<not> uv_parked u In (io_hdr s) \<and> \<not> uv_parked u Out (io_hdr s)"

section \<open>No lost wake-up\<close>

definition signalled :: "'h uvent \<Rightarrow> dir \<Rightarrow> 'h \<Rightarrow> bool" where
  "signalled u d h \<longleftrightarrow> uv_pending u d h \<or> uv_armed u d h"

definition waits_in :: "dir \<Rightarrow> wpc \<Rightarrow> bool" where
  "waits_in d p = (case p of ParkedIn kind \<Rightarrow> d = dir_of kind | _ \<Rightarrow> False)"

definition published :: "wpc \<Rightarrow> bool" where
  "published p = (case p of ParkedIn kind \<Rightarrow> marks_end kind | Refused kind \<Rightarrow> marks_end kind | _ \<Rightarrow> False)"

text \<open>Behind the probe, everything that is ready is signalled; behind the park, it is an edge the poller has yet to handle.\<close>

definition io_inv :: "'h uvent \<Rightarrow> 'h io \<Rightarrow> bool" where
  "io_inv u s \<longleftrightarrow>
     (\<forall>d. uv_parked u d (io_hdr s) = waits_in d (io_pc s)) \<and>
     io_marked s = published (io_pc s) \<and>
     (case io_pc s of
        Refused kind \<Rightarrow> poll_now (dir_of kind) (io_kernel s) \<longrightarrow> signalled u (dir_of kind) (io_hdr s)
      | ParkedIn kind \<Rightarrow> poll_now (dir_of kind) (io_kernel s) \<longrightarrow> uv_pending u (dir_of kind) (io_hdr s)
      | Blocked \<Rightarrow> poll_now Out (io_kernel s) \<longrightarrow> signalled u Out (io_hdr s)
      | Cleared kind \<Rightarrow> kind = IoWrite \<longrightarrow> poll_now Out (io_kernel s) \<longrightarrow> signalled u Out (io_hdr s)
      | _ \<Rightarrow> True)"


lemma disarm_if_laws:
  assumes "uvent_laws u"
  shows "uv_armed u e (disarm_if u d h) = (uv_armed u e h \<and> e \<noteq> d)"
    and "uv_pending u e (disarm_if u d h) = uv_pending u e h"
    and "uv_parked u e (disarm_if u d h) = uv_parked u e h"
  using assms unfolding uvent_laws_def disarm_if_def by (cases d; cases e; simp)+

lemma edge_laws:
  assumes "uvent_laws u"
  shows "uv_armed u e (uv_edge u d h) = uv_armed u e h"
    and "uv_pending u e (uv_edge u d h) = (uv_pending u e h \<or> e = d)"
    and "uv_parked u e (uv_edge u d h) = uv_parked u e h"
  using assms by (simp_all add: uvent_laws_def)

lemma park_laws:
  assumes "uvent_laws u"
  shows "uv_parked u e (uv_park u d h) = (if e = d then \<not> uv_armed u d h else uv_parked u e h)"
    and "uv_pending u e (uv_park u d h) = uv_pending u e h"
  using assms by (simp_all add: uvent_laws_def)

lemma poll_laws:
  assumes "uvent_laws u" "uv_poll u h h'"
  shows poll_parked: "uv_parked u d h' \<Longrightarrow> uv_parked u d h"
    and poll_armed: "\<not> uv_parked u d h \<Longrightarrow> uv_armed u d h \<Longrightarrow> uv_armed u d h'"
    and poll_signalled: "\<not> uv_parked u d h \<Longrightarrow> signalled u d h \<Longrightarrow> signalled u d h'"
    and poll_wakes: "uv_parked u d h' \<Longrightarrow> uv_pending u d h \<Longrightarrow> uv_pending u d h'"
  using assms unfolding uvent_laws_def signalled_def by metis+

text \<open>A probe that finds nothing is right about reading: no bytes, no end of the stream, no error.\<close>

lemma probe_exact: "kind \<noteq> IoWrite \<Longrightarrow> probe kind none k = poll_now (dir_of kind) k"
  by (cases kind; cases none) (auto simp: probe_def dir_of_def poll_now_def read_would_not_block_def recv_peek_def)

lemma clear_hint_laws:
  assumes "uvent_laws u"
  shows "uv_parked u e (clear_hint u kind h) = uv_parked u e h"
    and "kind \<noteq> IoWrite \<Longrightarrow> \<not> uv_armed u (dir_of kind) (clear_hint u kind h)"
    and "clear_hint u IoWrite h = h"
  using assms by (auto simp: clear_hint_def dir_of_def disarm_if_laws split: Kind.split)

lemmas wait_laws = disarm_if_laws edge_laws park_laws clear_hint_laws

lemma marks_begin_end: "marks_begin kind = marks_end kind"
  by (auto simp: marks_begin_def marks_end_def split: Kind.split)

lemmas pc_simps = waits_in_def published_def

lemma unless_parked_inv:
  assumes "\<And>d. uv_parked u d (io_hdr s) \<Longrightarrow> d = dir_of kind"
    and "io_marked s = marks_end kind"
    and "uv_parked u (dir_of kind) (io_hdr s) \<Longrightarrow> poll_now (dir_of kind) (io_kernel s) \<Longrightarrow> uv_pending u (dir_of kind) (io_hdr s)"
  shows "io_inv u (unless_parked u kind s)"
proof (cases "uv_parked u (dir_of kind) (io_hdr s)")
  case True
  moreover have "uv_parked u d (io_hdr s) = (d = dir_of kind)" for d
    using True assms(1) [of d] by blast
  ultimately show ?thesis
    using assms(2,3) by (simp add: io_inv_def unless_parked_def pc_simps)
next
  case False
  then have "\<not> uv_parked u d (io_hdr s)" for d
    using assms(1) [of d] by auto
  then show ?thesis
    using False assms(2) by (simp add: io_inv_def unless_parked_def await_resume_def pc_simps)
qed

lemma suspend_inv:
  assumes L: "uvent_laws u" and I: "io_inv u s" and p: "io_pc s = Refused kind"
  shows "io_inv u (await_suspend u kind s)"
proof -
  have q: "\<not> uv_parked u d (io_hdr s)" "io_marked s = marks_end kind" for d
    using I p by (simp_all add: io_inv_def pc_simps)
  have "poll_now (dir_of kind) (io_kernel s) \<Longrightarrow> signalled u (dir_of kind) (io_hdr s)"
    using I p by (simp add: io_inv_def)
  then show ?thesis
    unfolding await_suspend_def using q
    by (intro unless_parked_inv) (simp_all add: park_laws [OF L] signalled_def split: if_splits)
qed

lemma polled_inv:
  assumes L: "uvent_laws u" and I: "io_inv u s" and p: "uv_poll u (io_hdr s) h"
  shows "io_inv u (polled u h s)"
proof (cases "\<exists>kind. io_pc s = ParkedIn kind")
  case True
  then obtain kind where w: "io_pc s = ParkedIn kind" by blast
  have q: "uv_parked u d (io_hdr s) = (d = dir_of kind)" "io_marked s = marks_end kind" for d
    using I w by (simp_all add: io_inv_def pc_simps)
  have e: "uv_pending u (dir_of kind) (io_hdr s)" if "poll_now (dir_of kind) (io_kernel s)"
    using I w that by (simp add: io_inv_def)
  have i: "d = dir_of kind" if "uv_parked u d h" for d
    using poll_parked [OF L p that] q(1) [of d] by blast
  have j: "uv_pending u (dir_of kind) h" if "uv_parked u (dir_of kind) h" "poll_now (dir_of kind) (io_kernel s)"
    by (rule poll_wakes [OF L p that(1) e [OF that(2)]])
  have "io_inv u (unless_parked u kind (s\<lparr>io_hdr := h\<rparr>))"
    by (rule unless_parked_inv) (auto simp: q(2) dest: i intro: j)
  then show ?thesis
    using w by (simp add: polled_def)
next
  case False
  then have np: "\<not> uv_parked u d (io_hdr s)" for d
    using I by (cases "io_pc s") (auto simp: io_inv_def pc_simps)
  then show ?thesis
    using False I poll_parked [OF L p] poll_signalled [OF L p np]
    by (cases "io_pc s") (auto simp: polled_def io_inv_def pc_simps)
qed

lemma io_step_inv:
  assumes L: "uvent_laws u"
  shows "io_step u s s' \<Longrightarrow> io_inv u s \<Longrightarrow> io_inv u s'"
proof (induction rule: io_step.induct)
  case (enter s kind)
  then show ?case by (auto simp: io_inv_def pc_simps wait_laws [OF L])
next
  case (enter_closed s kind)
  then show ?case by (auto simp: io_inv_def pc_simps await_resume_def)
next
  case (probe_ready s kind none)
  then show ?case by (auto simp: io_inv_def pc_simps await_resume_def)
next
  case (probe_blocks s kind none)
  then show ?case
    by (cases "kind = IoWrite") (auto simp: io_inv_def pc_simps probe_exact marks_begin_end dir_of_def)
next
  case (suspend s kind)
  then show ?case by (blast intro: suspend_inv [OF L])
next
  case (poller s h)
  then show ?case by (blast intro: polled_inv [OF L])
next
  case (arrive s k e)
  then show ?case
    by (auto simp: io_inv_def pc_simps edge_laws [OF L] signalled_def poll_now_def split: wpc.splits dir.splits)
next
  case (drain_out s n)
  then show ?case
    by (auto simp: io_inv_def pc_simps edge_laws [OF L] signalled_def poll_now_def split: wpc.splits dir.splits)
next
  case (receive s n b)
  then show ?case by (auto simp: io_inv_def pc_simps)
next
  case (flush s)
  then show ?case by (auto simp: io_inv_def pc_simps wait_laws [OF L])
next
  case (flushed s n)
  then show ?case by (auto simp: io_inv_def pc_simps)
next
  case (flush_blocked s)
  then show ?case by (auto simp: io_inv_def pc_simps poll_now_def)
qed

lemma fresh_io_inv: "fresh_io u s \<Longrightarrow> io_inv u s"
  using dir.exhaust unfolding fresh_io_def io_inv_def pc_simps by (simp) metis


lemma io_run_inv:
  assumes "uvent_laws u" "fresh_io u s0" "(io_step u)\<^sup>*\<^sup>* s0 s"
  shows "io_inv u s"
  using assms(3,1,2) by (induction rule: rtranclp_induct) (auto intro: fresh_io_inv io_step_inv)

text \<open>A call of \<^verbatim>\<open>await_ready\<close> that nothing comes between is one of the interleavings.\<close>

lemma await_ready_steps:
  assumes at: "io_pc s = Running \<and> kind \<noteq> IoWrite \<or> io_pc s = Blocked \<and> kind = IoWrite"
    and call: "await_ready u kind none (io_kernel s) (io_hdr s) = (ready, h, m)"
  shows "(io_step u)\<^sup>*\<^sup>* s
    (if ready then await_resume kind (s\<lparr>io_hdr := h\<rparr>) else s\<lparr>io_hdr := h, io_marked := io_marked s \<or> m, io_pc := Refused kind\<rparr>)"
proof (cases "registered u (io_hdr s)")
  case True
  let ?t = "s\<lparr>io_hdr := clear_hint u kind (io_hdr s), io_pc := Cleared kind\<rparr>"
  note e = io_step.enter [OF at True]
  show ?thesis
  proof (cases "probe kind none (io_kernel s)")
    case probed: True
    then have "io_step u ?t (await_resume kind (s\<lparr>io_hdr := clear_hint u kind (io_hdr s)\<rparr>))"
      using io_step.probe_ready [of ?t kind none u] by (cases "marks_end kind") (simp_all add: await_resume_def)
    with e probed True call show ?thesis
      by (auto simp: await_ready_def Let_def)
  next
    case probed: False
    then show ?thesis
      using e True call io_step.probe_blocks [of ?t kind none u] by (auto simp: await_ready_def Let_def)
  qed
next
  case False
  then show ?thesis
    using io_step.enter_closed [OF at] call by (auto simp: await_ready_def)
qed

text \<open>
  The watchdog's shutdown is a step of the kernel that leaves an unhandled edge in both directions; so it reaches a parked coroutine
  whatever it waits for.
\<close>

lemma shutdown_signals:
  assumes "uvent_laws u" "s' = s\<lparr>io_kernel := shut_down (io_kernel s), io_hdr := uv_edge u In (uv_edge u Out (io_hdr s))\<rparr>"
  shows "io_step u s s' \<and> uv_pending u d (io_hdr s') \<and> poll_now d (io_kernel s')"
  using io_step.arrive [of s "shut_down (io_kernel s)" True u] assms(2)
  by (cases d) (simp_all add: edge_laws [OF assms(1)] shut_down_def poll_now_def)

section \<open>An edge-triggered poller\<close>

text \<open>A header with a hint per direction and a poller that handles one reported edge per turn, as an instance of the laws.\<close>

record epoll =
  ep_hint :: "dir \<Rightarrow> bool"
  ep_parked :: "dir \<Rightarrow> bool"
  ep_pending :: "dir \<Rightarrow> bool"

definition ep_handle :: "dir \<Rightarrow> epoll \<Rightarrow> epoll" where
  "ep_handle d h =
     (if ep_parked h d then h\<lparr>ep_parked := (ep_parked h)(d := False)\<rparr> else h\<lparr>ep_hint := (ep_hint h)(d := True)\<rparr>)
       \<lparr>ep_pending := (ep_pending h)(d := False)\<rparr>"

definition ep_uvent :: "epoll uvent" where
  "ep_uvent = \<lparr>uv_fd = (\<lambda>h. 7), uv_is_disconnected_now = (\<lambda>h. False), uv_armed = (\<lambda>d h. ep_hint h d),
     uv_disarm = (\<lambda>d h. h\<lparr>ep_hint := (ep_hint h)(d := False)\<rparr>),
     uv_park = (\<lambda>d h. h\<lparr>ep_parked := (ep_parked h)(d := \<not> ep_hint h d)\<rparr>),
     uv_edge = (\<lambda>d h. h\<lparr>ep_pending := (ep_pending h)(d := True)\<rparr>),
     uv_poll = (\<lambda>h h'. ep_pending h In \<and> h' = ep_handle In h \<or> ep_pending h Out \<and> h' = ep_handle Out h),
     uv_parked = (\<lambda>d h. ep_parked h d), uv_pending = (\<lambda>d h. ep_pending h d)\<rparr>"

lemma ep_uvent_sel [simp]:
  "registered ep_uvent h" "uv_armed ep_uvent d h = ep_hint h d" "uv_parked ep_uvent d h = ep_parked h d"
  "uv_pending ep_uvent d h = ep_pending h d" "uv_disarm ep_uvent d h = h\<lparr>ep_hint := (ep_hint h)(d := False)\<rparr>"
  "uv_park ep_uvent d h = h\<lparr>ep_parked := (ep_parked h)(d := \<not> ep_hint h d)\<rparr>"
  "uv_edge ep_uvent d h = h\<lparr>ep_pending := (ep_pending h)(d := True)\<rparr>"
  by (simp_all add: ep_uvent_def registered_def)

lemma ep_uvent_laws: "uvent_laws ep_uvent"
  by (auto simp: uvent_laws_def ep_uvent_def ep_handle_def split: if_splits)

definition idle_epoll :: epoll where
  "idle_epoll = \<lparr>ep_hint = (\<lambda>d. False), ep_parked = (\<lambda>d. False), ep_pending = (\<lambda>d. False)\<rparr>"

definition quiet :: "nat \<Rightarrow> kernel" where
  "quiet n = \<lparr>kn_bytes = n, kn_eof = False, kn_error = False, kn_space = 9\<rparr>"

text \<open>A query parks, and three bytes arrive.\<close>

definition woken_hdr :: epoll where
  "woken_hdr = idle_epoll\<lparr>ep_parked := (\<lambda>d. False)(In := True), ep_pending := (\<lambda>d. False)(In := True)\<rparr>"

lemma parks_and_is_reported:
  "(io_step ep_uvent)\<^sup>*\<^sup>* \<lparr>io_kernel = quiet 0, io_hdr = idle_epoll, io_marked = False, io_pc = Running\<rparr>
     \<lparr>io_kernel = quiet 3, io_hdr = woken_hdr, io_marked = True, io_pc = ParkedIn IoRead\<rparr>"
proof -
  let ?s = "\<lambda>k h. \<lparr>io_kernel = quiet k, io_hdr = h, io_marked = True, io_pc = ParkedIn IoRead\<rparr>"
  let ?p = "idle_epoll\<lparr>ep_parked := (\<lambda>d. False)(In := True)\<rparr>"
  have "io_step ep_uvent \<lparr>io_kernel = quiet 0, io_hdr = idle_epoll, io_marked = False, io_pc = Running\<rparr>
    \<lparr>io_kernel = quiet 0, io_hdr = idle_epoll, io_marked = False, io_pc = Cleared IoRead\<rparr>" (is "io_step _ ?a ?b")
    using io_step.enter [of ?a IoRead ep_uvent] by (simp add: clear_hint_def disarm_if_def idle_epoll_def)
  moreover have "io_step ep_uvent ?b \<lparr>io_kernel = quiet 0, io_hdr = idle_epoll, io_marked = True, io_pc = Refused IoRead\<rparr>"
    (is "io_step _ _ ?c")
    using io_step.probe_blocks [of ?b IoRead EAGAIN ep_uvent]
    by (simp add: probe_def recv_peek_def read_would_not_block_def marks_begin_def quiet_def)
  moreover have "io_step ep_uvent ?c (?s 0 ?p)"
    using io_step.suspend [of ?c IoRead ep_uvent] by (simp add: await_suspend_def unless_parked_def dir_of_def idle_epoll_def)
  moreover have "io_step ep_uvent (?s 0 ?p) (?s 3 woken_hdr)"
    using io_step.arrive [of "?s 0 ?p" "quiet 3" False ep_uvent] by (simp add: quiet_def woken_hdr_def idle_epoll_def)
  ultimately show ?thesis
    by (meson converse_rtranclp_into_rtranclp rtranclp.rtrancl_refl)
qed

section \<open>Properties\<close>

text \<open>C35: No wake-up is lost. Whatever the interleaving of the coroutine, the poller and the kernel, a coroutine that is parked on
  a socket that is ready for it (bytes, end of the stream, an error, room to send) has an edge the poller has not handled yet, and
  the turn of the poller that handles it resumes the coroutine. Its wait is published to the watchdog exactly when it is a wait of a query.\<close>

theorem io_wait_no_lost_wakeup:
  assumes laws: "uvent_laws u" and init: "fresh_io u s0" and run: "(io_step u)\<^sup>*\<^sup>* s0 s" and parked: "io_pc s = ParkedIn kind"
  shows "(poll_now (dir_of kind) (io_kernel s) \<longrightarrow> uv_pending u (dir_of kind) (io_hdr s))
    \<and> (\<forall>h. uv_poll u (io_hdr s) h \<longrightarrow> uv_pending u (dir_of kind) (io_hdr s) \<longrightarrow> \<not> uv_pending u (dir_of kind) h
          \<longrightarrow> io_pc (polled u h s) = Running \<and> \<not> io_marked (polled u h s))
    \<and> io_marked s = (kind = IoRead \<or> kind = IoWrite)"
proof -
  have I: "io_inv u s"
    by (rule io_run_inv [OF laws init run])
  have "io_pc (polled u h s) = Running \<and> \<not> io_marked (polled u h s)"
    if "uv_poll u (io_hdr s) h" "uv_pending u (dir_of kind) (io_hdr s)" "\<not> uv_pending u (dir_of kind) h" for h
  proof -
    have "\<not> uv_parked u (dir_of kind) h"
      using poll_wakes [OF laws that(1) _ that(2)] that(3) by blast
    moreover have "io_marked s = marks_end kind"
      using I parked by (simp add: io_inv_def pc_simps)
    ultimately show ?thesis
      using parked by (simp add: polled_def unless_parked_def await_resume_def)
  qed
  then show ?thesis
    using I parked by (simp add: io_inv_def pc_simps marks_end_def)
qed

theorem io_wait_no_lost_wakeup_witness:
  "io_pc (polled ep_uvent (ep_handle In woken_hdr)
     \<lparr>io_kernel = quiet 3, io_hdr = woken_hdr, io_marked = True, io_pc = ParkedIn IoRead\<rparr>) = Running"
proof -
  have "fresh_io ep_uvent \<lparr>io_kernel = quiet 0, io_hdr = idle_epoll, io_marked = False, io_pc = Running\<rparr>"
    by (simp add: fresh_io_def idle_epoll_def)
  note w = io_wait_no_lost_wakeup [OF ep_uvent_laws this parks_and_is_reported, of IoRead]
  have "uv_poll ep_uvent woken_hdr (ep_handle In woken_hdr)"
    by (simp add: ep_uvent_def woken_hdr_def)
  moreover have "\<not> ep_pending (ep_handle In woken_hdr) In"
    by (simp add: ep_handle_def)
  ultimately show ?thesis
    using w by (simp add: dir_of_def poll_now_def quiet_def)
qed

end
