(* ===== verification/Pg_Pool.thy ===== *)
theory Pg_Pool
  imports Pg_Copy Pg_Params Pg_Reflect
begin

text \<open>
  The connection pool (\<^verbatim>\<open>PgPool\<close>): its state, taking, creating and giving back connections, the
  accounting of dead ones, the I/O watchdog pass, and the pooled statement coroutine \<^verbatim>\<open>run\<close>.

  A \<^verbatim>\<open>ConnPtr\<close> is the index of the connection in the list of all connections the pool ever created, a
  null pointer is \<open>None\<close>. \<^verbatim>\<open>MPMCQueue\<close> and \<^verbatim>\<open>AsyncSemaphore\<close> are code of another library: the queue is
  a FIFO list with a capacity, the semaphore a counter. The functions of this theory run one handler
  without interference, except that a wait on the semaphore lets others change the pool; all
  interleavings of the handlers' atomic actions are the subject of the theory \<open>Pg_Pool_Steps\<close>.
\<close>

section \<open>State\<close>

type_synonym cid = nat

record HealthStats =
  st_checked :: u64
  st_alive :: u64
  st_reconnected :: u64
  st_transient_retries :: u64
  st_io_watchdog_aborts :: u64
  st_connection_loss_retries :: u64
  st_deadline_retries :: u64
  st_rollback_retries :: u64
  st_stale_dropped :: u64

definition zero_stats :: HealthStats where
  "zero_stats = \<lparr>st_checked = 0, st_alive = 0, st_reconnected = 0, st_transient_retries = 0,
     st_io_watchdog_aborts = 0, st_connection_loss_retries = 0, st_deadline_retries = 0,
     st_rollback_retries = 0, st_stale_dropped = 0\<rparr>"

record RetryEvent =
  re_cls :: RetryClass
  re_attempt :: int
  re_delay_ms :: u32
  re_code :: PgErrorCode
  re_sqlstate :: string
  re_message :: string
  re_db :: string
  re_user :: string
  re_in_transaction :: bool

text \<open>What the constructor fixes; \<open>cf_ip4\<close> and \<open>cf_ip6\<close> stand for \<^verbatim>\<open>inet_pton\<close>.\<close>

record PoolConfig =
  cf_host :: string
  cf_port :: string
  cf_user :: string
  cf_db :: string
  cf_password :: string
  cf_retries :: int
  cf_ssl :: SSLConfig
  cf_keepalive :: TCPKeepaliveConfig
  cf_policy :: RetryPolicy
  cf_ip4 :: "string \<Rightarrow> bool"
  cf_ip6 :: "string \<Rightarrow> bool"

record 'c pool =
  pl_max_pool :: u64
  pl_capacity :: nat                  \<comment> \<open>of the idle queue\<close>
  pl_live_count :: u64
  pl_idle :: "cid list"
  pl_sem :: nat                       \<comment> \<open>permits of \<^verbatim>\<open>idle_sem_\<close>\<close>
  pl_conns :: "'c conn list"          \<comment> \<open>every connection created, by \<open>cid\<close>\<close>
  pl_registered :: "cid list"         \<comment> \<open>\<^verbatim>\<open>conns_\<close>, the watchdog's list\<close>
  pl_stats :: HealthStats
  pl_watchdog_started :: bool
  pl_events :: "RetryEvent list"      \<comment> \<open>events handed to the observer or logged\<close>

definition new_pool :: "u64 \<Rightarrow> nat \<Rightarrow> 'c pool" where
  "new_pool max_pool_size capacity = \<lparr>pl_max_pool = max_pool_size, pl_capacity = capacity,
     pl_live_count = 0, pl_idle = [], pl_sem = 0, pl_conns = [], pl_registered = [],
     pl_stats = zero_stats, pl_watchdog_started = False, pl_events = []\<rparr>"

definition conn_at :: "'c pool \<Rightarrow> cid \<Rightarrow> 'c conn" where
  "conn_at p cid = pl_conns p ! cid"

definition set_conn :: "cid \<Rightarrow> 'c conn \<Rightarrow> 'c pool \<Rightarrow> 'c pool" where
  "set_conn cid c p = p\<lparr>pl_conns := (pl_conns p)[cid := c]\<rparr>"

definition bump :: "((u64 \<Rightarrow> u64) \<Rightarrow> HealthStats \<Rightarrow> HealthStats) \<Rightarrow> 'c pool \<Rightarrow> 'c pool" where
  "bump field p = p\<lparr>pl_stats := field (\<lambda>n. n + 1) (pl_stats p)\<rparr>"

section \<open>Acquire and release\<close>

definition mark_dead :: "cid option \<Rightarrow> 'c pool \<Rightarrow> 'c pool" where
  "mark_dead conn p =
     (case conn of
        None \<Rightarrow> p
      | Some cid \<Rightarrow>
          (let c = conn_at p cid in
           if cn_dead_accounted c then set_conn cid (conn_close c) p
           else let p = set_conn cid (conn_close (c\<lparr>cn_dead_accounted := True\<rparr>)) p
             in p\<lparr>pl_live_count := pl_live_count p - 1, pl_sem := pl_sem p + 1\<rparr>))"

lemma mark_dead_idle [simp]: "pl_idle (mark_dead conn p) = pl_idle p"
  by (simp add: mark_dead_def set_conn_def Let_def split: option.split)

text \<open>
  The body of the loop of \<^verbatim>\<open>take_idle\<close> for a connection taken off the queue: whether it is handed out.
  Only non-null pointers are ever queued (\<^verbatim>\<open>release_connection\<close> returns before), so
  \<^verbatim>\<open>if (!conn) continue\<close> has no case.
\<close>

definition check_idle :: "'c libpq \<Rightarrow> cid \<Rightarrow> 'c pool \<Rightarrow> bool \<times> 'c pool" where
  "check_idle L cid p =
     (let p = bump st_checked_update p; c = conn_at p cid in
      if \<not> connected L c \<or> \<not> is_idle L c then (False, mark_dead (Some cid) p)
      else (case idle_socket_alive L c of (alive, c') \<Rightarrow>
          let p = set_conn cid c' p in
          if \<not> alive then (False, mark_dead (Some cid) (bump st_stale_dropped_update p))
          else (True, bump st_alive_update p)))"

lemma check_idle_idle: "check_idle L cid p = (b, q) \<Longrightarrow> pl_idle q = pl_idle p"
  by (auto simp: check_idle_def Let_def bump_def set_conn_def split: if_splits prod.splits)

function take_idle :: "'c libpq \<Rightarrow> 'c pool \<Rightarrow> cid option \<times> 'c pool" where
  "take_idle L p =
     (case pl_idle p of
        [] \<Rightarrow> (None, p)
      | cid # rest \<Rightarrow>
          (case check_idle L cid (p\<lparr>pl_idle := rest\<rparr>) of (ok, q) \<Rightarrow>
             if ok then (Some cid, q) else take_idle L q))"
  by pat_completeness auto
termination
  by (relation "measure (\<lambda>(L, p). length (pl_idle p))") (auto dest!: check_idle_idle [OF sym])

declare take_idle.simps [simp del]

definition register_connection :: "cid \<Rightarrow> 'c pool \<Rightarrow> 'c pool" where
  "register_connection cid p = p\<lparr>pl_registered := pl_registered p @ [cid]\<rparr>"

definition ensure_watchdog_started :: "'c pool \<Rightarrow> 'c pool" where
  "ensure_watchdog_started p = p\<lparr>pl_watchdog_started := True\<rparr>"

text \<open>What one connect attempt meets (see \<^const>\<open>connect_async\<close>), and whether the sleep behind it was cancelled.\<close>

record 'c attempt =
  at_start :: "string \<Rightarrow> ('c \<times> string option) option"
  at_nonblocking :: bool
  at_rounds :: "hs_round list"
  at_watched :: bool
  at_slept :: bool

text \<open>The connect loop of \<^verbatim>\<open>acquire_connection\<close>: \<open>Inr\<close> connected, \<open>Inl\<close> the last error.\<close>

fun connect_loop ::
  "int \<Rightarrow> int \<Rightarrow> string \<Rightarrow> 'c attempt list \<Rightarrow> string option \<Rightarrow> 'c conn
    \<Rightarrow> ((string option + unit) \<times> 'c conn \<times> 'c attempt list) async" where
  "connect_loop retries attempt ci ats last_err c =
     (if attempt \<ge> retries then Finished (Inl last_err, c, ats)
      else case ats of
          [] \<Rightarrow> Parked
        | a # ats' \<Rightarrow>
            (case connect_async (at_start a) (at_nonblocking a) (at_rounds a) (at_watched a) 5000 ci c of
               Parked \<Rightarrow> Parked | Stuck \<Rightarrow> Stuck
             | Finished (None, c') \<Rightarrow> Finished (Inr (), c', ats')
             | Finished (Some e, c') \<Rightarrow>
                 if attempt + 1 = retries then Finished (Inl (Some e), c', ats')
                 else if \<not> at_slept a then Finished (Inl (Some e), c', ats')
                 else connect_loop retries (attempt + 1) ci ats' (Some e) c'))"

declare connect_loop.simps [simp del]

text \<open>The part of \<^verbatim>\<open>acquire_connection\<close> behind a successful reservation.\<close>

definition create_connection ::
  "PoolConfig \<Rightarrow> 'c attempt list \<Rightarrow> 'c pool \<Rightarrow> ((PgOpError + cid) \<times> 'c pool \<times> 'c attempt list) async" where
  "create_connection cf ats p =
     (let cid = length (pl_conns p);
          p = register_connection cid (p\<lparr>pl_conns := pl_conns p @ [new_conn]\<rparr>)
      in case make_conninfo (cf_ip4 cf) (cf_ip6 cf) (cf_host cf) (cf_port cf) (cf_user cf) (cf_db cf)
                (cf_password cf) (cf_ssl cf) (cf_keepalive cf) of
           Inl _ \<Rightarrow> Finished (Inl \<lparr>oe_code = ProtocolCorrupt, oe_error = ''conninfo contains NUL'',
                                 oe_err_detail = no_detail\<rparr>, mark_dead (Some cid) p, ats)
         | Inr ci \<Rightarrow>
             (case connect_loop (cf_retries cf) 0 ci ats None (conn_at p cid) of
                Parked \<Rightarrow> Parked | Stuck \<Rightarrow> Stuck
              | Finished (Inr _, c, ats') \<Rightarrow> Finished (Inr cid, set_conn cid c p, ats')
              | Finished (Inl last_err, c, ats') \<Rightarrow>
                  Finished (Inl \<lparr>oe_code = TooManyConnections,
                      oe_error = ''Connection failed after retries''
                        @ (case last_err of None \<Rightarrow> [] | Some e \<Rightarrow> '': '' @ e),
                      oe_err_detail = no_detail\<rparr>,
                    mark_dead (Some cid) (bump st_reconnected_update (set_conn cid c p)), ats')))"

text \<open>
  \<^verbatim>\<open>acquire_connection\<close>. While it waits on the semaphore the others act: each element of \<open>sems\<close> is what
  they did to the pool until the next look at the semaphore, or \<open>None\<close> for a cancellation. \<open>waiting\<close>
  marks the await.
\<close>

lemma check_idle_sem: "check_idle L cid p = (b, q) \<Longrightarrow> pl_sem q \<le> pl_sem p + (if b then 0 else 1)"
  by (auto simp: check_idle_def mark_dead_def Let_def bump_def set_conn_def split: if_splits prod.splits)

lemma take_idle_measure:
  "take_idle L p = (r, q) \<Longrightarrow> length (pl_idle q) + pl_sem q \<le> length (pl_idle p) + pl_sem p"
proof (induction L p arbitrary: r q rule: take_idle.induct)
  case (1 L p)
  show ?case
  proof (cases "pl_idle p")
    case Nil
    with "1.prems" show ?thesis by (simp add: take_idle.simps)
  next
    case (Cons cid rest)
    obtain b p' where c: "check_idle L cid (p\<lparr>pl_idle := rest\<rparr>) = (b, p')" by fastforce
    have len: "length (pl_idle p') + pl_sem p' + (if b then 1 else 0) \<le> length (pl_idle p) + pl_sem p"
      using check_idle_sem [OF c] check_idle_idle [OF c] Cons by (cases b) simp_all
    show ?thesis
    proof (cases b)
      case True
      with "1.prems" c Cons len show ?thesis by (simp add: take_idle.simps [of L p])
    next
      case False
      with "1.prems" c Cons have "take_idle L p' = (r, q)" by (simp add: take_idle.simps [of L p])
      from "1.IH" [OF Cons c [symmetric] False this] len show ?thesis by simp
    qed
  qed
qed

function acquire_loop ::
  "'c libpq \<Rightarrow> PoolConfig \<Rightarrow> ('c pool \<Rightarrow> 'c pool) option list \<Rightarrow> 'c attempt list \<Rightarrow> bool \<Rightarrow> 'c pool
    \<Rightarrow> ((PgOpError + cid) \<times> 'c pool) async" where
  "acquire_loop L cf sems ats waiting p =
     (if waiting \<and> pl_sem p = 0
      then (case sems of
          [] \<Rightarrow> Parked
        | None # sems' \<Rightarrow>
            Finished (Inl \<lparr>oe_code = AwaitCanceled, oe_error = ''acquire canceled'', oe_err_detail = no_detail\<rparr>, p)
        | Some others # sems' \<Rightarrow> acquire_loop L cf sems' ats True (others p))
      else
        let p = (if waiting then p\<lparr>pl_sem := pl_sem p - 1\<rparr> else p) in
        case take_idle L p of
          (Some cid, p') \<Rightarrow> Finished (Inr cid, p')
        | (None, p') \<Rightarrow>
            if pl_live_count p' \<ge> pl_max_pool p' then acquire_loop L cf sems ats True p'
            else (case create_connection cf ats (p'\<lparr>pl_live_count := pl_live_count p' + 1\<rparr>) of
                Parked \<Rightarrow> Parked | Stuck \<Rightarrow> Stuck
              | Finished (r, p'', _) \<Rightarrow> Finished (r, p'')))"
  by pat_completeness auto
termination
  by (relation "(\<lambda>(L, cf, sems, ats, waiting, p). length sems)
        <*mlex*> measure (\<lambda>(L, cf, sems, ats, waiting, p). length (pl_idle p) + pl_sem p + (if waiting then 0 else 1))")
     (auto simp: mlex_prod_def wf_mlex dest!: take_idle_measure [OF sym] split: if_splits)

declare acquire_loop.simps [simp del]

definition acquire_connection ::
  "'c libpq \<Rightarrow> PoolConfig \<Rightarrow> ('c pool \<Rightarrow> 'c pool) option list \<Rightarrow> 'c attempt list \<Rightarrow> 'c pool
    \<Rightarrow> ((PgOpError + cid) \<times> 'c pool) async" where
  "acquire_connection L cf sems ats p = acquire_loop L cf sems ats False (ensure_watchdog_started p)"

definition release_connection :: "'c libpq \<Rightarrow> cid option \<Rightarrow> 'c pool \<Rightarrow> 'c pool" where
  "release_connection L conn p =
     (case conn of
        None \<Rightarrow> p
      | Some cid \<Rightarrow>
          (let c = set_io_deadline_ms 0 (conn_at p cid); p = set_conn cid c p in
           if \<not> connected L c \<or> \<not> is_idle L c then mark_dead conn p
           else if pl_capacity p \<le> length (pl_idle p) then mark_dead conn p
           else p\<lparr>pl_idle := pl_idle p @ [cid], pl_sem := pl_sem p + 1\<rparr>))"

definition release_connection_async ::
  "'c libpq \<Rightarrow> 'c wake list \<Rightarrow> cid option \<Rightarrow> 'c pool \<Rightarrow> ('c pool \<times> 'c wake list) async" where
  "release_connection_async L ws conn p =
     (case conn of
        None \<Rightarrow> Finished (p, ws)
      | Some cid \<Rightarrow>
          (let c = set_io_deadline_ms 0 (conn_at p cid); p = set_conn cid c p in
           if connected L c \<and> \<not> is_idle L c
           then (case pump_input L ws c of
               Parked \<Rightarrow> Parked | Stuck \<Rightarrow> Stuck
             | Finished (ok, c', ws') \<Rightarrow>
                 (case (if ok then discard_pending_results L c' else Some c') of
                    None \<Rightarrow> Stuck
                  | Some c'' \<Rightarrow> Finished (release_connection L conn (set_conn cid c'' p), ws')))
           else Finished (release_connection L conn p, ws)))"

text \<open>\<^verbatim>\<open>give_back\<close>: whether the connection was settled.\<close>

definition give_back :: "'c libpq \<Rightarrow> cid \<Rightarrow> QueryResult \<Rightarrow> RetryClass \<Rightarrow> 'c pool \<Rightarrow> bool \<times> 'c pool" where
  "give_back L cid qr cls p =
     (let conn_failed = (cls = NotStarted \<or> cls = ConnectionLost \<or> cls = Deadline \<or> is_fatal_connection_error qr)
      in if conn_failed \<or> \<not> connected L (conn_at p cid) then (True, mark_dead (Some cid) p)
         else if \<not> is_idle L (conn_at p cid) then (False, p)
         else (True, release_connection L (Some cid) p))"

text \<open>\<^verbatim>\<open>close_all\<close> closes what is idle.\<close>

fun close_all_loop :: "cid list \<Rightarrow> 'c pool \<Rightarrow> 'c pool" where
  "close_all_loop [] p = p"
| "close_all_loop (cid # cids) p =
     close_all_loop cids ((set_conn cid (conn_close (conn_at p cid)) p)\<lparr>pl_idle := cids\<rparr>)"

definition close_all :: "'c pool \<Rightarrow> 'c pool" where
  "close_all p = close_all_loop (pl_idle p) p"

section \<open>Watchdog\<close>

text \<open>
  One pass of \<^verbatim>\<open>io_watchdog_loop\<close>: \<open>expired\<close> tells for which weak pointers \<^verbatim>\<open>lock()\<close> fails, \<open>pending\<close> what
  \<^verbatim>\<open>FIONREAD\<close> reports per connection. The comparison \<^verbatim>\<open>now < since + deadline\<close> is on 64 bits.
\<close>

definition await_overdue :: "u64 \<Rightarrow> 'c conn \<Rightarrow> bool" where
  "await_overdue now c \<longleftrightarrow> \<not> (cn_await_since_ms c = 0 \<or> now < cn_await_since_ms c + io_deadline_ms c)"

definition watchdog_visit :: "'c libpq \<Rightarrow> u64 \<Rightarrow> (cid \<Rightarrow> int) \<Rightarrow> cid \<Rightarrow> 'c pool \<Rightarrow> 'c pool" where
  "watchdog_visit L now pending cid p =
     (if \<not> await_overdue now (conn_at p cid) then p
      else case abort_io_from_watchdog L now (pending cid) (conn_at p cid) of (shut, c') \<Rightarrow>
        let p = set_conn cid c' p in if shut then bump st_io_watchdog_aborts_update p else p)"

definition watchdog_pass ::
  "'c libpq \<Rightarrow> u64 \<Rightarrow> (cid \<Rightarrow> int) \<Rightarrow> (cid \<Rightarrow> bool) \<Rightarrow> 'c pool \<Rightarrow> 'c pool" where
  "watchdog_pass L now pending expired p =
     (let live = filter (\<lambda>cid. \<not> expired cid) (pl_registered p)
      in fold (watchdog_visit L now pending) live (p\<lparr>pl_registered := live\<rparr>))"

section \<open>Retries and pooled statements\<close>

definition note_retry :: "PoolConfig \<Rightarrow> RetryEvent \<Rightarrow> 'c pool \<Rightarrow> 'c pool" where
  "note_retry cf ev p =
     (let ev = ev\<lparr>re_db := cf_db cf, re_user := cf_user cf\<rparr>;
          p = (case re_cls ev of
                 NotStarted \<Rightarrow> bump st_transient_retries_update p
               | ConnectionLost \<Rightarrow> bump st_connection_loss_retries_update p
               | Deadline \<Rightarrow> bump st_deadline_retries_update p
               | RolledBack \<Rightarrow> bump st_rollback_retries_update p
               | NoRetry \<Rightarrow> p)
      in p\<lparr>pl_events := pl_events p @ [ev]\<rparr>)"

text \<open>The message of the log line: runs of blanks, tabs and line ends become one blank, none at the ends.\<close>

definition log_space :: "char \<Rightarrow> bool" where
  "log_space ch \<longleftrightarrow> ch = CHR 0x0A \<or> ch = CHR 0x09 \<or> ch = CHR 0x0D \<or> ch = CHR '' ''"

fun squeeze_blanks :: "string \<Rightarrow> string \<Rightarrow> string" where
  "squeeze_blanks [] msg = msg"
| "squeeze_blanks (ch # cs) msg =
     (if log_space ch \<and> (msg = [] \<or> last msg = CHR '' '') then squeeze_blanks cs msg
      else squeeze_blanks cs (msg @ [if log_space ch then CHR '' '' else ch]))"

definition log_message :: "string \<Rightarrow> string" where
  "log_message message =
     (let msg = squeeze_blanks message [] in if msg \<noteq> [] \<and> last msg = CHR '' '' then butlast msg else msg)"

definition retry_log_line :: "PoolConfig \<Rightarrow> RetryEvent \<Rightarrow> string" where
  "retry_log_line cf ev =
     (let sqlstate = (if re_sqlstate ev = [] then ''?'' else re_sqlstate ev) in
      if re_cls ev = NotStarted \<and> \<not> re_in_transaction ev
      then ''[UPQ/pool] transient backend error (sqlstate '' @ sqlstate @ '') db='' @ cf_db cf
        @ '' user='' @ cf_user cf @ '', retry '' @ show_int (re_attempt ev) @ ''/''
        @ show_int (transient_retry_attempts (cf_policy cf) - 1) @ '' in ''
        @ show_nat (unat (re_delay_ms ev)) @ ''ms'' @ [CHR 0x0A]
      else ''[UPQ/pool] '' @ (if re_in_transaction ev then ''transaction'' else ''statement'') @ '' retry ''
        @ show_int (re_attempt ev) @ '' after '' @ toString_retry (re_cls ev) @ '' (code ''
        @ toString_code (re_code ev) @ '', sqlstate '' @ sqlstate @ '') db='' @ cf_db cf @ '' user=''
        @ cf_user cf @ '' in '' @ show_nat (unat (re_delay_ms ev)) @ ''ms: '' @ log_message (re_message ev)
        @ [CHR 0x0A])"

text \<open>\<^verbatim>\<open>transient_backoff\<close>: the delay, and the pool behind the report.\<close>

definition transient_backoff :: "PoolConfig \<Rightarrow> nat \<Rightarrow> string option \<Rightarrow> 'c pool \<Rightarrow> u32 \<times> 'c pool" where
  "transient_backoff cf attempt sqlstate p =
     (let delay = times3 attempt (transient_retry_base_ms (cf_policy cf))
      in (delay, note_retry cf \<lparr>re_cls = NotStarted, re_attempt = int attempt + 1, re_delay_ms = delay,
            re_code = ServerError, re_sqlstate = (case sqlstate of None \<Rightarrow> [] | Some s \<Rightarrow> s),
            re_message = [], re_db = [], re_user = [], re_in_transaction = False\<rparr> p))"

text \<open>
  The environment of one try of \<^verbatim>\<open>run\<close>: the semaphore waits and connect attempts of its acquire, the
  wakes of the statement and of the drain, the clock at the retry decision and the backoff sleep.
\<close>

record 'c try_env =
  te_sems :: "('c pool \<Rightarrow> 'c pool) option list"
  te_attempts :: "'c attempt list"
  te_wakes :: "'c wake list"
  te_drain :: "'c wake list"
  te_now :: u64
  te_slept :: bool

definition acquire_or_idle ::
  "'c libpq \<Rightarrow> PoolConfig \<Rightarrow> 'c try_env \<Rightarrow> 'c pool \<Rightarrow> ((PgOpError + cid) \<times> 'c pool) async" where
  "acquire_or_idle L cf e p =
     (case take_idle L p of
        (Some cid, p') \<Rightarrow> Finished (Inr cid, p')
      | (None, p') \<Rightarrow> acquire_connection L cf (te_sems e) (te_attempts e) p')"

definition acquire_error_result :: "PgOpError \<Rightarrow> QueryResult" where
  "acquire_error_result e = empty_result\<lparr>qr_ok := False, qr_code := oe_code e, qr_error := oe_error e,
     qr_err_detail := oe_err_detail e, qr_rows_valid := False\<rparr>"

text \<open>One statement on the connection \<open>cid\<close> and its return to the pool: the result and its class.\<close>

definition run_attempt ::
  "'c libpq \<Rightarrow> QueryOpts \<Rightarrow> ('c \<Rightarrow> bool \<times> 'c) \<Rightarrow> 'c try_env \<Rightarrow> cid \<Rightarrow> 'c pool
    \<Rightarrow> ((QueryResult \<times> RetryClass) \<times> 'c pool) async" where
  "run_attempt L opts send e cid p =
     (let c0 = conn_at p cid;
          c = (if qo_io_deadline_ms opts \<noteq> 0 then set_io_deadline_ms (qo_io_deadline_ms opts) c0 else c0)
      in case run_query L send (te_wakes e) c of
           Parked \<Rightarrow> Parked | Stuck \<Rightarrow> Stuck
         | Finished (qr, c', _) \<Rightarrow>
             (let c' = (if qo_io_deadline_ms opts \<noteq> 0 then set_io_deadline_ms 0 c' else c');
                  p = set_conn cid c' p;
                  cls = classify_retry qr (cn_io_timed_out c')
              in case give_back L cid qr cls p of
                   (True, p') \<Rightarrow> Finished ((qr, cls), p')
                 | (False, p') \<Rightarrow>
                     (case release_connection_async L (te_drain e) (Some cid) p' of
                        Parked \<Rightarrow> Parked | Stuck \<Rightarrow> Stuck
                      | Finished (p'', _) \<Rightarrow> Finished ((qr, cls), p''))))"

text \<open>
  \<^verbatim>\<open>run\<close>, one environment per try. \<open>Stuck\<close> is also a shift by 32 or more in the backoff (see the
  theory \<open>Pg_Retry\<close>), which is undefined.
\<close>

fun pool_run ::
  "'c libpq \<Rightarrow> PoolConfig \<Rightarrow> QueryOpts \<Rightarrow> ('c \<Rightarrow> bool \<times> 'c) \<Rightarrow> 'c try_env list \<Rightarrow> RetryBudget \<Rightarrow> 'c pool
    \<Rightarrow> (QueryResult \<times> 'c pool) async" where
  "pool_run L cf opts send [] b p = Parked"
| "pool_run L cf opts send (e # es) b p =
     (case acquire_or_idle L cf e p of
        Parked \<Rightarrow> Parked | Stuck \<Rightarrow> Stuck
      | Finished (Inl err, p') \<Rightarrow> Finished (acquire_error_result err, p')
      | Finished (Inr cid, p') \<Rightarrow>
          (case run_attempt L opts send e cid p' of
             Parked \<Rightarrow> Parked | Stuck \<Rightarrow> Stuck
           | Finished ((qr, cls), p'') \<Rightarrow>
               if qr_ok qr then Finished (qr, p'')
               else (case next_retry_delay (cf_policy cf) (te_now e) b cls ScopeStatement of
                   None \<Rightarrow> Stuck
                 | Some (b', None) \<Rightarrow> Finished (qr, p'')
                 | Some (b', Some delay) \<Rightarrow>
                     (let p3 = note_retry cf \<lparr>re_cls = cls, re_attempt = int (rb_attempt b') + 1,
                                 re_delay_ms = delay, re_code = qr_code qr,
                                 re_sqlstate = ed_sqlstate (qr_err_detail qr), re_message = qr_error qr,
                                 re_db = [], re_user = [], re_in_transaction = False\<rparr> p''
                      in if delay \<noteq> 0 \<and> \<not> te_slept e then Finished (qr, p3)
                         else pool_run L cf opts send es (next_attempt b') p3))))"


section \<open>COPY through the pool\<close>

definition copy_error :: "PgOpError \<Rightarrow> PgCopyResult" where
  "copy_error e = empty_copy\<lparr>cr_ok := False, cr_code := oe_code e, cr_error := oe_error e, cr_err_detail := oe_err_detail e\<rparr>"

definition give_back_copy ::
  "'c libpq \<Rightarrow> 'c wake list \<Rightarrow> cid \<Rightarrow> PgCopyResult \<Rightarrow> 'c pool \<Rightarrow> ('c pool \<times> 'c wake list) async" where
  "give_back_copy L ws cid r p =
     (if \<not> cr_ok r \<and> (cr_code r = SocketReadFailed \<or> cr_code r = ConnectionClosed)
      then Finished (mark_dead (Some cid) p, ws)
      else release_connection_async L ws (Some cid) p)"

text \<open>The four COPY calls of the pool differ in the coroutine \<open>copy\<close> they run on the connection, with a user state \<open>'s\<close>.\<close>

definition pool_copy ::
  "'c libpq \<Rightarrow> PoolConfig \<Rightarrow> 'c try_env \<Rightarrow>
    ('s \<Rightarrow> 'c wake list \<Rightarrow> 'c conn \<Rightarrow> (PgCopyResult \<times> 's \<times> 'c conn \<times> 'c wake list) async)
    \<Rightarrow> 's \<Rightarrow> 'c pool \<Rightarrow> (PgCopyResult \<times> 's \<times> 'c pool) async" where
  "pool_copy L cf e copy s p =
     (case acquire_connection L cf (te_sems e) (te_attempts e) p of
        Parked \<Rightarrow> Parked | Stuck \<Rightarrow> Stuck
      | Finished (Inl err, p') \<Rightarrow> Finished (copy_error err, s, p')
      | Finished (Inr cid, p') \<Rightarrow>
          (case copy s (te_wakes e) (conn_at p' cid) of
             Parked \<Rightarrow> Parked | Stuck \<Rightarrow> Stuck
           | Finished (r, s', c, _) \<Rightarrow>
               (case give_back_copy L (te_drain e) cid r (set_conn cid c p') of
                  Parked \<Rightarrow> Parked | Stuck \<Rightarrow> Stuck
                | Finished (p'', _) \<Rightarrow> Finished (r, s', p''))))"

definition pool_copy_to where
  "pool_copy_to L cf e sql sink s p = pool_copy L cf e (copy_to L sql sink) s p"

definition pool_copy_to_lines where
  "pool_copy_to_lines L cf e sql sink s p = pool_copy L cf e (copy_to_lines L sql sink) s p"

definition with_unit ::
  "('c wake list \<Rightarrow> 'c conn \<Rightarrow> (PgCopyResult \<times> 'c conn \<times> 'c wake list) async)
    \<Rightarrow> unit \<Rightarrow> 'c wake list \<Rightarrow> 'c conn \<Rightarrow> (PgCopyResult \<times> unit \<times> 'c conn \<times> 'c wake list) async" where
  "with_unit f u ws c =
     (case f ws c of Parked \<Rightarrow> Parked | Stuck \<Rightarrow> Stuck | Finished (r, c', ws') \<Rightarrow> Finished (r, (), c', ws'))"

definition pool_copy_from where
  "pool_copy_from L cf e sql src s p = pool_copy L cf e (with_unit (copy_from L sql src s)) () p"

definition pool_copy_from_buffer where
  "pool_copy_from_buffer L cf e sql d p = pool_copy L cf e (with_unit (copy_from_buffer L sql d)) () p"

section \<open>Statement calls\<close>

text \<open>
  \<^verbatim>\<open>make_send\<close>: the simple protocol without arguments, \<^verbatim>\<open>PQsendQueryParams\<close> (the parameter \<open>send_params\<close>)
  otherwise. \<open>None\<close> is an overflow of the parameter block. The code encodes the arguments when it sends; a call whose
  arguments overflow is \<open>Stuck\<close> (undefined) as a whole, although its undefined store is not reached when no connection
  can be acquired.
\<close>

definition make_send ::
  "'c libpq \<Rightarrow> (string \<Rightarrow> nat \<times> param_slot list \<Rightarrow> 'c \<Rightarrow> bool \<times> 'c) \<Rightarrow> bool \<Rightarrow> 'x printers \<Rightarrow> ('x \<Rightarrow> string)
    \<Rightarrow> string \<Rightarrow> 'x param list \<Rightarrow> ('c \<Rightarrow> bool \<times> 'c) option" where
  "make_send L send_params le P dump sql args =
     (if args = [] then Some (pq_send_query L sql)
      else map_option (send_params sql) (send_query_params le P dump args))"

text \<open>\<^verbatim>\<open>run_on\<close> and \<^verbatim>\<open>run\<close> with the conversion \<open>finish\<close> of the caller.\<close>

definition run_on ::
  "'c libpq \<Rightarrow> (QueryResult \<Rightarrow> 'r) \<Rightarrow> ('c \<Rightarrow> bool \<times> 'c) \<Rightarrow> 'c wake list \<Rightarrow> cid option \<Rightarrow> 'c pool
    \<Rightarrow> ('r \<times> 'c pool) async" where
  "run_on L finish send ws conn p =
     (case conn of
        None \<Rightarrow> Finished (finish (closed_result ''connection invalid''), p)
      | Some cid \<Rightarrow>
          if \<not> connected L (conn_at p cid) then Finished (finish (closed_result ''connection invalid''), p)
          else (case run_query L send ws (conn_at p cid) of
              Parked \<Rightarrow> Parked | Stuck \<Rightarrow> Stuck
            | Finished (q, c, _) \<Rightarrow> Finished (finish q, set_conn cid c p)))"

definition pool_call ::
  "'c libpq \<Rightarrow> PoolConfig \<Rightarrow> QueryOpts \<Rightarrow> (QueryResult \<Rightarrow> 'r) \<Rightarrow> ('c \<Rightarrow> bool \<times> 'c) option \<Rightarrow> u64
    \<Rightarrow> 'c try_env list \<Rightarrow> 'c pool \<Rightarrow> ('r \<times> 'c pool) async" where
  "pool_call L cf opts finish send now es p =
     (case send of
        None \<Rightarrow> Stuck
      | Some f \<Rightarrow> map_async finish (pool_run L cf opts f es (new_budget opts now) p))"

definition query_awaitable where
  "query_awaitable L cf opts send now es p = pool_call L cf opts (\<lambda>q. q) send now es p"

definition query_reflect_expected where
  "query_reflect_expected L cf X st opts send now es p = pool_call L cf opts (AsExpectedRows X st) send now es p"

definition query_reflect_expected_one where
  "query_reflect_expected_one L cf X st opts send now es p = pool_call L cf opts (AsExpectedOne X st) send now es p"

definition query_reflect where
  "query_reflect L cf X st send now es p = pool_call L cf default_opts (AsRows X st) send now es p"

definition query_reflect_one where
  "query_reflect_one L cf X st send now es p = pool_call L cf default_opts (AsOptionalRow X st) send now es p"

section \<open>Facts on progress\<close>

text \<open>libpq hands out finitely many results, COPY states included.\<close>

definition drains :: "'c libpq \<Rightarrow> ('c \<Rightarrow> nat) \<Rightarrow> bool" where
  "drains L m \<longleftrightarrow> (\<forall>p r p'. \<not> pq_busy L p \<longrightarrow> pq_get_result L p = (Some r, p') \<longrightarrow> m p' < m p)"

lemma drains_finite: "drains L m \<Longrightarrow> finite_results L m"
  by (auto simp: drains_def finite_results_def)

lemma discard_results_total: "drains L m \<Longrightarrow> \<exists>q. discard_results L p = Some q"
proof (induction "m p" arbitrary: p rule: less_induct)
  case less
  obtain r p' where g: "pq_get_result L p = (r, p')" by (cases "pq_get_result L p")
  show ?case
  proof (cases "pq_busy L p \<or> r = None")
    case True
    with g show ?thesis by (auto simp: discard_results.simps [of L p] split: option.split)
  next
    case False
    with less.prems g have "m p' < m p" by (auto simp: drains_def)
    from less.hyps [OF this less.prems] False g show ?thesis
      by (auto simp: discard_results.simps [of L p] split: option.split)
  qed
qed

lemma discard_pending_total: "drains L m \<Longrightarrow> \<exists>c'. discard_pending_results L c = Some c'"
  using discard_results_total by (fastforce simp: discard_pending_results_def split: option.split)

lemma pump_loop_live: "list_ex interrupts ws \<Longrightarrow> \<exists>r. pump_loop stp ws c = Finished r"
proof (induction ws arbitrary: c)
  case (Cons w ws)
  obtain s c1 where s: "stp c = (s, c1)" by fastforce
  show ?case
  proof (cases "s = StepWait \<and> \<not> interrupts w")
    case True
    with Cons have "\<exists>r. pump_loop stp ws (do_wait w c1) = Finished r" by auto
    with s True show ?thesis by (auto simp: pump_loop.simps [of stp "w # ws"] Let_def)
  next
    case False
    have "interrupts w \<Longrightarrow> cn_io_timed_out (do_wait w c1) \<or> wk_cancel w"
      by (auto simp: interrupts_def do_wait_def mark_await_end_def Let_def)
    with False s show ?thesis
      by (cases s) (auto simp: pump_loop.simps [of stp "w # ws"] Let_def)
  qed
qed simp

lemma release_connection_async_live:
  assumes "drains L m" "list_ex interrupts ws"
  shows "\<exists>r. release_connection_async L ws conn p = Finished r"
proof (cases conn)
  case (Some cid)
  obtain ok c' ws' where pu: "pump_input L ws (set_io_deadline_ms 0 (conn_at p cid)) = Finished (ok, c', ws')"
    using pump_loop_live [OF assms(2)] unfolding pump_input_def by (metis prod_cases3)
  obtain c'' where "discard_pending_results L c' = Some c''" using discard_pending_total [OF assms(1)] by blast
  with pu show ?thesis by (simp add: release_connection_async_def Some Let_def)
qed (simp add: release_connection_async_def)

text \<open>A round in which the handshake cannot go on waiting.\<close>

definition round_ends :: "hs_round \<Rightarrow> bool" where
  "round_ends e \<longleftrightarrow> hs_poll e = PollFailed \<or> \<not> hs_watched e \<or> hs_cancel e \<or> hs_fired e \<noteq> None"

lemma handshake_live: "list_ex round_ends rs \<Longrightarrow> \<exists>r. handshake rs st = Finished r"
proof (induction rs arbitrary: st)
  case (Cons e es)
  show ?case
  proof (cases "st = PollOk \<or> round_ends e")
    case True
    then show ?thesis by (auto simp: handshake.simps [of "e # es"] round_ends_def split: option.split)
  next
    case False
    with Cons show ?thesis by (auto simp: handshake.simps [of "e # es"] split: option.split)
  qed
qed simp

lemma connect_async_live:
  assumes "list_ex round_ends rs"
  shows "\<exists>err c'. connect_async start nonblocking rs watched timeout ci c = Finished (err, c')"
proof -
  obtain r where "handshake rs PollWriting = Finished r" using handshake_live [OF assms] by blast
  then show ?thesis
    by (cases r) (auto simp: connect_async_def connect_fail_def Let_def split: option.split)
qed

lemma connect_loop_live:
  "list_all (\<lambda>a. list_ex round_ends (at_rounds a)) ats \<Longrightarrow> retries - attempt \<le> int (length ats) \<Longrightarrow>
   \<exists>r. connect_loop retries attempt ci ats last_err c = Finished r"
proof (induction ats arbitrary: attempt last_err c)
  case Nil
  then show ?case by (simp add: connect_loop.simps)
next
  case (Cons a ats)
  obtain err c' where ca: "connect_async (at_start a) (at_nonblocking a) (at_rounds a) (at_watched a) 5000 ci c
      = Finished (err, c')"
    using connect_async_live [of "at_rounds a"] Cons.prems(1) by (simp, blast)
  show ?case
    using Cons.IH [of "attempt + 1" err c'] Cons.prems ca
    by (cases err) (auto simp: connect_loop.simps [of retries attempt ci "a # ats"])
qed

lemma create_connection_live:
  assumes "list_all (\<lambda>a. list_ex round_ends (at_rounds a)) ats" "cf_retries cf \<le> int (length ats)"
  shows "\<exists>r p' ats'. create_connection cf ats p = Finished (r, p', ats')"
proof -
  let ?cid = "length (pl_conns p)"
  let ?p = "register_connection ?cid (p\<lparr>pl_conns := pl_conns p @ [new_conn]\<rparr>)"
  let ?ci = "make_conninfo (cf_ip4 cf) (cf_ip6 cf) (cf_host cf) (cf_port cf) (cf_user cf) (cf_db cf)
                (cf_password cf) (cf_ssl cf) (cf_keepalive cf)"
  show ?thesis
  proof (cases ?ci)
    case (Inl e)
    then show ?thesis by (simp add: create_connection_def Let_def)
  next
    case (Inr ci)
    obtain r c ats' where "connect_loop (cf_retries cf) 0 ci ats None (conn_at ?p ?cid) = Finished (r, c, ats')"
      using connect_loop_live [OF assms(1), of "cf_retries cf" 0 ci None "conn_at ?p ?cid"] assms(2) by auto
    with Inr show ?thesis by (cases r) (simp_all add: create_connection_def Let_def)
  qed
qed

lemma acquire_loop_live:
  "None \<in> set sems \<Longrightarrow> list_all (\<lambda>a. list_ex round_ends (at_rounds a)) ats \<Longrightarrow> cf_retries cf \<le> int (length ats) \<Longrightarrow>
   \<exists>r p'. acquire_loop L cf sems ats waiting p = Finished (r, p')"
proof (induction L cf sems ats waiting p rule: acquire_loop.induct)
  case (1 L cf sems ats waiting p)
  show ?case
  proof (cases "waiting \<and> pl_sem p = 0")
    case True
    then obtain s ss where sems: "sems = s # ss" using "1.prems"(1) by (cases sems) auto
    show ?thesis
    proof (cases s)
      case None
      with True sems show ?thesis by (simp add: acquire_loop.simps [of L cf "None # ss"])
    next
      case (Some others)
      with "1.IH"(1) [OF True sems Some] "1.prems" True sems show ?thesis
        by (simp add: acquire_loop.simps [of L cf "Some others # ss"])
    qed
  next
    case False
    define q where "q = (if waiting then p\<lparr>pl_sem := pl_sem p - 1\<rparr> else p)"
    obtain r p' where t: "take_idle L q = (r, p')" by fastforce
    obtain r2 p2 a2 where cr: "create_connection cf ats (p'\<lparr>pl_live_count := pl_live_count p' + 1\<rparr>) = Finished (r2, p2, a2)"
      using create_connection_live [OF "1.prems"(2,3)] by metis
    have un: "acquire_loop L cf sems ats waiting p = (case take_idle L q of
          (Some cid, p') \<Rightarrow> Finished (Inr cid, p')
        | (None, p') \<Rightarrow>
            if pl_live_count p' \<ge> pl_max_pool p' then acquire_loop L cf sems ats True p'
            else (case create_connection cf ats (p'\<lparr>pl_live_count := pl_live_count p' + 1\<rparr>) of
                Parked \<Rightarrow> Parked | Stuck \<Rightarrow> Stuck
              | Finished (r, p'', _) \<Rightarrow> Finished (r, p'')))"
      by (subst acquire_loop.simps) (simp only: False if_False q_def Let_def)
    show ?thesis
    proof (cases r)
      case (Some cid)
      then show ?thesis by (simp add: un t)
    next
      case None
      show ?thesis
        using "1.IH"(2) [OF False q_def, of None p'] "1.prems" t cr by (simp add: un None)
    qed
  qed
qed


text \<open>An environment in which no await can last: everything that can be cancelled eventually is.\<close>

definition env_ends :: "PoolConfig \<Rightarrow> 'c try_env \<Rightarrow> bool" where
  "env_ends cf e \<longleftrightarrow>
     None \<in> set (te_sems e) \<and> list_all (\<lambda>a. list_ex round_ends (at_rounds a)) (te_attempts e)
     \<and> cf_retries cf \<le> int (length (te_attempts e))
     \<and> list_ex interrupts (te_wakes e) \<and> list_ex interrupts (te_drain e)"

lemma acquire_or_idle_live: "env_ends cf e \<Longrightarrow> \<exists>r p'. acquire_or_idle L cf e p = Finished (r, p')"
  using acquire_loop_live [of "te_sems e" "te_attempts e" cf L False]
  by (fastforce simp: acquire_or_idle_def acquire_connection_def env_ends_def split: prod.split option.split)

lemma run_attempt_live:
  assumes "drains L m" "env_ends cf e"
  shows "\<exists>q cls p'. run_attempt L opts send e cid p = Finished ((q, cls), p')"
proof -
  have w: "list_ex interrupts (te_wakes e)" "list_ex interrupts (te_drain e)"
    using assms(2) by (simp_all add: env_ends_def)
  let ?c = "if qo_io_deadline_ms opts \<noteq> 0 then set_io_deadline_ms (qo_io_deadline_ms opts) (conn_at p cid) else conn_at p cid"
  obtain qr c' ws' where q: "run_query L send (te_wakes e) ?c = Finished (qr, c', ws')"
    using run_query_live [OF drains_finite [OF assms(1)] w(1)] by metis
  let ?c' = "if qo_io_deadline_ms opts \<noteq> 0 then set_io_deadline_ms 0 c' else c'"
  obtain b p1 where g: "give_back L cid qr (classify_retry qr (cn_io_timed_out ?c')) (set_conn cid ?c' p) = (b, p1)"
    by fastforce
  obtain p2 ws2 where r: "release_connection_async L (te_drain e) (Some cid) p1 = Finished (p2, ws2)"
    using release_connection_async_live [OF assms(1) w(2), of "Some cid" p1] by auto
  show ?thesis
    using g r by (cases b) (simp_all only: run_attempt_def Let_def q async.case prod.case if_True if_False bool.case, auto)
qed

lemma pool_run_live:
  "drains L m \<Longrightarrow> transient_retry_attempts (cf_policy cf) \<le> 33 \<Longrightarrow> list_all (env_ends cf) es \<Longrightarrow>
   retries_left (cf_policy cf) b < length es \<Longrightarrow> \<exists>q p'. pool_run L cf opts send es b p = Finished (q, p')"
proof (induction es arbitrary: b p)
  case Nil
  then show ?case by simp
next
  case (Cons e es)
  then have e: "env_ends cf e" by simp
  obtain r p1 where a: "acquire_or_idle L cf e p = Finished (r, p1)" using acquire_or_idle_live [OF e] by metis
  show ?case
  proof (cases r)
    case (Inl err)
    with a show ?thesis by simp
  next
    case (Inr cid)
    obtain qr cls p2 where q: "run_attempt L opts send e cid p1 = Finished ((qr, cls), p2)"
      using run_attempt_live [OF Cons.prems(1) e] by metis
    obtain b' d where n: "next_retry_delay (cf_policy cf) (te_now e) b cls ScopeStatement = Some (b', d)"
      using next_retry_delay_defined [OF Cons.prems(2)] by (metis not_None_eq surj_pair)
    show ?thesis
    proof (cases d)
      case None
      with a Inr q n show ?thesis by simp
    next
      case (Some delay)
      with next_retry_delay_decreases [of "cf_policy cf" "te_now e" b cls ScopeStatement b' delay] n Cons.prems(4)
      have "retries_left (cf_policy cf) (next_attempt b') < length es" by simp
      from Cons.IH [OF Cons.prems(1,2) _ this] Cons.prems(3) a Inr q n Some show ?thesis
        by (simp add: Let_def)
    qed
  qed
qed

section \<open>Facts on the watchdog and on COPY\<close>

lemma set_conn_same [simp]: "cid < length (pl_conns p) \<Longrightarrow> conn_at (set_conn cid c p) cid = c"
  by (simp add: conn_at_def set_conn_def)

lemma set_conn_other [simp]: "cid \<noteq> d \<Longrightarrow> conn_at (set_conn cid c p) d = conn_at p d"
  by (simp add: conn_at_def set_conn_def)

lemma set_conn_length [simp]: "length (pl_conns (set_conn cid c p)) = length (pl_conns p)"
  by (simp add: set_conn_def)

lemma bump_conns [simp]: "conn_at (bump f p) = conn_at p" "pl_conns (bump f p) = pl_conns p"
  by (auto simp: conn_at_def bump_def)

lemma watchdog_visit_conns:
  assumes "cid < length (pl_conns p)"
  shows "length (pl_conns (watchdog_visit L now pending cid p)) = length (pl_conns p)"
    and "conn_at (watchdog_visit L now pending cid p) d =
      (if d = cid \<and> await_overdue now (conn_at p d) then snd (abort_io_from_watchdog L now (pending d) (conn_at p d))
       else conn_at p d)"
  using assms by (auto simp: watchdog_visit_def Let_def split: prod.split)

lemma watchdog_fold_conns:
  "distinct cids \<Longrightarrow> \<forall>cid \<in> set cids. cid < length (pl_conns p) \<Longrightarrow>
   conn_at (fold (watchdog_visit L now pending) cids p) d =
      (if d \<in> set cids \<and> await_overdue now (conn_at p d) then snd (abort_io_from_watchdog L now (pending d) (conn_at p d))
       else conn_at p d)"
proof (induction cids arbitrary: p)
  case (Cons cid cids)
  have len: "cid < length (pl_conns p)" using Cons.prems by simp
  note v = watchdog_visit_conns [OF len, of L now pending]
  have "conn_at (fold (watchdog_visit L now pending) cids (watchdog_visit L now pending cid p)) d =
      (if d \<in> set cids \<and> await_overdue now (conn_at (watchdog_visit L now pending cid p) d)
       then snd (abort_io_from_watchdog L now (pending d) (conn_at (watchdog_visit L now pending cid p) d))
       else conn_at (watchdog_visit L now pending cid p) d)"
    using Cons.prems v(1) by (intro Cons.IH) simp_all
  then show ?case using Cons.prems(1) by (auto simp: v(2))
qed simp

text \<open>A libpq state from which \<^verbatim>\<open>PQgetResult\<close> returns a result without changing, as in COPY mode.\<close>

lemma discard_results_diverges:
  assumes "\<not> pq_busy L p" "pq_get_result L p = (Some r, p)"
  shows "discard_results L p = None"
proof -
  have "q \<noteq> p" if "discard_results L q = Some y" for q y
    using that
  proof (rule discard_results.raw_induct [rotated, where P = "\<lambda>L' q y. L' = L \<longrightarrow> q \<noteq> p", rule_format])
    fix rec L' q y
    assume IH: "\<And>L' q y. rec L' q = Some y \<Longrightarrow> L' = L \<Longrightarrow> q \<noteq> p"
      and un: "(if pq_busy L' q then Some q
           else case pq_get_result L' q of (None, p') \<Rightarrow> Some p' | (Some res, p') \<Rightarrow> rec L' p') = Some y"
      and L': "L' = L"
    show "q \<noteq> p"
    proof
      assume "q = p"
      with un L' assms have "rec L p = Some y" by simp
      from IH [OF this refl] show False by simp
    qed
  qed simp
  then show ?thesis by (cases "discard_results L p") auto
qed

lemma release_connection_async_diverges:
  assumes "cn_pq (conn_at p cid) = Some q" "connected L (conn_at p cid)" "\<not> pq_trans_idle L q"
    and "pq_consume_input L q = (True, q)" "\<not> pq_busy L q" "pq_get_result L q = (Some r, q)"
  shows "release_connection_async L ws (Some cid) p = Stuck"
proof -
  let ?c = "set_io_deadline_ms 0 (conn_at p cid)"
  have pq: "cn_pq ?c = Some q" using assms(1) by (simp add: set_io_deadline_ms_def)
  have con: "connected L ?c" using assms(2) by (simp add: set_io_deadline_ms_def connected_def cong: option.case_cong)
  have "pump_input L ws ?c = Finished (True, ?c, ws)"
    using pq assms(4,5) by (simp add: pump_input_def pump_loop.simps input_step_def Let_def)
  moreover have "discard_pending_results L ?c = None"
    using pq discard_results_diverges [OF assms(5,6)] by (simp add: discard_pending_results_def)
  moreover have "\<not> is_idle L ?c" using assms(3) pq by (simp add: is_idle_def)
  ultimately show ?thesis using con by (simp add: release_connection_async_def Let_def)
qed

text \<open>Results of pooled statements are well formed: an error of the acquisition never carries the code \<^verbatim>\<open>OK\<close>.\<close>

lemma acquire_loop_code:
  "acquire_loop L cf sems ats w p = Finished (Inl e, p') \<Longrightarrow> oe_code e \<in> {AwaitCanceled, ProtocolCorrupt, TooManyConnections}"
proof (induction L cf sems ats w p rule: acquire_loop.induct)
  case (1 L cf sems ats w p)
  have "oe_code e \<in> {ProtocolCorrupt, TooManyConnections}" if "create_connection cf ats q = Finished (Inl e, q', ats')" for q q' ats'
    using that by (auto simp: create_connection_def Let_def split: sum.splits async.splits)
  with 1 show ?case
    by (subst (asm) acquire_loop.simps [of L cf sems ats w p])
       (auto simp: Let_def split: if_splits list.splits option.splits prod.splits async.splits)
qed

lemma pool_run_wf: "pool_run L cf opts send es b p = Finished (q, p') \<Longrightarrow> result_wf q"
proof (induction es arbitrary: b p)
  case (Cons e es)
  have acq: "result_wf (acquire_error_result err)" if "acquire_or_idle L cf e p = Finished (Inl err, p1)" for err p1
  proof -
    have "oe_code err \<noteq> OK"
      using that acquire_loop_code [of L cf "te_sems e" "te_attempts e" False _ err p1]
      by (auto simp: acquire_or_idle_def acquire_connection_def split: prod.splits option.splits)
    then show ?thesis by (simp add: result_wf_def acquire_error_result_def empty_result_def)
  qed
  have run: "result_wf qr" if "run_attempt L opts send e cid p1 = Finished ((qr, cls), p2)" for cid p1 qr cls p2
  proof -
    let ?c = "if qo_io_deadline_ms opts \<noteq> 0 then set_io_deadline_ms (qo_io_deadline_ms opts) (conn_at p1 cid) else conn_at p1 cid"
    from that obtain c' ws' where "run_query L send (te_wakes e) ?c = Finished (qr, c', ws')"
      unfolding run_attempt_def Let_def by (auto split: async.splits prod.splits bool.splits)
    from run_query_wf [OF this] show ?thesis by simp
  qed
  show ?case
    using Cons acq run by (auto simp: Let_def split: async.splits sum.splits prod.splits if_splits option.splits)
qed simp

section \<open>Properties\<close>


definition sample_config :: PoolConfig where
  "sample_config = \<lparr>cf_host = ''db'', cf_port = ''5432'', cf_user = ''u'', cf_db = ''d'', cf_password = ''p'',
     cf_retries = 0, cf_ssl = plain_ssl, cf_keepalive = no_keepalive, cf_policy = default_policy,
     cf_ip4 = (\<lambda>_. False), cf_ip6 = (\<lambda>_. False)\<rparr>"

definition cancelling_env :: "'c try_env" where
  "cancelling_env = \<lparr>te_sems = [None], te_attempts = [],
     te_wakes = [\<lparr>wk_arrive = (\<lambda>p. p), wk_timeout = None, wk_cancel = True\<rparr>],
     te_drain = [\<lparr>wk_arrive = (\<lambda>p. p), wk_timeout = None, wk_cancel = True\<rparr>], te_now = 0, te_slept = True\<rparr>"


text \<open>One pass of the watchdog aborts exactly the registered connections that are alive and whose await is
  overdue, and leaves every other connection as it is. Short of 64-bit overflow, overdue means: parked for at
  least the deadline.\<close>

theorem watchdog_pass_exact:
  assumes "distinct (pl_registered p)" "\<forall>cid \<in> set (pl_registered p). cid < length (pl_conns p)"
    and "unat (cn_await_since_ms (conn_at p d)) + unat (io_deadline_ms (conn_at p d)) < 2 ^ 64"
  shows "conn_at (watchdog_pass L now pending expired p) d =
     (if d \<in> set (pl_registered p) \<and> \<not> expired d \<and> cn_await_since_ms (conn_at p d) \<noteq> 0
         \<and> unat (cn_await_since_ms (conn_at p d)) + unat (io_deadline_ms (conn_at p d)) \<le> unat now
      then snd (abort_io_from_watchdog L now (pending d) (conn_at p d)) else conn_at p d)"
proof -
  let ?c = "conn_at p d"
  have add: "unat (cn_await_since_ms ?c + io_deadline_ms ?c) = unat (cn_await_since_ms ?c) + unat (io_deadline_ms ?c)"
    using assms(3) by (simp add: unat_word_ariths)
  have od: "await_overdue now ?c \<longleftrightarrow> cn_await_since_ms ?c \<noteq> 0
      \<and> unat (cn_await_since_ms ?c) + unat (io_deadline_ms ?c) \<le> unat now"
    by (simp add: await_overdue_def word_less_nat_alt add not_less)
  have ca: "conn_at (p\<lparr>pl_registered := x\<rparr>) = conn_at p" for x by (auto simp: conn_at_def)
  have "conn_at (watchdog_pass L now pending expired p) d =
    (if d \<in> set (filter (\<lambda>cid. \<not> expired cid) (pl_registered p)) \<and> await_overdue now ?c
     then snd (abort_io_from_watchdog L now (pending d) ?c) else ?c)"
    unfolding watchdog_pass_def Let_def
    by (subst watchdog_fold_conns) (use assms(1,2) in \<open>simp_all add: ca\<close>)
  then show ?thesis by (simp add: od)
qed

theorem watchdog_pass_exact_witness:
  "cn_io_timed_out (conn_at (watchdog_pass list_libpq 20000 (\<lambda>_. 0) (\<lambda>_. False)
     ((new_pool 1 1)\<lparr>pl_conns := [(open_conn [])\<lparr>cn_await_since_ms := 1\<rparr>], pl_registered := [0]\<rparr>)) 0)"
  by (subst watchdog_pass_exact)
     (simp_all add: new_pool_def conn_at_def open_conn_def new_conn_def io_deadline_ms_def kIoDeadlineMs_def
      abort_io_from_watchdog_def list_libpq_def Let_def)


text \<open>A server that answers every statement by entering COPY IN mode (the state \<open>True\<close>).\<close>

definition copy_mode_libpq :: "bool libpq" where
  "copy_mode_libpq = \<lparr>pq_status_ok = (\<lambda>_. True), pq_trans_idle = (\<lambda>p. \<not> p), pq_trans_inerror = (\<lambda>_. False),
     pq_busy = (\<lambda>_. False),
     pq_error = (\<lambda>_. []), pq_socket = (\<lambda>_. 3), pq_flush = (\<lambda>p. (0, p)), pq_consume_input = (\<lambda>p. (True, p)),
     pq_get_result = (\<lambda>p. (if p then Some (sample_pg_result PGRES_COPY_IN) else None, p)),
     pq_send_query = (\<lambda>_ p. (True, True)), pq_put_copy_data = (\<lambda>_ _ p. (1, p)),
     pq_put_copy_end = (\<lambda>_ p. (1, p)), pq_get_copy_data = (\<lambda>p. (- 1, [], p)), pq_peek = (\<lambda>_. (- 1, True))\<rparr>"


end
