(* ===== verification/Pg_Compat.thy ===== *)
theory Pg_Compat
  imports Pg_Pool
begin

text \<open>
  The event loop adapter (utils/UventCompat.h): upq builds on releases of uvent with and without cooperative cancellation, and
  three functions give both the interface of the first. The flag \<open>has\<close> is \<^verbatim>\<open>UPQ_UVENT_HAS_CANCELLATION\<close>, the other argument what
  uvent itself reports. The environments of the pool's calls are passed through them.
\<close>

section \<open>The adapter\<close>

definition cancel_requested :: "bool \<Rightarrow> bool \<Rightarrow> bool" where
  "cancel_requested has requested = (if has then requested else False)"

definition sleep_for :: "bool \<Rightarrow> bool \<Rightarrow> bool" where
  "sleep_for has slept = (if has then slept else True)"

text \<open>
  The events of a wait on the semaphore: \<open>None\<close> is a cancellation, which \<^verbatim>\<open>acquire\<close> turns into false. An older uvent does not cut the
  wait; it goes on to the next look at the permits.
\<close>

definition acquire_events :: "bool \<Rightarrow> 'e option list \<Rightarrow> 'e option list" where
  "acquire_events has sems = (if has then sems else filter (\<lambda>s. s \<noteq> None) sems)"

definition adapt_wake :: "bool \<Rightarrow> 'c wake \<Rightarrow> 'c wake" where
  "adapt_wake has w = w\<lparr>wk_cancel := cancel_requested has (wk_cancel w)\<rparr>"

definition adapt_round :: "bool \<Rightarrow> hs_round \<Rightarrow> hs_round" where
  "adapt_round has r = r\<lparr>hs_cancel := cancel_requested has (hs_cancel r)\<rparr>"

definition adapt_attempt :: "bool \<Rightarrow> 'c attempt \<Rightarrow> 'c attempt" where
  "adapt_attempt has a = a\<lparr>at_rounds := map (adapt_round has) (at_rounds a), at_slept := sleep_for has (at_slept a)\<rparr>"

definition adapt_env :: "bool \<Rightarrow> 'c try_env \<Rightarrow> 'c try_env" where
  "adapt_env has e =
     e\<lparr>te_sems := acquire_events has (te_sems e), te_attempts := map (adapt_attempt has) (te_attempts e),
       te_wakes := map (adapt_wake has) (te_wakes e), te_drain := map (adapt_wake has) (te_drain e),
       te_slept := sleep_for has (te_slept e)\<rparr>"

section \<open>With cancellation the adapter is transparent\<close>

lemma adapt_wake_id [simp]: "adapt_wake True = (\<lambda>w. w)"
  by (simp add: adapt_wake_def cancel_requested_def fun_eq_iff)

lemma adapt_round_id [simp]: "adapt_round True = (\<lambda>r. r)"
  by (simp add: adapt_round_def cancel_requested_def fun_eq_iff)

lemma adapt_attempt_id [simp]: "adapt_attempt True = (\<lambda>a. a)"
  by (simp add: adapt_attempt_def sleep_for_def fun_eq_iff)

lemma adapt_env_id [simp]: "adapt_env True e = e"
  by (simp add: adapt_env_def acquire_events_def sleep_for_def)

section \<open>Without it nothing is cancelled\<close>

definition uncancelled :: "'c wake list \<Rightarrow> bool" where
  "uncancelled ws \<longleftrightarrow> (\<forall>w \<in> set ws. \<not> wk_cancel w)"

lemma uncancelled_Cons [simp]: "uncancelled (w # ws) \<longleftrightarrow> \<not> wk_cancel w \<and> uncancelled ws"
  by (auto simp: uncancelled_def)

lemma adapted_uncancelled [simp]: "uncancelled (map (adapt_wake False) ws)"
  by (auto simp: uncancelled_def adapt_wake_def cancel_requested_def)

lemma after_wait_uncancelled:
  "after_wait L s cancel c out = (failed, out', c') \<Longrightarrow> \<not> cancel \<Longrightarrow> qr_code out' = (if failed then SocketReadFailed else qr_code out)"
  by (auto simp: after_wait_def fail_io_def split: if_splits)

lemma flush_loop_uncancelled:
  "flush_loop L ws c out = Finished (failed, out', c', ws') \<Longrightarrow> uncancelled ws \<Longrightarrow>
     uncancelled ws' \<and> qr_code out' = (if failed then SocketReadFailed else qr_code out)"
proof (induction L ws c out rule: flush_loop.induct)
  case (1 L ws c out)
  then show ?case
    by (subst (asm) (2) flush_loop.simps)
       (fastforce dest: after_wait_uncancelled split: prod.splits step.splits list.splits if_splits)
qed

lemma collect_loop_uncancelled:
  "collect_loop L ws c out = Finished (failed, out', c', ws') \<Longrightarrow> uncancelled ws \<Longrightarrow> failed \<Longrightarrow> qr_code out' = SocketReadFailed"
proof (induction L ws c out rule: collect_loop.induct)
  case (1 L ws c out)
  then show ?case
    by (subst (asm) (2) collect_loop.simps)
       (fastforce dest: after_wait_uncancelled split: option.splits prod.splits step.splits list.splits if_splits)
qed


lemma run_query_uncancelled:
  assumes run: "run_query L send ws c = Finished (q, c', ws')" and u: "uncancelled ws"
  shows "qr_code q \<noteq> AwaitCanceled"
proof -
  have "qr_code out \<noteq> AwaitCanceled"
    if f: "flush_loop L ws c0 fresh_result = Finished (False, o1, c1, ws1)" and g: "collect_loop L ws1 c1 o1 = Finished (f2, out, c2, ws2)"
    for c0 o1 c1 ws1 f2 out c2 ws2
  proof (cases f2)
    case True
    with collect_loop_uncancelled [OF g] flush_loop_uncancelled [OF f u] show ?thesis by simp
  next
    case False
    have "o1 = fresh_result"
      using flush_loop_wf [OF f] by simp
    with False collect_loop_wf [OF g] absorbed_fresh show ?thesis by (auto simp: absorbed_wf_def)
  qed
  then show ?thesis
    using run flush_loop_uncancelled [OF _ u]
    by (fastforce simp: run_query_def Let_def closed_result_def drop_rows_def fail_io_def
          split: option.splits if_splits prod.splits async.splits)
qed

lemma acquire_loop_uncancelled:
  "acquire_loop L cf sems ats w p = Finished (Inl e, p') \<Longrightarrow> None \<notin> set sems \<Longrightarrow> oe_code e \<noteq> AwaitCanceled"
proof (induction L cf sems ats w p rule: acquire_loop.induct)
  case (1 L cf sems ats w p)
  have "oe_code e \<noteq> AwaitCanceled" if "create_connection cf ats q = Finished (Inl e, q', ats')" for q q' ats'
    using that by (auto simp: create_connection_def Let_def split: sum.splits async.splits)
  with 1 show ?case
    by (subst (asm) acquire_loop.simps [of L cf sems ats w p])
       (auto simp: Let_def split: if_splits list.splits option.splits prod.splits async.splits)
qed

text \<open>What cancels a try: the wait for a permit is cut, or a wait of its statement ends with a request.\<close>

definition cancels :: "'c try_env \<Rightarrow> bool" where
  "cancels e \<longleftrightarrow> None \<in> set (te_sems e) \<or> \<not> uncancelled (te_wakes e)"

lemma adapted_cancels: "cancels (adapt_env has e) \<longleftrightarrow> has \<and> cancels e"
  by (cases has) (simp_all add: cancels_def adapt_env_def acquire_events_def)

lemma pool_run_cancelled:
  "pool_run L cf opts send es b p = Finished (q, p') \<Longrightarrow> qr_code q = AwaitCanceled \<Longrightarrow> \<exists>e \<in> set es. cancels e"
proof (induction es arbitrary: b p)
  case (Cons e es)
  show ?case
  proof (rule ccontr)
    assume "\<not> ?case"
    then have n: "\<not> cancels e" "\<And>e. e \<in> set es \<Longrightarrow> \<not> cancels e" by auto
    have acq: "oe_code err \<noteq> AwaitCanceled" if "acquire_or_idle L cf e p = Finished (Inl err, p1)" for err p1
      using that n(1) acquire_loop_uncancelled [of L cf "te_sems e" "te_attempts e" False _ err p1]
      by (auto simp: acquire_or_idle_def acquire_connection_def cancels_def split: prod.splits option.splits)
    have run: "qr_code qr \<noteq> AwaitCanceled" if "run_attempt L opts send e cid p1 = Finished ((qr, cls), p2)" for cid p1 qr cls p2
    proof -
      let ?c = "if qo_io_deadline_ms opts \<noteq> 0 then set_io_deadline_ms (qo_io_deadline_ms opts) (conn_at p1 cid) else conn_at p1 cid"
      from that obtain c' ws' where "run_query L send (te_wakes e) ?c = Finished (qr, c', ws')"
        unfolding run_attempt_def Let_def by (auto split: async.splits prod.splits bool.splits)
      from run_query_uncancelled [OF this] n(1) show ?thesis by (simp add: cancels_def)
    qed
    have "pool_run L cf opts send es b' p3 \<noteq> Finished (q, p')" for b' p3
      using Cons n(2) by blast
    with Cons.prems acq run show False
      by (auto simp: Let_def acquire_error_result_def split: async.splits sum.splits prod.splits if_splits option.splits)
  qed
qed simp

text \<open>
  A pooled statement reports \<^verbatim>\<open>AwaitCanceled\<close> only when it was cancelled, and on a uvent without cancellation never; there the
  completion of a call rests on the permits and deadlines alone, since no environment cuts the wait for a permit.
\<close>

theorem canceled_means_canceled:
  assumes "pool_run L cf opts send (map (adapt_env has) es) b p = Finished (q, p')" "qr_code q = AwaitCanceled"
  shows "has \<and> (\<exists>e \<in> set es. cancels e)"
  using pool_run_cancelled [OF assms] by (auto simp: adapted_cancels)

lemma no_cut_without_cancellation: "\<not> env_ends cf (adapt_env False e)"
  by (auto simp: env_ends_def adapt_env_def acquire_events_def)

end
