(* ===== verification/Pg_Pool_Steps.thy ===== *)
theory Pg_Pool_Steps
  imports Pg_Pool
begin

text \<open>
  The pool under concurrency: every task is a program counter in \<^verbatim>\<open>take_idle\<close>, \<^verbatim>\<open>acquire_connection\<close>,
  \<^verbatim>\<open>release_connection\<close> or \<^verbatim>\<open>mark_dead\<close>, and one step is one access to the shared queue, counter or
  semaphore (accesses to a connection by the task that owns it are part of the step they precede).
  Tasks run on several workers, so any interleaving of the steps is possible; the watchdog may abort
  any connection between two of them.

  The queue and the semaphore (of the uvent library) are assumed to be linearizable. A client gives
  back what it acquired at most once and uses a connection only while it holds it; it may call
  \<^verbatim>\<open>mark_dead\<close> on a held connection any number of times.
\<close>

section \<open>Tasks\<close>

text \<open>Where \<^verbatim>\<open>mark_dead\<close> was called from.\<close>

datatype kont = KTake bool | KErr | KHold cid | KDone

datatype pc =
  Resting                 \<comment> \<open>no call in progress, nothing held\<close>
| Taking bool             \<comment> \<open>before \<^verbatim>\<open>idle_.try_dequeue\<close>; \<open>True\<close>: in \<^verbatim>\<open>run\<close>'s own \<^verbatim>\<open>take_idle\<close>\<close>
| Checking bool cid       \<comment> \<open>dequeued\<close>
| Loading                 \<comment> \<open>before \<^verbatim>\<open>live_count_.load\<close>\<close>
| Waiting                 \<comment> \<open>awaiting \<^verbatim>\<open>idle_sem_\<close>\<close>
| Reserving u64           \<comment> \<open>before the compare-exchange of \<^verbatim>\<open>live_count_\<close>, with the value loaded\<close>
| Connecting cid          \<comment> \<open>reserved and created\<close>
| Holding cid             \<comment> \<open>with the client\<close>
| Releasing cid           \<comment> \<open>checked, before \<^verbatim>\<open>idle_.try_enqueue\<close>\<close>
| Posting                 \<comment> \<open>enqueued, before \<^verbatim>\<open>idle_sem_.release\<close>\<close>
| Accounting cid kont     \<comment> \<open>in \<^verbatim>\<open>mark_dead\<close>, before the compare-exchange of \<^verbatim>\<open>dead_accounted_\<close>\<close>
| Subtracting kont        \<comment> \<open>before \<^verbatim>\<open>live_count_.fetch_sub\<close>\<close>
| Signalling kont         \<comment> \<open>before \<^verbatim>\<open>idle_sem_.release\<close>\<close>

fun resume :: "kont \<Rightarrow> pc" where
  "resume (KTake b) = Taking b"
| "resume KErr = Resting"
| "resume (KHold cid) = Holding cid"
| "resume KDone = Resting"

text \<open>What a client may do to a connection it holds: everything but revive one accounted dead.\<close>

definition conn_use :: "'c conn \<Rightarrow> 'c conn \<Rightarrow> bool" where
  "conn_use c c' \<longleftrightarrow> cn_dead_accounted c' = cn_dead_accounted c \<and> (cn_pq c = None \<longrightarrow> cn_pq c' = None)"

inductive task_step :: "'c libpq \<Rightarrow> PoolConfig \<Rightarrow> 'c pool \<Rightarrow> pc \<Rightarrow> 'c pool \<Rightarrow> pc \<Rightarrow> bool" for L cf where
  start_run: "task_step L cf p Resting p (Taking True)"
| start_acquire: "task_step L cf p Resting (ensure_watchdog_started p) (Taking False)"
| dequeue: "pl_idle p = cid # rest \<Longrightarrow>
    task_step L cf p (Taking b) (bump st_checked_update (p\<lparr>pl_idle := rest\<rparr>)) (Checking b cid)"
| dequeue_none_run: "pl_idle p = [] \<Longrightarrow> task_step L cf p (Taking True) (ensure_watchdog_started p) (Taking False)"
| dequeue_none: "pl_idle p = [] \<Longrightarrow> task_step L cf p (Taking False) p Loading"
| check_bad: "\<not> connected L (conn_at p cid) \<or> \<not> is_idle L (conn_at p cid) \<Longrightarrow>
    task_step L cf p (Checking b cid) p (Accounting cid (KTake b))"
| check_stale: "connected L (conn_at p cid) \<Longrightarrow> is_idle L (conn_at p cid) \<Longrightarrow>
    idle_socket_alive L (conn_at p cid) = (False, c') \<Longrightarrow>
    task_step L cf p (Checking b cid) (bump st_stale_dropped_update (set_conn cid c' p)) (Accounting cid (KTake b))"
| check_ok: "connected L (conn_at p cid) \<Longrightarrow> is_idle L (conn_at p cid) \<Longrightarrow>
    idle_socket_alive L (conn_at p cid) = (True, c') \<Longrightarrow>
    task_step L cf p (Checking b cid) (bump st_alive_update (set_conn cid c' p)) (Holding cid)"
| load_full: "pl_max_pool p \<le> pl_live_count p \<Longrightarrow> task_step L cf p Loading p Waiting"
| load_free: "\<not> pl_max_pool p \<le> pl_live_count p \<Longrightarrow> task_step L cf p Loading p (Reserving (pl_live_count p))"
| sem_acquire: "0 < pl_sem p \<Longrightarrow> task_step L cf p Waiting (p\<lparr>pl_sem := pl_sem p - 1\<rparr>) (Taking False)"
| sem_cancel: "task_step L cf p Waiting p Resting"
| cas_fails: "pl_live_count p \<noteq> v \<Longrightarrow> task_step L cf p (Reserving v) p (Taking False)"
| cas_succeeds: "pl_live_count p = v \<Longrightarrow> cid = length (pl_conns p) \<Longrightarrow>
    task_step L cf p (Reserving v)
      (register_connection cid (p\<lparr>pl_live_count := v + 1, pl_conns := pl_conns p @ [new_conn]\<rparr>)) (Connecting cid)"
| conninfo_nul: "make_conninfo (cf_ip4 cf) (cf_ip6 cf) (cf_host cf) (cf_port cf) (cf_user cf) (cf_db cf)
      (cf_password cf) (cf_ssl cf) (cf_keepalive cf) = Inl err \<Longrightarrow>
    task_step L cf p (Connecting cid) p (Accounting cid KErr)"
| connect_ok: "make_conninfo (cf_ip4 cf) (cf_ip6 cf) (cf_host cf) (cf_port cf) (cf_user cf) (cf_db cf)
      (cf_password cf) (cf_ssl cf) (cf_keepalive cf) = Inr ci \<Longrightarrow>
    connect_loop (cf_retries cf) 0 ci ats None (conn_at p cid) = Finished (Inr u, c', ats') \<Longrightarrow>
    task_step L cf p (Connecting cid) (set_conn cid c' p) (Holding cid)"
| connect_fails: "make_conninfo (cf_ip4 cf) (cf_ip6 cf) (cf_host cf) (cf_port cf) (cf_user cf) (cf_db cf)
      (cf_password cf) (cf_ssl cf) (cf_keepalive cf) = Inr ci \<Longrightarrow>
    connect_loop (cf_retries cf) 0 ci ats None (conn_at p cid) = Finished (Inl e, c', ats') \<Longrightarrow>
    task_step L cf p (Connecting cid) (bump st_reconnected_update (set_conn cid c' p)) (Accounting cid KErr)"
| use: "conn_use (conn_at p cid) c' \<Longrightarrow> task_step L cf p (Holding cid) (set_conn cid c' p) (Holding cid)"
| kill: "task_step L cf p (Holding cid) p (Accounting cid (KHold cid))"
| drop_dead: "cn_dead_accounted (conn_at p cid) \<Longrightarrow> task_step L cf p (Holding cid) p Resting"
| release_bad: "c = set_io_deadline_ms 0 (conn_at p cid) \<Longrightarrow> \<not> connected L c \<or> \<not> is_idle L c \<Longrightarrow>
    task_step L cf p (Holding cid) (set_conn cid c p) (Accounting cid KDone)"
| release_good: "c = set_io_deadline_ms 0 (conn_at p cid) \<Longrightarrow> connected L c \<Longrightarrow> is_idle L c \<Longrightarrow>
    task_step L cf p (Holding cid) (set_conn cid c p) (Releasing cid)"
| enqueue_full: "pl_capacity p \<le> length (pl_idle p) \<Longrightarrow> task_step L cf p (Releasing cid) p (Accounting cid KDone)"
| enqueue: "\<not> pl_capacity p \<le> length (pl_idle p) \<Longrightarrow>
    task_step L cf p (Releasing cid) (p\<lparr>pl_idle := pl_idle p @ [cid]\<rparr>) Posting"
| post: "task_step L cf p Posting (p\<lparr>pl_sem := pl_sem p + 1\<rparr>) Resting"
| account_again: "cn_dead_accounted (conn_at p cid) \<Longrightarrow>
    task_step L cf p (Accounting cid k) (set_conn cid (conn_close (conn_at p cid)) p) (resume k)"
| account: "\<not> cn_dead_accounted (conn_at p cid) \<Longrightarrow>
    task_step L cf p (Accounting cid k)
      (set_conn cid (conn_close ((conn_at p cid)\<lparr>cn_dead_accounted := True\<rparr>)) p) (Subtracting k)"
| subtract: "task_step L cf p (Subtracting k) (p\<lparr>pl_live_count := pl_live_count p - 1\<rparr>) (Signalling k)"
| signal: "task_step L cf p (Signalling k) (p\<lparr>pl_sem := pl_sem p + 1\<rparr>) (resume k)"

record 'c sys =
  sy_pool :: "'c pool"
  sy_pcs :: "pc list"

text \<open>One step of the system: of a task, a new task, or the watchdog's visit of a connection.\<close>

inductive pool_step :: "'c libpq \<Rightarrow> PoolConfig \<Rightarrow> 'c sys \<Rightarrow> 'c sys \<Rightarrow> bool" for L cf where
  task: "i < length (sy_pcs s) \<Longrightarrow> task_step L cf (sy_pool s) (sy_pcs s ! i) p' pc' \<Longrightarrow>
    pool_step L cf s \<lparr>sy_pool = p', sy_pcs = (sy_pcs s)[i := pc']\<rparr>"
| spawn: "pool_step L cf s (s\<lparr>sy_pcs := sy_pcs s @ [Resting]\<rparr>)"
| watchdog: "cid < length (pl_conns (sy_pool s)) \<Longrightarrow>
    pool_step L cf s (s\<lparr>sy_pool := watchdog_visit L now pending cid (sy_pool s)\<rparr>)"

text \<open>\<^verbatim>\<open>close_all\<close> takes one idle connection after the other off the queue and closes it.\<close>

inductive close_step :: "'c sys \<Rightarrow> 'c sys \<Rightarrow> bool" where
  close_one: "pl_idle (sy_pool s) = cid # rest \<Longrightarrow>
    close_step s (s\<lparr>sy_pool := (set_conn cid (conn_close (conn_at (sy_pool s) cid)) (sy_pool s))\<lparr>pl_idle := rest\<rparr>\<rparr>)"

definition any_step :: "'c libpq \<Rightarrow> PoolConfig \<Rightarrow> 'c sys \<Rightarrow> 'c sys \<Rightarrow> bool" where
  "any_step L cf s t \<longleftrightarrow> pool_step L cf s t \<or> close_step s t"

definition init_sys :: "'c sys \<Rightarrow> bool" where
  "init_sys s \<longleftrightarrow> (\<exists>max_pool capacity. sy_pool s = new_pool max_pool capacity) \<and> sy_pcs s = []"

section \<open>Weights\<close>

text \<open>The sum of a weight over a list, and how it changes with one element.\<close>

definition wsum :: "('a \<Rightarrow> nat) \<Rightarrow> 'a list \<Rightarrow> nat" where
  "wsum w xs = sum_list (map w xs)"

lemma wsum_simps [simp]: "wsum w [] = 0" "wsum w (x # xs) = w x + wsum w xs" "wsum w (xs @ ys) = wsum w xs + wsum w ys"
  by (simp_all add: wsum_def)

lemma wsum_update: "i < length xs \<Longrightarrow> wsum w (xs[i := x]) + w (xs ! i) = wsum w xs + w x"
  by (induction xs arbitrary: i) (auto split: nat.split)

lemma wsum_ge: "i < length xs \<Longrightarrow> w (xs ! i) \<le> wsum w xs"
  by (induction xs arbitrary: i) (auto simp: nth_Cons split: nat.split intro: trans_le_add2)

lemma wsum_mono: "(\<And>x. v x \<le> w x) \<Longrightarrow> wsum v xs \<le> wsum w xs"
  by (induction xs) (auto intro: add_mono)

lemma wsum_two: "i < length xs \<Longrightarrow> j < length xs \<Longrightarrow> i \<noteq> j \<Longrightarrow> w (xs ! i) + w (xs ! j) \<le> wsum w xs"
proof (induction xs arbitrary: i j)
  case (Cons x xs)
  show ?case
  proof (cases "i = 0 \<or> j = 0")
    case True
    with Cons.prems wsum_ge [of "i - 1" xs w] wsum_ge [of "j - 1" xs w] show ?thesis by (auto simp: nth_Cons')
  next
    case False
    with Cons.prems have "w (xs ! (i - 1)) + w (xs ! (j - 1)) \<le> wsum w xs" by (intro Cons.IH) auto
    with False show ?thesis by (simp add: nth_Cons')
  qed
qed simp

lemma wsum_zero: "wsum w xs = 0 \<longleftrightarrow> (\<forall>x \<in> set xs. w x = 0)"
  by (induction xs) auto


definition alive :: "'c conn \<Rightarrow> nat" where
  "alive c = (if cn_dead_accounted c then 0 else 1)"

fun subtracting :: "pc \<Rightarrow> nat" where
  "subtracting (Subtracting k) = 1"
| "subtracting _ = 0"

fun kept :: "kont \<Rightarrow> cid option" where
  "kept (KHold cid) = Some cid"
| "kept _ = None"

text \<open>The connection a task owns; \<open>owner_live\<close> when it cannot have been accounted dead.\<close>

fun owner_of :: "pc \<Rightarrow> cid option" where
  "owner_of (Checking b cid) = Some cid"
| "owner_of (Connecting cid) = Some cid"
| "owner_of (Holding cid) = Some cid"
| "owner_of (Releasing cid) = Some cid"
| "owner_of (Accounting cid k) = Some cid"
| "owner_of (Subtracting k) = kept k"
| "owner_of (Signalling k) = kept k"
| "owner_of _ = None"

fun owner_live :: "pc \<Rightarrow> cid option" where
  "owner_live (Checking b cid) = Some cid"
| "owner_live (Connecting cid) = Some cid"
| "owner_live (Releasing cid) = Some cid"
| "owner_live _ = None"

definition owns :: "cid \<Rightarrow> pc \<Rightarrow> nat" where
  "owns cid pc = (if owner_of pc = Some cid then 1 else 0)"

text \<open>A client's \<open>mark_dead\<close> returns to the client with the same connection.\<close>

fun pc_ok :: "u64 \<Rightarrow> pc \<Rightarrow> bool" where
  "pc_ok m (Reserving v) \<longleftrightarrow> v < m"
| "pc_ok m (Accounting cid k) \<longleftrightarrow> kept k = None \<or> kept k = Some cid"
| "pc_ok m _ \<longleftrightarrow> True"

text \<open>Tasks that will look at the queue, or post a permit, before they can wait; those on their way to the counter too.\<close>

fun looking :: "pc \<Rightarrow> nat" where
  "looking (Taking b) = 1"
| "looking Posting = 1"
| "looking (Signalling k) = 1"
| "looking _ = 0"

fun stirring :: "pc \<Rightarrow> nat" where
  "stirring Loading = 1"
| "stirring (Reserving v) = 1"
| "stirring pc = looking pc"

definition free_slots :: "'c pool \<Rightarrow> nat" where
  "free_slots p = unat (pl_max_pool p) - unat (pl_live_count p)"

section \<open>Frame facts\<close>

lemma alive_rounds_frame:
  "alive_rounds L k c p = (b, c') \<Longrightarrow> cn_dead_accounted c' = cn_dead_accounted c
     \<and> cn_io_deadline_ms c' = cn_io_deadline_ms c \<and> (cn_pq c' \<noteq> None \<or> c' = c)"
  by (induction L k c p arbitrary: b c' rule: alive_rounds.induct)
     (fastforce split: prod.splits if_splits)+

lemma idle_socket_alive_frame:
  "idle_socket_alive L c = (b, c') \<Longrightarrow> cn_dead_accounted c' = cn_dead_accounted c
     \<and> cn_io_deadline_ms c' = cn_io_deadline_ms c \<and> (cn_pq c = None \<longrightarrow> cn_pq c' = None)"
  by (auto simp: idle_socket_alive_def split: option.splits if_splits dest: alive_rounds_frame)

lemma connect_async_frame:
  "connect_async start nb rs w t ci c = Finished (e, c') \<Longrightarrow> cn_dead_accounted c' = cn_dead_accounted c"
  by (auto simp: connect_async_def connect_fail_def Let_def split: option.splits if_splits async.splits)

lemma connect_loop_frame:
  "connect_loop r a ci ats e c = Finished (x, c', ats') \<Longrightarrow> cn_dead_accounted c' = cn_dead_accounted c"
proof (induction r a ci ats e c rule: connect_loop.induct)
  case (1 r a ci ats e c)
  show ?case
  proof (cases "r \<le> a")
    case True
    with "1.prems" show ?thesis by (simp add: connect_loop.simps [of r a ci ats])
  next
    case False
    then obtain at ats1 where ats: "ats = at # ats1" using "1.prems" by (cases ats) (auto simp: connect_loop.simps [of r a ci "[]"])
    then obtain e1 c1 where ca: "connect_async (at_start at) (at_nonblocking at) (at_rounds at) (at_watched at) 5000 ci c
        = Finished (e1, c1)"
      using "1.prems" False by (auto simp: connect_loop.simps [of r a ci "at # ats1"] split: async.splits)
    show ?thesis
    proof (cases e1)
      case None
      with "1.prems" False ats ca connect_async_frame [OF ca] show ?thesis
        by (auto simp: connect_loop.simps [of r a ci "at # ats1"])
    next
      case (Some err)
      with "1.prems" False ats ca connect_async_frame [OF ca] "1.IH" [OF False ats ca refl Some] show ?thesis
        by (auto simp: connect_loop.simps [of r a ci "at # ats1"] split: if_splits)
    qed
  qed
qed

lemma conn_close_frame [simp]:
  "cn_dead_accounted (conn_close c) = cn_dead_accounted c" "cn_pq (conn_close c) = None"
  "cn_io_deadline_ms (conn_close c) = cn_io_deadline_ms c"
  by (simp_all add: conn_close_def)

lemma set_io_deadline_frame [simp]:
  "cn_dead_accounted (set_io_deadline_ms ms c) = cn_dead_accounted c" "cn_pq (set_io_deadline_ms ms c) = cn_pq c"
  "cn_io_deadline_ms (set_io_deadline_ms ms c) = ms"
  by (simp_all add: set_io_deadline_ms_def)

lemma abort_io_frame:
  "cn_dead_accounted (snd (abort_io_from_watchdog L now pend c)) = cn_dead_accounted c"
  "cn_pq (snd (abort_io_from_watchdog L now pend c)) = cn_pq c"
  "cn_io_deadline_ms (snd (abort_io_from_watchdog L now pend c)) = cn_io_deadline_ms c"
  by (auto simp: abort_io_from_watchdog_def Let_def split: option.split)

lemma pool_fields [simp]:
  "pl_idle (bump f p) = pl_idle p" "pl_live_count (bump f p) = pl_live_count p" "pl_max_pool (bump f p) = pl_max_pool p"
  "pl_sem (bump f p) = pl_sem p" "pl_capacity (bump f p) = pl_capacity p"
  "pl_idle (set_conn cid c p) = pl_idle p" "pl_live_count (set_conn cid c p) = pl_live_count p"
  "pl_max_pool (set_conn cid c p) = pl_max_pool p" "pl_sem (set_conn cid c p) = pl_sem p"
  "pl_conns (set_conn cid c p) = (pl_conns p)[cid := c]"
  "pl_conns (ensure_watchdog_started p) = pl_conns p" "pl_idle (ensure_watchdog_started p) = pl_idle p"
  "pl_live_count (ensure_watchdog_started p) = pl_live_count p" "pl_max_pool (ensure_watchdog_started p) = pl_max_pool p"
  "pl_sem (ensure_watchdog_started p) = pl_sem p"
  "pl_conns (register_connection cid p) = pl_conns p" "pl_idle (register_connection cid p) = pl_idle p"
  "pl_live_count (register_connection cid p) = pl_live_count p" "pl_max_pool (register_connection cid p) = pl_max_pool p"
  "pl_sem (register_connection cid p) = pl_sem p"
  by (simp_all add: bump_def set_conn_def ensure_watchdog_started_def register_connection_def)

lemma conn_at_idle [simp]:
  "conn_at (p\<lparr>pl_idle := x\<rparr>) = conn_at p" "conn_at (p\<lparr>pl_sem := y\<rparr>) = conn_at p"
  "conn_at (p\<lparr>pl_live_count := z\<rparr>) = conn_at p" "conn_at (ensure_watchdog_started p) = conn_at p"
  "conn_at (register_connection cid p) = conn_at p"
  by (auto simp: conn_at_def)

lemma resume_weights [simp]:
  "subtracting (resume k) = 0" "owner_of (resume k) = kept k" "owner_live (resume k) = None" "pc_ok m (resume k)"
  "resume k \<noteq> Waiting"
  by (cases k; simp)+

section \<open>What one step changes\<close>

lemmas alive_conns_update = wsum_update [of _ _ alive]

lemma unat_inc: "v < m \<Longrightarrow> unat (v + 1) = unat v + 1" for v m :: u64
proof -
  assume "v < m"
  then have "unat v + 1 < 2 ^ 64"
    using unsigned_less [of m, where ?'a = nat] by (simp add: word_less_nat_alt)
  then show ?thesis by (simp add: unat_word_ariths)
qed

lemma unat_dec: "0 < unat v \<Longrightarrow> unat (v - 1) = unat v - 1" for v :: u64
  by (metis gr_implies_not0 unat_eq_zero unat_minus_one)

lemma step_max: "task_step L cf p pc p' pc' \<Longrightarrow> pl_max_pool p' = pl_max_pool p"
  by (cases rule: task_step.cases) auto

lemma step_pc_ok: "task_step L cf p pc p' pc' \<Longrightarrow> pc_ok (pl_max_pool p) pc'"
  by (cases rule: task_step.cases) auto

lemma step_bound:
  assumes "task_step L cf p pc p' pc'" "pl_live_count p \<le> pl_max_pool p" "pc_ok (pl_max_pool p) pc"
    and "subtracting pc \<le> unat (pl_live_count p)"
  shows "pl_live_count p' \<le> pl_max_pool p'"
  using assms(1)
proof cases
  case (cas_succeeds v cid)
  with assms(3) show ?thesis by (simp add: inc_le)
next
  case (subtract k)
  with assms(2,4) show ?thesis by (simp add: word_le_nat_alt unat_dec)
qed (use assms in auto)

lemma step_count:
  assumes "task_step L cf p pc p' pc'" "\<And>cid. owner_of pc = Some cid \<Longrightarrow> cid < length (pl_conns p)"
    and "subtracting pc \<le> unat (pl_live_count p)" "pc_ok (pl_max_pool p) pc"
  shows "unat (pl_live_count p') + wsum alive (pl_conns p) + subtracting pc
       = unat (pl_live_count p) + wsum alive (pl_conns p') + subtracting pc'"
  using assms(1)
proof cases
  case (cas_succeeds v cid)
  with assms(4) show ?thesis by (simp add: unat_inc alive_def new_conn_def)
next
  case (subtract k)
  with assms(3) show ?thesis by (simp add: unat_dec)
next
  case (account cid k)
  with assms(2) alive_conns_update [of cid "pl_conns p" "conn_close ((conn_at p cid)\<lparr>cn_dead_accounted := True\<rparr>)"]
  show ?thesis by (simp add: alive_def conn_at_def)
next
  case (account_again cid k)
  with assms(2) alive_conns_update [of cid "pl_conns p" "conn_close (conn_at p cid)"]
  show ?thesis by (simp add: alive_def conn_at_def)
next
  case (check_stale cid c' b)
  with assms(2) alive_conns_update [of cid "pl_conns p" c'] idle_socket_alive_frame [OF check_stale(6)]
  show ?thesis by (simp add: alive_def conn_at_def)
next
  case (check_ok cid c' b)
  with assms(2) alive_conns_update [of cid "pl_conns p" c'] idle_socket_alive_frame [OF check_ok(6)]
  show ?thesis by (simp add: alive_def conn_at_def)
next
  case (connect_ok ci ats cid u c' ats')
  with assms(2) alive_conns_update [of cid "pl_conns p" c'] connect_loop_frame [OF connect_ok(5)]
  show ?thesis by (simp add: alive_def conn_at_def)
next
  case (connect_fails ci ats cid e c' ats')
  with assms(2) alive_conns_update [of cid "pl_conns p" c'] connect_loop_frame [OF connect_fails(5)]
  show ?thesis by (simp add: alive_def conn_at_def)
next
  case (use cid c')
  with assms(2) alive_conns_update [of cid "pl_conns p" c']
  show ?thesis by (simp add: alive_def conn_at_def conn_use_def)
next
  case (release_bad c cid)
  with assms(2) alive_conns_update [of cid "pl_conns p" c] show ?thesis by (simp add: alive_def conn_at_def)
next
  case (release_good c cid)
  with assms(2) alive_conns_update [of cid "pl_conns p" c] show ?thesis by (simp add: alive_def conn_at_def)
qed auto


lemma step_length: "task_step L cf p pc p' pc' \<Longrightarrow> length (pl_conns p) \<le> length (pl_conns p')"
  by (cases rule: task_step.cases) auto

text \<open>Ownership moves between the queue and the task, and only a new connection gets a new owner.\<close>

lemma step_owner:
  assumes "task_step L cf p pc p' pc'" "pc_ok (pl_max_pool p) pc" "cid < length (pl_conns p)"
  shows "count_list (pl_idle p') cid + owns cid pc' \<le> count_list (pl_idle p) cid + owns cid pc"
  using assms(1)
proof cases
  case (account_again d k)
  with assms(2) show ?thesis by (auto simp: owns_def)
next
  case (account d k)
  with assms(2) show ?thesis by (auto simp: owns_def)
qed (use assms(3) in \<open>auto simp: owns_def count_list_append\<close>)

lemma step_range:
  assumes "task_step L cf p pc p' pc'" "pc_ok (pl_max_pool p) pc"
    and "\<And>cid. cid \<in> set (pl_idle p) \<or> owner_of pc = Some cid \<Longrightarrow> cid < length (pl_conns p)"
    and "cid \<in> set (pl_idle p') \<or> owner_of pc' = Some cid"
  shows "cid < length (pl_conns p')"
  using assms(1)
proof cases
  case (account_again d k)
  with assms(2-4) show ?thesis by auto
next
  case (account d k)
  with assms(2-4) show ?thesis by auto
qed (use assms(3,4) in \<open>fastforce+\<close>)

text \<open>Only the owner of a connection changes it.\<close>

lemma step_conn_other:
  assumes "task_step L cf p pc p' pc'" "owner_of pc \<noteq> Some cid" "cid < length (pl_conns p)"
  shows "conn_at p' cid = conn_at p cid"
  using assms by (cases rule: task_step.cases) (auto simp: conn_at_def nth_append)

lemma connected_pq: "connected L c \<Longrightarrow> cn_pq c \<noteq> None"
  by (cases "cn_pq c") (simp_all add: connected_def)

lemma step_enqueued:
  "task_step L cf p pc p' pc' \<Longrightarrow> cid \<in> set (pl_idle p') \<Longrightarrow>
   cid \<in> set (pl_idle p) \<or> (pc = Releasing cid \<and> conn_at p' = conn_at p)"
  by (cases rule: task_step.cases) auto

lemma step_dead:
  assumes "task_step L cf p pc p' pc'" "owner_of pc = Some cid" "cid < length (pl_conns p)"
    and "cn_dead_accounted (conn_at p cid) \<longrightarrow> cn_pq (conn_at p cid) = None"
    and "owner_live pc = Some cid \<longrightarrow> \<not> cn_dead_accounted (conn_at p cid)"
    and dead: "cn_dead_accounted (conn_at p' cid)"
  shows "cn_pq (conn_at p' cid) = None \<and> owner_live pc' \<noteq> Some cid"
  using assms(1)
proof cases
  case (check_stale d c' b)
  with assms idle_socket_alive_frame [OF check_stale(6)] show ?thesis by simp
next
  case (check_ok d c' b)
  with assms idle_socket_alive_frame [OF check_ok(6)] show ?thesis by simp
next
  case (connect_ok ci ats d u c' ats')
  with assms connect_loop_frame [OF connect_ok(5)] show ?thesis by simp
next
  case (connect_fails ci ats d e c' ats')
  with assms connect_loop_frame [OF connect_fails(5)] show ?thesis by simp
next
  case (use d c')
  with assms show ?thesis by (simp add: conn_use_def)
next
  case (release_good c d)
  with assms connected_pq [OF release_good(5)] show ?thesis by simp
qed (use assms in auto)

text \<open>Queued connections have no leftover deadline.\<close>

lemma step_deadline_releasing:
  assumes "task_step L cf p pc p' (Releasing cid)" "owner_of pc = Some cid \<Longrightarrow> cid < length (pl_conns p)"
  shows "cn_io_deadline_ms (conn_at p' cid) = 0"
  using assms(1)
proof cases
  case (release_good c)
  with assms(2) show ?thesis by simp
next
  case (account_again d k)
  then show ?thesis by (cases k) auto
next
  case (signal k)
  then show ?thesis by (cases k) auto
qed

lemma step_look:
  "task_step L cf p pc p' pc' \<Longrightarrow>
   pl_idle p' = [] \<or> length (pl_idle p') + pl_sem p + looking pc \<le> length (pl_idle p) + pl_sem p' + looking pc'"
  by (cases rule: task_step.cases) auto

lemma step_stir:
  assumes "task_step L cf p pc p' pc'" "pc_ok (pl_max_pool p) pc" "subtracting pc \<le> unat (pl_live_count p)"
    and "pl_live_count p \<le> pl_max_pool p"
  shows "pc = Loading \<and> pc' = Waiting \<and> p' = p \<and> pl_max_pool p \<le> pl_live_count p
    \<or> pc' \<noteq> Waiting
      \<and> length (pl_idle p') + free_slots p' + pl_sem p + stirring pc \<le> length (pl_idle p) + free_slots p + pl_sem p' + stirring pc'"
  using assms(1)
proof cases
  case (cas_succeeds v cid)
  with assms(2) show ?thesis by (simp add: free_slots_def unat_inc word_less_nat_alt)
next
  case (subtract k)
  with assms(3,4) show ?thesis by (simp add: free_slots_def unat_dec word_le_nat_alt)
qed (auto simp: free_slots_def)

section \<open>Invariant\<close>

definition inv_count :: "'c sys \<Rightarrow> bool" where
  "inv_count s \<longleftrightarrow>
     (let p = sy_pool s in
      (\<forall>pc \<in> set (sy_pcs s). pc_ok (pl_max_pool p) pc) \<and> pl_live_count p \<le> pl_max_pool p
      \<and> unat (pl_live_count p) = wsum alive (pl_conns p) + wsum subtracting (sy_pcs s))"

definition inv_own :: "'c sys \<Rightarrow> bool" where
  "inv_own s \<longleftrightarrow>
     (let p = sy_pool s in
      (\<forall>cid \<in> set (pl_idle p). cid < length (pl_conns p))
      \<and> (\<forall>pc \<in> set (sy_pcs s). \<forall>cid. owner_of pc = Some cid \<longrightarrow> cid < length (pl_conns p))
      \<and> (\<forall>cid < length (pl_conns p). count_list (pl_idle p) cid + wsum (owns cid) (sy_pcs s) \<le> 1))"

definition inv_conn :: "'c sys \<Rightarrow> bool" where
  "inv_conn s \<longleftrightarrow>
     (let p = sy_pool s in
      (\<forall>cid < length (pl_conns p). cn_dead_accounted (conn_at p cid) \<longrightarrow>
         cn_pq (conn_at p cid) = None \<and> cid \<notin> set (pl_idle p) \<and> (\<forall>pc \<in> set (sy_pcs s). owner_live pc \<noteq> Some cid))
      \<and> (\<forall>cid \<in> set (pl_idle p). cn_io_deadline_ms (conn_at p cid) = 0)
      \<and> (\<forall>cid. Releasing cid \<in> set (sy_pcs s) \<longrightarrow> cn_io_deadline_ms (conn_at p cid) = 0))"

definition inv_wake :: "'c sys \<Rightarrow> bool" where
  "inv_wake s \<longleftrightarrow>
     (let p = sy_pool s in
      length (pl_idle p) \<le> pl_sem p + wsum looking (sy_pcs s)
      \<and> (Waiting \<in> set (sy_pcs s) \<longrightarrow> length (pl_idle p) + free_slots p \<le> pl_sem p + wsum stirring (sy_pcs s)))"

definition pool_inv :: "'c sys \<Rightarrow> bool" where
  "pool_inv s \<longleftrightarrow> inv_count s \<and> inv_own s \<and> inv_conn s \<and> inv_wake s"

lemma subtracting_le:
  "inv_count s \<Longrightarrow> i < length (sy_pcs s) \<Longrightarrow> subtracting (sy_pcs s ! i) \<le> unat (pl_live_count (sy_pool s))"
  using wsum_ge [of i "sy_pcs s" subtracting] by (simp add: inv_count_def Let_def)

text \<open>In an exclusive state two tasks own different connections, and none that is queued.\<close>

lemma own_unique:
  assumes "inv_own s" "i < length (sy_pcs s)" "owner_of (sy_pcs s ! i) = Some cid"
  shows "cid < length (pl_conns (sy_pool s))" "cid \<notin> set (pl_idle (sy_pool s))"
    and "j < length (sy_pcs s) \<Longrightarrow> owner_of (sy_pcs s ! j) = Some cid \<Longrightarrow> j = i"
proof -
  show r: "cid < length (pl_conns (sy_pool s))" using assms by (auto simp: inv_own_def Let_def)
  with assms(1) have le: "count_list (pl_idle (sy_pool s)) cid + wsum (owns cid) (sy_pcs s) \<le> 1"
    by (simp add: inv_own_def Let_def)
  have "1 \<le> wsum (owns cid) (sy_pcs s)" using wsum_ge [OF assms(2), of "owns cid"] assms(3) by (simp add: owns_def)
  with le have "count_list (pl_idle (sy_pool s)) cid = 0" by simp
  then show "cid \<notin> set (pl_idle (sy_pool s))" by (simp add: count_list_0_iff)
  show "j = i" if "j < length (sy_pcs s)" "owner_of (sy_pcs s ! j) = Some cid"
  proof (rule ccontr)
    assume "j \<noteq> i"
    with wsum_two [OF that(1) assms(2), of "owns cid"] that assms(3) le show False by (simp add: owns_def)
  qed
qed


lemma inv_count_task:
  assumes "inv_count s" "inv_own s" "i < length (sy_pcs s)" "task_step L cf (sy_pool s) (sy_pcs s ! i) p' pc'"
  shows "inv_count \<lparr>sy_pool = p', sy_pcs = (sy_pcs s)[i := pc']\<rparr>"
proof -
  let ?p = "sy_pool s" and ?pc = "sy_pcs s ! i"
  have ok: "pc_ok (pl_max_pool ?p) ?pc" and le: "pl_live_count ?p \<le> pl_max_pool ?p"
    and cnt: "unat (pl_live_count ?p) = wsum alive (pl_conns ?p) + wsum subtracting (sy_pcs s)"
    using assms(1,3) by (auto simp: inv_count_def Let_def)
  have own: "owner_of ?pc = Some cid \<Longrightarrow> cid < length (pl_conns ?p)" for cid
    using own_unique(1) [OF assms(2,3)] .
  note sub = subtracting_le [OF assms(1,3)]
  have "unat (pl_live_count p') = wsum alive (pl_conns p') + wsum subtracting ((sy_pcs s)[i := pc'])"
    using step_count [OF assms(4) own sub ok] wsum_update [OF assms(3), of subtracting pc'] cnt
      wsum_ge [OF assms(3), of subtracting] by linarith
  moreover have "pl_live_count p' \<le> pl_max_pool p'" by (rule step_bound [OF assms(4) le ok sub])
  moreover have "pc \<in> set ((sy_pcs s)[i := pc']) \<Longrightarrow> pc_ok (pl_max_pool p') pc" for pc
    using step_pc_ok [OF assms(4)] assms(1) set_update_subset_insert [of "sy_pcs s" i pc']
    by (auto simp: step_max [OF assms(4)] inv_count_def Let_def)
  ultimately show ?thesis by (simp add: inv_count_def Let_def)
qed

lemma inv_own_task:
  assumes "inv_count s" "inv_own s" "i < length (sy_pcs s)" "task_step L cf (sy_pool s) (sy_pcs s ! i) p' pc'"
  shows "inv_own \<lparr>sy_pool = p', sy_pcs = (sy_pcs s)[i := pc']\<rparr>"
proof -
  let ?p = "sy_pool s" and ?pc = "sy_pcs s ! i" and ?pcs = "(sy_pcs s)[i := pc']"
  have ok: "pc_ok (pl_max_pool ?p) ?pc" using assms(1,3) by (auto simp: inv_count_def Let_def)
  have rng: "cid \<in> set (pl_idle ?p) \<or> owner_of ?pc = Some cid \<Longrightarrow> cid < length (pl_conns ?p)" for cid
    using assms(2) own_unique(1) [OF assms(2,3)] by (auto simp: inv_own_def Let_def)
  note rng' = step_range [OF assms(4) ok rng]
  have len: "length (pl_conns ?p) \<le> length (pl_conns p')" by (rule step_length [OF assms(4)])
  have r2: "cid < length (pl_conns p')" if "pc \<in> set ?pcs" "owner_of pc = Some cid" for pc cid
  proof (cases "pc = pc'")
    case True
    with that rng' [of cid] show ?thesis by simp
  next
    case False
    with that(1) set_update_subset_insert [of "sy_pcs s" i pc'] have "pc \<in> set (sy_pcs s)" by auto
    with that(2) assms(2) len show ?thesis by (fastforce simp: inv_own_def Let_def)
  qed
  have one: "count_list (pl_idle p') cid + wsum (owns cid) ?pcs \<le> 1" if "cid < length (pl_conns p')" for cid
  proof (cases "cid < length (pl_conns ?p)")
    case True
    have "count_list (pl_idle ?p) cid + wsum (owns cid) (sy_pcs s) \<le> 1"
      using assms(2) True by (simp add: inv_own_def Let_def)
    with step_owner [OF assms(4) ok True] wsum_update [OF assms(3), of "owns cid" pc'] show ?thesis by linarith
  next
    case False
    then have "wsum (owns cid) (sy_pcs s) = 0"
      using assms(2) by (auto simp: wsum_zero owns_def inv_own_def Let_def)
    moreover have "cid \<notin> set (pl_idle p')"
      using step_enqueued [OF assms(4), of cid] rng [of cid] False by auto
    moreover have "owns cid pc' \<le> 1" by (simp add: owns_def)
    ultimately show ?thesis using wsum_update [OF assms(3), of "owns cid" pc'] by (simp add: count_list_0_iff)
  qed
  show ?thesis using rng' r2 one by (simp add: inv_own_def Let_def)
qed

lemma in_set_update:
  assumes "pc \<in> set (xs[i := x])"
  shows "pc = x \<or> (\<exists>j. j < length xs \<and> j \<noteq> i \<and> pc = xs ! j \<and> pc \<in> set xs)"
proof -
  from assms obtain j where "j < length xs" "pc = xs[i := x] ! j" by (auto simp: in_set_conv_nth)
  then show ?thesis by (cases "j = i") auto
qed

lemma owner_live_owner: "owner_live pc = Some cid \<Longrightarrow> owner_of pc = Some cid"
  by (cases pc) auto

text \<open>The step of one task leaves the connections of the queue and of the other tasks alone.\<close>

lemma step_conn_elsewhere:
  assumes "inv_own s" "i < length (sy_pcs s)" "task_step L cf (sy_pool s) (sy_pcs s ! i) p' pc'"
    and "cid < length (pl_conns (sy_pool s))"
    and "cid \<in> set (pl_idle (sy_pool s)) \<or> (\<exists>j < length (sy_pcs s). j \<noteq> i \<and> owner_of (sy_pcs s ! j) = Some cid)"
  shows "conn_at p' cid = conn_at (sy_pool s) cid"
proof -
  have "owner_of (sy_pcs s ! i) \<noteq> Some cid"
    using assms(5) own_unique(2,3) [OF assms(1,2)] by blast
  then show ?thesis using step_conn_other [OF assms(3) _ assms(4)] by blast
qed

definition buried :: "'c pool \<Rightarrow> pc list \<Rightarrow> cid \<Rightarrow> bool" where
  "buried p pcs cid \<longleftrightarrow> cn_pq (conn_at p cid) = None \<and> cid \<notin> set (pl_idle p) \<and> (\<forall>pc \<in> set pcs. owner_live pc \<noteq> Some cid)"

lemma inv_conn_buried:
  "inv_conn s \<longleftrightarrow>
     (\<forall>cid < length (pl_conns (sy_pool s)). cn_dead_accounted (conn_at (sy_pool s) cid) \<longrightarrow> buried (sy_pool s) (sy_pcs s) cid)
     \<and> (\<forall>cid. cid \<in> set (pl_idle (sy_pool s)) \<or> Releasing cid \<in> set (sy_pcs s) \<longrightarrow> cn_io_deadline_ms (conn_at (sy_pool s) cid) = 0)"
  by (auto simp: inv_conn_def buried_def Let_def)

lemma step_buried_own:
  assumes own: "inv_own s" and i: "i < length (sy_pcs s)" and st: "task_step L cf (sy_pool s) (sy_pcs s ! i) p' pc'"
    and old: "cn_dead_accounted (conn_at (sy_pool s) cid) \<Longrightarrow> buried (sy_pool s) (sy_pcs s) cid"
    and len: "cid < length (pl_conns (sy_pool s))" and d: "cn_dead_accounted (conn_at p' cid)"
    and o: "owner_of (sy_pcs s ! i) = Some cid"
  shows "buried p' ((sy_pcs s)[i := pc']) cid"
proof -
  let ?p = "sy_pool s" and ?pc = "sy_pcs s ! i" and ?pcs = "(sy_pcs s)[i := pc']"
  note uniq = own_unique [OF own i]
  have lv: "owner_live ?pc = Some cid \<longrightarrow> \<not> cn_dead_accounted (conn_at ?p cid)"
    using old i by (force simp: buried_def)
  note sd = step_dead [OF st o len _ lv d]
  have "cid \<notin> set (pl_idle p')"
  proof
    assume "cid \<in> set (pl_idle p')"
    with step_enqueued [OF st] uniq(2) [OF o] have "?pc = Releasing cid" "conn_at p' = conn_at ?p" by auto
    with lv d show False by simp
  qed
  moreover have "owner_live pc \<noteq> Some cid" if "pc \<in> set ?pcs" for pc
  proof
    assume ol: "owner_live pc = Some cid"
    from in_set_update [OF that] sd ol old obtain j where "j < length (sy_pcs s)" "j \<noteq> i" "pc = sy_pcs s ! j"
      by (auto simp: buried_def)
    with uniq(3) [OF o, of j] owner_live_owner [OF ol] show False by auto
  qed
  ultimately show ?thesis using sd old by (auto simp: buried_def)
qed

lemma step_buried_other:
  assumes st: "task_step L cf (sy_pool s) (sy_pcs s ! i) p' pc'"
    and old: "cn_dead_accounted (conn_at (sy_pool s) cid) \<Longrightarrow> buried (sy_pool s) (sy_pcs s) cid"
    and len: "cid < length (pl_conns (sy_pool s))" and d: "cn_dead_accounted (conn_at p' cid)"
    and o: "owner_of (sy_pcs s ! i) \<noteq> Some cid"
  shows "buried p' ((sy_pcs s)[i := pc']) cid"
proof -
  have same: "conn_at p' cid = conn_at (sy_pool s) cid"
    by (rule step_conn_other [OF st o len])
  with d old have b: "buried (sy_pool s) (sy_pcs s) cid" by simp
  then have "cid \<notin> set (pl_idle p')"
    using step_enqueued [OF st, of cid] o by (auto simp: buried_def)
  moreover have "owner_live pc' \<noteq> Some cid"
  proof
    assume "owner_live pc' = Some cid"
    with st o len b show False by (cases rule: task_step.cases) (auto simp: buried_def split: if_splits)
  qed
  then have "owner_live pc \<noteq> Some cid" if "pc \<in> set ((sy_pcs s)[i := pc'])" for pc
    using in_set_update [OF that] b by (auto simp: buried_def)
  ultimately show ?thesis using same b by (auto simp: buried_def)
qed

lemma step_deadline_clear:
  assumes own: "inv_own s" and i: "i < length (sy_pcs s)" and st: "task_step L cf (sy_pool s) (sy_pcs s ! i) p' pc'"
    and dl: "\<And>cid. cid \<in> set (pl_idle (sy_pool s)) \<or> Releasing cid \<in> set (sy_pcs s) \<Longrightarrow> cn_io_deadline_ms (conn_at (sy_pool s) cid) = 0"
    and new: "cid \<in> set (pl_idle p') \<or> Releasing cid \<in> set ((sy_pcs s)[i := pc'])"
  shows "cn_io_deadline_ms (conn_at p' cid) = 0"
proof -
  let ?p = "sy_pool s" and ?pc = "sy_pcs s ! i"
  note same = step_conn_elsewhere [OF own i st]
  have i': "?pc \<in> set (sy_pcs s)" using i by simp
  from new consider "cid \<in> set (pl_idle ?p)" | "?pc = Releasing cid" "conn_at p' = conn_at ?p" | "pc' = Releasing cid"
    | j where "j < length (sy_pcs s)" "j \<noteq> i" "Releasing cid = sy_pcs s ! j"
    using step_enqueued [OF st, of cid] in_set_update [of "Releasing cid" "sy_pcs s" i pc'] by blast
  then show ?thesis
  proof cases
    case 1
    then have "cid < length (pl_conns ?p)" using own by (simp add: inv_own_def Let_def)
    with same [of cid] dl [of cid] 1 show ?thesis by auto
  next
    case 2
    with dl [of cid] i' show ?thesis by auto
  next
    case 3
    with st own_unique(1) [OF own i] step_deadline_releasing show ?thesis by metis
  next
    case 4
    then have "owner_of (sy_pcs s ! j) = Some cid" "Releasing cid \<in> set (sy_pcs s)" by (metis owner_of.simps(4), auto)
    moreover from this have "conn_at p' cid = conn_at ?p cid"
      using 4 own_unique(1) [OF own 4(1), of cid] by (intro same) blast+
    ultimately show ?thesis using dl [of cid] by auto
  qed
qed

lemma inv_conn_task:
  assumes "inv_own s" "inv_conn s"
    and i: "i < length (sy_pcs s)" and st: "task_step L cf (sy_pool s) (sy_pcs s ! i) p' pc'"
  shows "inv_conn \<lparr>sy_pool = p', sy_pcs = (sy_pcs s)[i := pc']\<rparr>"
proof -
  have "buried p' ((sy_pcs s)[i := pc']) cid" if d: "cn_dead_accounted (conn_at p' cid)" "cid < length (pl_conns p')" for cid
  proof -
    have len: "cid < length (pl_conns (sy_pool s))"
    proof (rule ccontr)
      assume "\<not> ?thesis"
      with st d show False by (cases rule: task_step.cases) (auto simp: conn_at_def nth_append new_conn_def)
    qed
    have old: "cn_dead_accounted (conn_at (sy_pool s) cid) \<Longrightarrow> buried (sy_pool s) (sy_pcs s) cid"
      using assms(2) len by (simp add: inv_conn_buried)
    show ?thesis
      using step_buried_own [OF assms(1) i st old len d(1)] step_buried_other [OF st old len d(1)] by blast
  qed
  moreover have "cn_io_deadline_ms (conn_at p' cid) = 0"
    if "cid \<in> set (pl_idle p') \<or> Releasing cid \<in> set ((sy_pcs s)[i := pc'])" for cid
    by (rule step_deadline_clear [OF assms(1) i st _ that]) (use assms(2) in \<open>auto simp: inv_conn_buried\<close>)
  ultimately show ?thesis by (simp add: inv_conn_buried)
qed

lemma inv_wake_task:
  assumes "inv_count s" "inv_wake s" "i < length (sy_pcs s)" "task_step L cf (sy_pool s) (sy_pcs s ! i) p' pc'"
  shows "inv_wake \<lparr>sy_pool = p', sy_pcs = (sy_pcs s)[i := pc']\<rparr>"
proof -
  let ?p = "sy_pool s" and ?pc = "sy_pcs s ! i" and ?pcs = "(sy_pcs s)[i := pc']"
  have ok: "pc_ok (pl_max_pool ?p) ?pc" and le: "pl_live_count ?p \<le> pl_max_pool ?p"
    using assms(1,3) by (auto simp: inv_count_def Let_def)
  note sub = subtracting_le [OF assms(1,3)]
  have l: "length (pl_idle ?p) \<le> pl_sem ?p + wsum looking (sy_pcs s)"
    and w: "Waiting \<in> set (sy_pcs s) \<Longrightarrow> length (pl_idle ?p) + free_slots ?p \<le> pl_sem ?p + wsum stirring (sy_pcs s)"
    using assms(2) by (simp_all add: inv_wake_def Let_def)
  note ul = wsum_update [OF assms(3), of looking pc'] and us = wsum_update [OF assms(3), of stirring pc']
  have l': "length (pl_idle p') \<le> pl_sem p' + wsum looking ?pcs"
    using step_look [OF assms(4)] l ul by auto
  have ms: "looking pc \<le> stirring pc" for pc by (cases pc) auto
  have "length (pl_idle p') + free_slots p' \<le> pl_sem p' + wsum stirring ?pcs" if "Waiting \<in> set ?pcs"
    using step_stir [OF assms(4) ok sub le]
  proof
    assume "?pc = Loading \<and> pc' = Waiting \<and> p' = ?p \<and> pl_max_pool ?p \<le> pl_live_count ?p"
    moreover have "wsum looking ?pcs \<le> wsum stirring ?pcs" by (rule wsum_mono [OF ms])
    ultimately show ?thesis using l' by (simp add: free_slots_def word_le_nat_alt)
  next
    assume a: "pc' \<noteq> Waiting \<and> length (pl_idle p') + free_slots p' + pl_sem ?p + stirring ?pc
       \<le> length (pl_idle ?p) + free_slots ?p + pl_sem p' + stirring pc'"
    with in_set_update [OF that] have "Waiting \<in> set (sy_pcs s)" by auto
    with w a us show ?thesis by linarith
  qed
  with l' show ?thesis by (simp add: inv_wake_def Let_def)
qed


text \<open>Changes that leave accounting, ownership and deadlines of a connection alone keep the invariant.\<close>

lemma inv_refresh:
  assumes "pool_inv s" "cid < length (pl_conns (sy_pool s))"
    and "pl_conns p' = (pl_conns (sy_pool s))[cid := c']"
    and "pl_idle p' = pl_idle (sy_pool s)" "pl_live_count p' = pl_live_count (sy_pool s)"
    and "pl_max_pool p' = pl_max_pool (sy_pool s)" "pl_sem p' = pl_sem (sy_pool s)"
    and "cn_dead_accounted c' = cn_dead_accounted (conn_at (sy_pool s) cid)"
    and "cn_pq c' = cn_pq (conn_at (sy_pool s) cid)"
    and "cn_io_deadline_ms c' = cn_io_deadline_ms (conn_at (sy_pool s) cid)"
  shows "pool_inv (s\<lparr>sy_pool := p'\<rparr>)"
proof -
  have c: "conn_at p' d = (if d = cid then c' else conn_at (sy_pool s) d)" for d
    using assms(2,3) by (auto simp: conn_at_def nth_list_update)
  have "wsum alive (pl_conns p') = wsum alive (pl_conns (sy_pool s))"
    using wsum_update [OF assms(2), of alive c'] assms(3,8) by (simp add: alive_def conn_at_def)
  with assms(1,3-7) have "inv_count (s\<lparr>sy_pool := p'\<rparr>)" by (simp add: pool_inv_def inv_count_def Let_def)
  moreover have "inv_own (s\<lparr>sy_pool := p'\<rparr>)" using assms(1,3-7) by (simp add: pool_inv_def inv_own_def Let_def)
  moreover have "inv_conn (s\<lparr>sy_pool := p'\<rparr>)"
    using assms by (simp add: pool_inv_def inv_conn_def c Let_def)
  moreover have "inv_wake (s\<lparr>sy_pool := p'\<rparr>)"
    using assms(1,3-7) by (simp add: pool_inv_def inv_wake_def free_slots_def Let_def)
  ultimately show ?thesis by (simp add: pool_inv_def)
qed

lemma inv_watchdog:
  assumes "pool_inv s" "cid < length (pl_conns (sy_pool s))"
  shows "pool_inv (s\<lparr>sy_pool := watchdog_visit L now pending cid (sy_pool s)\<rparr>)"
proof (cases "await_overdue now (conn_at (sy_pool s) cid)")
  case False
  with assms(1) show ?thesis by (simp add: watchdog_visit_def)
next
  case True
  let ?c = "snd (abort_io_from_watchdog L now (pending cid) (conn_at (sy_pool s) cid))"
  have "pl_conns (watchdog_visit L now pending cid (sy_pool s)) = (pl_conns (sy_pool s))[cid := ?c]"
    using True by (auto simp: watchdog_visit_def Let_def split: prod.split)
  from inv_refresh [OF assms this] show ?thesis
    using True by (simp add: abort_io_frame watchdog_visit_def Let_def split: prod.split)
qed

lemma inv_spawn: "pool_inv s \<Longrightarrow> pool_inv (s\<lparr>sy_pcs := sy_pcs s @ [Resting]\<rparr>)"
  by (auto simp: pool_inv_def inv_count_def inv_own_def inv_conn_def inv_wake_def owns_def Let_def)

lemma inv_pool_step: "pool_step L cf s t \<Longrightarrow> pool_inv s \<Longrightarrow> pool_inv t"
proof (induction rule: pool_step.induct)
  case (task i s p' pc')
  then have "inv_count s" "inv_own s" "inv_conn s" "inv_wake s" by (simp_all add: pool_inv_def)
  with task(1,2) show ?case
    unfolding pool_inv_def by (intro conjI inv_count_task inv_own_task inv_conn_task inv_wake_task)
next
  case (spawn s)
  then show ?case by (rule inv_spawn)
next
  case (watchdog cid s now pending)
  then show ?case by (intro inv_watchdog)
qed

lemma inv_close_step: "close_step s t \<Longrightarrow> pool_inv s \<Longrightarrow> pool_inv t"
proof (induction rule: close_step.induct)
  case (close_one s cid rest)
  let ?p = "sy_pool s" and ?c = "conn_close (conn_at (sy_pool s) cid)"
  have len: "cid < length (pl_conns ?p)" and nin: "cid \<notin> set rest"
    using close_one by (auto simp: pool_inv_def inv_own_def Let_def count_list_0_iff)
  have alv: "wsum alive ((pl_conns ?p)[cid := ?c]) = wsum alive (pl_conns ?p)"
    using wsum_update [OF len, of alive ?c] by (simp add: alive_def conn_at_def)
  have c: "conn_at (set_conn cid ?c ?p) d = (if d = cid then ?c else conn_at ?p d)" for d
    using len by simp
  have "inv_count (s\<lparr>sy_pool := (set_conn cid ?c ?p)\<lparr>pl_idle := rest\<rparr>\<rparr>)"
    using close_one(2) alv by (simp add: pool_inv_def inv_count_def Let_def)
  moreover have "inv_own (s\<lparr>sy_pool := (set_conn cid ?c ?p)\<lparr>pl_idle := rest\<rparr>\<rparr>)"
    using close_one by (fastforce simp: pool_inv_def inv_own_def Let_def split: if_splits)
  moreover have "inv_conn (s\<lparr>sy_pool := (set_conn cid ?c ?p)\<lparr>pl_idle := rest\<rparr>\<rparr>)"
    using close_one by (auto simp: pool_inv_def inv_conn_def Let_def c)
  moreover have "inv_wake (s\<lparr>sy_pool := (set_conn cid ?c ?p)\<lparr>pl_idle := rest\<rparr>\<rparr>)"
    using close_one by (auto simp: pool_inv_def inv_wake_def free_slots_def Let_def)
  ultimately show ?case by (simp add: pool_inv_def)
qed

lemma inv_init: "init_sys s \<Longrightarrow> pool_inv s"
  by (auto simp: init_sys_def new_pool_def pool_inv_def inv_count_def inv_own_def inv_conn_def inv_wake_def Let_def)

interpretation pool_sys: inv_system init_sys "any_step L cf" pool_inv for L cf
  by unfold_locales (auto simp: any_step_def intro: inv_init inv_pool_step inv_close_step)

section \<open>Connections without \<open>close_all\<close>\<close>

text \<open>As long as \<^verbatim>\<open>close_all\<close> is not called, every connection that counts is queued or owned by a task.\<close>

definition no_leak :: "'c sys \<Rightarrow> bool" where
  "no_leak s \<longleftrightarrow> (\<forall>cid < length (pl_conns (sy_pool s)). \<not> cn_dead_accounted (conn_at (sy_pool s) cid) \<longrightarrow>
     cid \<in> set (pl_idle (sy_pool s)) \<or> (\<exists>pc \<in> set (sy_pcs s). owner_of pc = Some cid))"

lemma step_keeps_owner:
  assumes "task_step L cf p pc p' pc'" "cid \<in> set (pl_idle p) \<or> owner_of pc = Some cid"
    and "\<not> cn_dead_accounted (conn_at p' cid)" "cid < length (pl_conns p)"
  shows "cid \<in> set (pl_idle p') \<or> owner_of pc' = Some cid"
  using assms by (cases rule: task_step.cases) auto

lemma step_dead_mono:
  assumes "task_step L cf p pc p' pc'" "cid < length (pl_conns p)" "cn_dead_accounted (conn_at p cid)"
  shows "cn_dead_accounted (conn_at p' cid)"
proof (cases "owner_of pc = Some cid")
  case False
  with step_conn_other [OF assms(1) _ assms(2)] assms(3) show ?thesis by simp
next
  case True
  from assms(1) show ?thesis
  proof cases
    case (check_stale d c' b)
    with True assms(2,3) idle_socket_alive_frame [OF check_stale(6)] show ?thesis by simp
  next
    case (check_ok d c' b)
    with True assms(2,3) idle_socket_alive_frame [OF check_ok(6)] show ?thesis by simp
  next
    case (connect_ok ci ats d u c' ats')
    with True assms(2,3) connect_loop_frame [OF connect_ok(5)] show ?thesis by simp
  next
    case (connect_fails ci ats d e c' ats')
    with True assms(2,3) connect_loop_frame [OF connect_fails(5)] show ?thesis by simp
  next
    case (use d c')
    with True assms(2,3) show ?thesis by (simp add: conn_use_def)
  qed (use True assms(2,3) in auto)
qed

lemma no_leak_task:
  assumes i: "i < length (sy_pcs s)" and st: "task_step L cf (sy_pool s) (sy_pcs s ! i) p' pc'" and nl: "no_leak s"
    and cid: "cid < length (pl_conns p')" and nd: "\<not> cn_dead_accounted (conn_at p' cid)"
  shows "cid \<in> set (pl_idle p') \<or> (\<exists>pc \<in> set ((sy_pcs s)[i := pc']). owner_of pc = Some cid)"
proof (cases "cid < length (pl_conns (sy_pool s))")
  case False
  from st cid False have "owner_of pc' = Some cid"
    by (cases rule: task_step.cases) (auto simp: less_Suc_eq)
  with i show ?thesis by (auto intro!: bexI [of _ pc'] set_update_memI)
next
  case True
  let ?o = "\<lambda>pc. owner_of pc = Some cid"
  have "\<not> cn_dead_accounted (conn_at (sy_pool s) cid)"
    using step_dead_mono [OF st True] nd by auto
  with nl True consider "cid \<in> set (pl_idle (sy_pool s)) \<or> ?o (sy_pcs s ! i)"
    | j where "j < length (sy_pcs s)" "j \<noteq> i" "?o (sy_pcs s ! j)"
    unfolding no_leak_def by (metis in_set_conv_nth)
  then show ?thesis
  proof cases
    case 1
    with step_keeps_owner [OF st, of cid] nd True i show ?thesis
      by (auto intro!: bexI [of _ pc'] set_update_memI)
  next
    case 2
    then have "(sy_pcs s)[i := pc'] ! j = sy_pcs s ! j" "j < length ((sy_pcs s)[i := pc'])" by simp_all
    with 2(3) show ?thesis by (metis nth_mem)
  qed
qed

lemma no_leak_step:
  assumes "pool_step L cf s t" "pool_inv s" "no_leak s"
  shows "no_leak t"
  using assms(1)
proof cases
  case (task i p' pc')
  with no_leak_task [OF task(2,3) assms(3)] show ?thesis by (simp add: no_leak_def)
next
  case spawn
  with assms(3) show ?thesis by (auto simp: no_leak_def)
next
  case (watchdog cid now pending)
  have "cn_dead_accounted (conn_at (watchdog_visit L now pending cid (sy_pool s)) d) = cn_dead_accounted (conn_at (sy_pool s) d)" for d
    using watchdog_visit_conns(2) [OF watchdog(2), of L now pending d] by (simp add: abort_io_frame)
  moreover have "pl_idle (watchdog_visit L now pending cid (sy_pool s)) = pl_idle (sy_pool s)"
    by (simp add: watchdog_visit_def Let_def split: prod.split)
  ultimately show ?thesis
    using assms(3) watchdog watchdog_visit_conns(1) [OF watchdog(2), of L now pending] by (simp add: no_leak_def)
qed

lemma no_leak_init: "init_sys s \<Longrightarrow> no_leak s"
  by (auto simp: no_leak_def init_sys_def new_pool_def)

interpretation pool_open: inv_system init_sys "pool_step L cf" "\<lambda>s. pool_inv s \<and> no_leak s" for L cf
  by unfold_locales
     (auto intro: no_leak_init inv_init inv_pool_step no_leak_step)


section \<open>Abstract specification\<close>

text \<open>
  What the pool promises: a set of leased connections, of at most \<open>m\<close> elements; a lease is granted for a
  connection that is not leased, and ends.
\<close>

inductive lease_step :: "nat \<Rightarrow> cid set \<Rightarrow> cid set \<Rightarrow> bool" for m where
  grant: "cid \<notin> H \<Longrightarrow> card H < m \<Longrightarrow> lease_step m H (insert cid H)"
| give: "cid \<in> H \<Longrightarrow> lease_step m H (H - {cid})"
| stutter: "lease_step m H H"

definition held_by :: "'c pool \<Rightarrow> pc \<Rightarrow> cid set" where
  "held_by p pc = (case pc of Holding cid \<Rightarrow> if cn_dead_accounted (conn_at p cid) then {} else {cid} | _ \<Rightarrow> {})"

definition held :: "'c sys \<Rightarrow> cid set" where
  "held s = (\<Union>pc \<in> set (sy_pcs s). held_by (sy_pool s) pc)"

lemma wsum_alive: "wsum alive cs = card {i. i < length cs \<and> \<not> cn_dead_accounted (cs ! i)}"
proof -
  have "wsum alive cs = length (filter (\<lambda>c. \<not> cn_dead_accounted c) cs)"
    by (induction cs) (auto simp: alive_def)
  then show ?thesis by (simp add: length_filter_conv_card)
qed

lemma held_by_owner: "cid \<in> held_by p pc \<Longrightarrow> owner_of pc = Some cid"
  by (auto simp: held_by_def split: pc.splits if_splits)

lemma held_alive:
  assumes "pool_inv s"
  shows "held s \<subseteq> {i. i < length (pl_conns (sy_pool s)) \<and> \<not> cn_dead_accounted (pl_conns (sy_pool s) ! i)}"
proof
  fix cid assume "cid \<in> held s"
  then obtain pc where pc: "pc \<in> set (sy_pcs s)" "cid \<in> held_by (sy_pool s) pc" by (auto simp: held_def)
  then have "cid < length (pl_conns (sy_pool s))"
    using assms held_by_owner [OF pc(2)] by (auto simp: pool_inv_def inv_own_def Let_def)
  moreover have "\<not> cn_dead_accounted (pl_conns (sy_pool s) ! cid)"
    using pc(2) by (auto simp: held_by_def conn_at_def split: pc.splits if_splits)
  ultimately show "cid \<in> {i. i < length (pl_conns (sy_pool s)) \<and> \<not> cn_dead_accounted (pl_conns (sy_pool s) ! i)}"
    by simp
qed

lemma held_card: "pool_inv s \<Longrightarrow> finite (held s) \<and> card (held s) \<le> unat (pl_max_pool (sy_pool s))"
proof
  assume inv: "pool_inv s"
  let ?A = "{i. i < length (pl_conns (sy_pool s)) \<and> \<not> cn_dead_accounted (pl_conns (sy_pool s) ! i)}"
  have fin: "finite ?A" by simp
  then show "finite (held s)" using held_alive [OF inv] finite_subset by blast
  have "card (held s) \<le> card ?A" using held_alive [OF inv] fin card_mono by blast
  also have "\<dots> \<le> unat (pl_live_count (sy_pool s))"
    using inv by (simp add: pool_inv_def inv_count_def Let_def wsum_alive)
  also have "\<dots> \<le> unat (pl_max_pool (sy_pool s))"
    using inv by (simp add: pool_inv_def inv_count_def Let_def word_le_nat_alt)
  finally show "card (held s) \<le> unat (pl_max_pool (sy_pool s))" .
qed

lemma step_held_by:
  assumes "task_step L cf p pc p' pc'" "\<And>cid. owner_of pc = Some cid \<Longrightarrow> cid < length (pl_conns p)"
  shows "held_by p pc = {} \<or> held_by p' pc' = {} \<or> held_by p' pc' = held_by p pc"
  using assms by (cases rule: task_step.cases) (auto simp: held_by_def conn_use_def)

text \<open>What the other tasks hold does not change.\<close>

definition held_others :: "'c pool \<Rightarrow> pc list \<Rightarrow> nat \<Rightarrow> cid set" where
  "held_others p pcs i = (\<Union>j \<in> {j. j < length pcs \<and> j \<noteq> i}. held_by p (pcs ! j))"

lemma held_split: "i < length (sy_pcs s) \<Longrightarrow> held s = held_others (sy_pool s) (sy_pcs s) i \<union> held_by (sy_pool s) (sy_pcs s ! i)"
  by (fastforce simp: held_def held_others_def in_set_conv_nth)

lemma held_others_step:
  assumes "pool_inv s" "i < length (sy_pcs s)" "task_step L cf (sy_pool s) (sy_pcs s ! i) p' pc'"
  shows "held_others p' ((sy_pcs s)[i := pc']) i = held_others (sy_pool s) (sy_pcs s) i"
proof -
  have own: "inv_own s" using assms(1) by (simp add: pool_inv_def)
  have "held_by p' (sy_pcs s ! j) = held_by (sy_pool s) (sy_pcs s ! j)" if "j < length (sy_pcs s)" "j \<noteq> i" for j
  proof (cases "sy_pcs s ! j")
    case (Holding cid)
    then have o: "owner_of (sy_pcs s ! j) = Some cid" by simp
    then have "owner_of (sy_pcs s ! i) \<noteq> Some cid" using own_unique(3) [OF own that(1) o assms(2)] that(2) by auto
    from step_conn_other [OF assms(3) this own_unique(1) [OF own that(1) o]] Holding show ?thesis
      by (simp add: held_by_def)
  qed (simp_all add: held_by_def)
  then show ?thesis by (auto simp: held_others_def)
qed

lemma held_others_disjoint:
  assumes "pool_inv s" "i < length (sy_pcs s)"
  shows "held_others (sy_pool s) (sy_pcs s) i \<inter> held_by (sy_pool s) (sy_pcs s ! i) = {}"
proof -
  have "inv_own s" using assms(1) by (simp add: pool_inv_def)
  from own_unique(3) [OF this assms(2)] show ?thesis by (auto simp: held_others_def dest!: held_by_owner)
qed

lemma lease_replace:
  assumes "B = {} \<or> B' = {} \<or> B' = B" "R \<inter> B = {}" "R \<inter> B' = {}" "B \<subseteq> {x}" "B' \<subseteq> {y}"
    and "finite (R \<union> B')" "card (R \<union> B') \<le> m"
  shows "lease_step m (R \<union> B) (R \<union> B')"
proof -
  consider "B = B'" | "B = {}" "B' = {y}" | "B = {x}" "B' = {}" using assms(1,4,5) by blast
  then show ?thesis
  proof cases
    case 1
    then show ?thesis by (simp add: stutter)
  next
    case 2
    with assms(3,6,7) have "lease_step m R (insert y R)" by (intro grant) auto
    with 2 show ?thesis by simp
  next
    case 3
    with assms(2) give [of x "insert x R" m] show ?thesis by simp
  qed
qed

lemma held_by_single: "\<exists>x. held_by p pc \<subseteq> {x}"
  by (cases pc) (auto simp: held_by_def)

lemma task_lease:
  assumes "pool_inv s" and i: "i < length (sy_pcs s)" and st: "task_step L cf (sy_pool s) (sy_pcs s ! i) p' pc'"
    and t: "t = \<lparr>sy_pool = p', sy_pcs = (sy_pcs s)[i := pc']\<rparr>" and inv: "pool_inv t"
  shows "lease_step (unat (pl_max_pool (sy_pool s))) (held s) (held t)"
proof -
  have own: "\<And>cid. owner_of (sy_pcs s ! i) = Some cid \<Longrightarrow> cid < length (pl_conns (sy_pool s))"
    using own_unique(1) [OF _ i] assms(1) by (auto simp: pool_inv_def)
  have i': "i < length (sy_pcs t)" and pt: "sy_pool t = p'" "sy_pcs t ! i = pc'" using i t by simp_all
  let ?R = "held_others (sy_pool s) (sy_pcs s) i"
  have oth: "held_others (sy_pool t) (sy_pcs t) i = ?R" using held_others_step [OF assms(1) i st] t by simp
  have ht: "held t = ?R \<union> held_by p' pc'" using held_split [OF i'] oth pt by simp
  obtain x y where xy: "held_by (sy_pool s) (sy_pcs s ! i) \<subseteq> {x}" "held_by p' pc' \<subseteq> {y}"
    using held_by_single by metis
  have "lease_step (unat (pl_max_pool (sy_pool s))) (?R \<union> held_by (sy_pool s) (sy_pcs s ! i)) (?R \<union> held_by p' pc')"
    using step_held_by [OF st own] held_others_disjoint [OF assms(1) i]
      held_others_disjoint [OF inv i'] oth pt xy held_card [OF inv] ht step_max [OF st]
    by (intro lease_replace) auto
  then show ?thesis using ht held_split [OF i] by simp
qed

lemma close_step_held:
  assumes "close_step s t" "pool_inv s"
  shows "held t = held s"
  using assms(1)
proof cases
  case (close_one cid rest)
  have "cid < length (pl_conns (sy_pool s))"
    using close_one assms(2) by (auto simp: pool_inv_def inv_own_def Let_def)
  then have "cn_dead_accounted (conn_at (sy_pool t) d) = cn_dead_accounted (conn_at (sy_pool s) d)" for d
    using close_one(1) by (cases "d = cid") simp_all
  then have "held_by (sy_pool t) pc = held_by (sy_pool s) pc" for pc by (cases pc) (simp_all add: held_by_def)
  then show ?thesis using close_one(1) by (simp add: held_def)
qed

lemma any_step_lease:
  assumes "any_step L cf s t" "pool_inv s"
  shows "lease_step (unat (pl_max_pool (sy_pool s))) (held s) (held t)"
proof -
  have inv: "pool_inv t" using assms inv_pool_step inv_close_step by (auto simp: any_step_def)
  from assms(1) consider "pool_step L cf s t" | "close_step s t" by (auto simp: any_step_def)
  then show ?thesis
  proof cases
    case 1
    then show ?thesis
    proof cases
      case (task i p' pc')
      then show ?thesis using task_lease [OF assms(2) task(2,3,1) inv] by simp
    next
      case spawn
      then show ?thesis by (simp add: held_def held_by_def stutter)
    next
      case (watchdog cid now pending)
      have "held_by (sy_pool t) pc = held_by (sy_pool s) pc" for pc
        using watchdog_visit_conns(2) [OF watchdog(2), of L now pending] watchdog(1)
        by (simp add: held_by_def abort_io_frame split: pc.split)
      then have "held t = held s" using watchdog(1) by (simp add: held_def)
      then show ?thesis by (simp add: stutter)
    qed
  next
    case 2
    with close_step_held [OF 2 assms(2)] show ?thesis by (simp add: stutter)
  qed
qed

lemma count_list_distinct: "(\<And>x. count_list xs x \<le> 1) \<Longrightarrow> distinct xs"
proof (induction xs)
  case (Cons a xs)
  have "count_list xs a = 0" using Cons.prems [of a] by simp
  moreover have "count_list xs x \<le> 1" for x using Cons.prems [of x] by (simp split: if_splits)
  ultimately show ?case using Cons.IH by (simp add: count_list_0_iff)
qed simp

section \<open>Handlers as sequences of steps\<close>

text \<open>What one task does when no other task interferes.\<close>

definition task_rel :: "'c libpq \<Rightarrow> PoolConfig \<Rightarrow> 'c pool \<times> pc \<Rightarrow> 'c pool \<times> pc \<Rightarrow> bool" where
  "task_rel L cf x y \<longleftrightarrow> task_step L cf (fst x) (snd x) (fst y) (snd y)"

definition task_path :: "'c libpq \<Rightarrow> PoolConfig \<Rightarrow> 'c pool \<Rightarrow> pc \<Rightarrow> 'c pool \<Rightarrow> pc \<Rightarrow> bool" where
  "task_path L cf p pc p' pc' \<longleftrightarrow> (task_rel L cf)\<^sup>*\<^sup>* (p, pc) (p', pc')"

lemma path_refl [intro]: "task_path L cf p pc p pc"
  by (simp add: task_path_def)

lemma path_step: "task_step L cf p pc p1 pc1 \<Longrightarrow> task_path L cf p1 pc1 p' pc' \<Longrightarrow> task_path L cf p pc p' pc'"
  unfolding task_path_def by (rule converse_rtranclp_into_rtranclp) (simp_all add: task_rel_def)

lemma path_trans: "task_path L cf p pc p1 pc1 \<Longrightarrow> task_path L cf p1 pc1 p' pc' \<Longrightarrow> task_path L cf p pc p' pc'"
  unfolding task_path_def by (rule rtranclp_trans)

text \<open>A path of one task is a path of the system.\<close>

lemma path_sys:
  assumes "task_path L cf p pc p' pc'" "i < length pcs" "pcs ! i = pc"
  shows "(pool_step L cf)\<^sup>*\<^sup>* \<lparr>sy_pool = p, sy_pcs = pcs\<rparr> \<lparr>sy_pool = p', sy_pcs = pcs[i := pc']\<rparr>"
  using assms unfolding task_path_def
proof (induction "(p', pc')" arbitrary: p' pc' rule: rtranclp_induct)
  case base
  then show ?case by (metis list_update_id rtranclp.rtrancl_refl)
next
  case (step y)
  obtain p1 pc1 where y: "y = (p1, pc1)" by fastforce
  have "pool_step L cf \<lparr>sy_pool = p1, sy_pcs = pcs[i := pc1]\<rparr> \<lparr>sy_pool = p', sy_pcs = (pcs[i := pc1])[i := pc']\<rparr>"
    using task [of i "\<lparr>sy_pool = p1, sy_pcs = pcs[i := pc1]\<rparr>"] step y by (simp add: task_rel_def)
  with step.hyps(3) [OF y step.prems] show ?case by simp
qed

lemma mark_dead_path: "task_path L cf p (Accounting cid k) (mark_dead (Some cid) p) (resume k)"
proof (cases "cn_dead_accounted (conn_at p cid)")
  case True
  then show ?thesis by (auto simp: mark_dead_def Let_def intro: path_step [OF account_again])
next
  case False
  let ?p = "set_conn cid (conn_close ((conn_at p cid)\<lparr>cn_dead_accounted := True\<rparr>)) p"
  have "task_path L cf p (Accounting cid k)
     ((?p\<lparr>pl_live_count := pl_live_count ?p - 1\<rparr>)\<lparr>pl_sem := pl_sem (?p\<lparr>pl_live_count := pl_live_count ?p - 1\<rparr>) + 1\<rparr>) (resume k)"
    by (rule path_step [OF account], rule False, rule path_step [OF subtract], rule path_step [OF signal]) (rule path_refl)
  then show ?thesis using False by (simp add: mark_dead_def Let_def)
qed

lemma release_path: "task_path L cf p (Holding cid) (release_connection L (Some cid) p) Resting"
proof -
  define c where "c = set_io_deadline_ms 0 (conn_at p cid)"
  note md = mark_dead_path [of L cf "set_conn cid c p" cid KDone, simplified]
  show ?thesis
  proof (cases "\<not> connected L c \<or> \<not> is_idle L c")
    case True
    with path_step [OF release_bad [OF c_def] md] show ?thesis by (simp add: release_connection_def Let_def c_def)
  next
    case ok: False
    note good = path_step [OF release_good [OF c_def]]
    show ?thesis
    proof (cases "pl_capacity (set_conn cid c p) \<le> length (pl_idle (set_conn cid c p))")
      case True
      with ok good [OF _ _ path_step [OF enqueue_full md]] show ?thesis
        by (simp add: release_connection_def Let_def c_def [symmetric])
    next
      case False
      with ok good [OF _ _ path_step [OF enqueue [OF False] path_step [OF post path_refl]]] show ?thesis
        by (simp add: release_connection_def Let_def c_def [symmetric])
    qed
  qed
qed

lemma check_idle_path:
  assumes "pl_idle p = cid # rest"
  shows "task_path L cf p (Taking b) (snd (check_idle L cid (p\<lparr>pl_idle := rest\<rparr>)))
     (if fst (check_idle L cid (p\<lparr>pl_idle := rest\<rparr>)) then Holding cid else Taking b)"
proof -
  define p1 where "p1 = bump st_checked_update (p\<lparr>pl_idle := rest\<rparr>)"
  note deq = path_step [OF dequeue [OF assms, of L cf b], folded p1_def]
  show ?thesis
  proof (cases "\<not> connected L (conn_at p1 cid) \<or> \<not> is_idle L (conn_at p1 cid)")
    case True
    with deq [OF path_step [OF check_bad [OF True]], OF mark_dead_path] show ?thesis
      by (simp add: check_idle_def p1_def [symmetric] Let_def)
  next
    case ok: False
    obtain al c' where al: "idle_socket_alive L (conn_at p1 cid) = (al, c')" by fastforce
    show ?thesis
    proof (cases al)
      case True
      with ok al deq [OF path_step [OF check_ok path_refl]] show ?thesis
        by (simp add: check_idle_def p1_def [symmetric] Let_def)
    next
      case False
      with ok al deq [OF path_step [OF check_stale mark_dead_path]] show ?thesis
        by (simp add: check_idle_def p1_def [symmetric] Let_def)
    qed
  qed
qed

lemma take_idle_path:
  "take_idle L p = (r, q) \<Longrightarrow>
   task_path L cf p (Taking b) q (case r of None \<Rightarrow> Taking b | Some cid \<Rightarrow> Holding cid) \<and> (r = None \<longrightarrow> pl_idle q = [])"
proof (induction L p arbitrary: r q rule: take_idle.induct)
  case (1 L p)
  show ?case
  proof (cases "pl_idle p")
    case Nil
    with "1.prems" show ?thesis by (auto simp: take_idle.simps [of L p])
  next
    case (Cons cid rest)
    obtain ok p' where c: "check_idle L cid (p\<lparr>pl_idle := rest\<rparr>) = (ok, p')" by fastforce
    note path = check_idle_path [OF Cons, of L cf b, unfolded c, simplified]
    show ?thesis
    proof (cases ok)
      case True
      with "1.prems" c Cons path show ?thesis by (auto simp: take_idle.simps [of L p])
    next
      case False
      with "1.prems" c Cons have "take_idle L p' = (r, q)" by (simp add: take_idle.simps [of L p])
      from "1.IH" [OF Cons c [symmetric] False this] path False path_trans show ?thesis by auto
    qed
  qed
qed

section \<open>Properties\<close>

text \<open>C2: in every interleaving of pool tasks, watchdog and \<^verbatim>\<open>close_all\<close>: the number of live connections never
  exceeds the configured maximum, at most that many have an open \<^verbatim>\<open>PGconn\<close>, no connection is owned by two
  tasks or both owned and queued, the queue has no duplicates, and a queued connection carries no I/O deadline
  of its previous user.\<close>

theorem pool_bounded_exclusive:
  assumes "init_sys s0" "(any_step L cf)\<^sup>*\<^sup>* s0 s"
  shows "let p = sy_pool s in
     pl_live_count p \<le> pl_max_pool p
     \<and> length (filter (\<lambda>c. cn_pq c \<noteq> None) (pl_conns p)) \<le> unat (pl_max_pool p)
     \<and> (\<forall>i < length (sy_pcs s). \<forall>cid. owner_of (sy_pcs s ! i) = Some cid \<longrightarrow>
          cid \<notin> set (pl_idle p) \<and> (\<forall>j < length (sy_pcs s). owner_of (sy_pcs s ! j) = Some cid \<longrightarrow> j = i))
     \<and> distinct (pl_idle p) \<and> (\<forall>cid \<in> set (pl_idle p). cn_io_deadline_ms (conn_at p cid) = 0)"
proof -
  have inv: "pool_inv s" by (rule pool_sys.reachable_inv [OF assms])
  let ?p = "sy_pool s"
  have cnt: "pl_live_count ?p \<le> pl_max_pool ?p" "wsum alive (pl_conns ?p) \<le> unat (pl_live_count ?p)"
    and own: "inv_own s" and dl: "\<forall>cid \<in> set (pl_idle ?p). cn_io_deadline_ms (conn_at ?p cid) = 0"
    and dead: "\<forall>cid < length (pl_conns ?p). cn_dead_accounted (conn_at ?p cid) \<longrightarrow> cn_pq (conn_at ?p cid) = None"
    using inv by (simp_all add: pool_inv_def inv_count_def inv_conn_def Let_def)
  have "{i. i < length (pl_conns ?p) \<and> cn_pq (pl_conns ?p ! i) \<noteq> None}
      \<subseteq> {i. i < length (pl_conns ?p) \<and> \<not> cn_dead_accounted (pl_conns ?p ! i)}"
    using dead by (auto simp: conn_at_def)
  then have "length (filter (\<lambda>c. cn_pq c \<noteq> None) (pl_conns ?p)) \<le> wsum alive (pl_conns ?p)"
    unfolding wsum_alive length_filter_conv_card by (rule card_mono [rotated]) simp
  moreover have "unat (pl_live_count ?p) \<le> unat (pl_max_pool ?p)" using cnt(1) by (simp add: word_le_nat_alt)
  moreover have "distinct (pl_idle ?p)"
  proof -
    have "count_list (pl_idle ?p) cid \<le> 1" for cid
    proof (cases "cid \<in> set (pl_idle ?p)")
      case True
      then have "cid < length (pl_conns ?p)" using own by (simp add: inv_own_def Let_def)
      then have "count_list (pl_idle ?p) cid + wsum (owns cid) (sy_pcs s) \<le> 1" using own by (simp add: inv_own_def Let_def)
      then show ?thesis by simp
    qed (simp add: count_list_0_iff)
    then show ?thesis by (rule count_list_distinct)
  qed
  moreover have "\<forall>i < length (sy_pcs s). \<forall>cid. owner_of (sy_pcs s ! i) = Some cid \<longrightarrow>
      cid \<notin> set (pl_idle ?p) \<and> (\<forall>j < length (sy_pcs s). owner_of (sy_pcs s ! j) = Some cid \<longrightarrow> j = i)"
    using own_unique(2,3) [OF own] by blast
  ultimately show ?thesis
    unfolding Let_def using cnt dl by (intro conjI) (assumption | linarith)+
qed

definition start_sys :: "u64 \<Rightarrow> nat \<Rightarrow> pg_result list sys" where
  "start_sys m capacity = \<lparr>sy_pool = new_pool m capacity, sy_pcs = []\<rparr>"

lemma start_sys_init: "init_sys (start_sys m capacity)"
  by (auto simp: init_sys_def start_sys_def)

lemma start_sys_spawn: "(any_step L cf)\<^sup>*\<^sup>* (start_sys m capacity) (start_sys m capacity\<lparr>sy_pcs := [Resting]\<rparr>)"
proof -
  have "any_step L cf (start_sys m capacity) (start_sys m capacity\<lparr>sy_pcs := [Resting]\<rparr>)"
    using spawn [of L cf "start_sys m capacity"] by (simp add: any_step_def start_sys_def)
  then show ?thesis by simp
qed

theorem pool_bounded_exclusive_witness:
  "pl_live_count (sy_pool (start_sys 2 2\<lparr>sy_pcs := [Resting]\<rparr>)) \<le> 2
   \<and> distinct (pl_idle (sy_pool (start_sys 2 2\<lparr>sy_pcs := [Resting]\<rparr>)))"
  using pool_bounded_exclusive [OF start_sys_init start_sys_spawn [of list_libpq sample_config 2 2]]
  by (simp add: Let_def start_sys_def new_pool_def)

text \<open>C1: the pool refines its abstract specification: seen through the set of connections held by clients, every
  step of every interleaving is a grant of a connection nobody holds while fewer than the maximum are held, the
  end of one lease, or no change; initially nothing is held.\<close>

theorem pool_refines_leases:
  assumes "init_sys s0" "(any_step L cf)\<^sup>*\<^sup>* s0 s" "any_step L cf s t"
  shows "held s0 = {} \<and> lease_step (unat (pl_max_pool (sy_pool s))) (held s) (held t)"
proof
  show "held s0 = {}" using assms(1) by (simp add: init_sys_def held_def)
  show "lease_step (unat (pl_max_pool (sy_pool s))) (held s) (held t)"
    by (rule any_step_lease [OF assms(3) pool_sys.reachable_inv [OF assms(1,2)]])
qed

theorem pool_refines_leases_witness:
  "lease_step 2 (held (start_sys 2 2\<lparr>sy_pcs := [Resting]\<rparr>)) (held (start_sys 2 2\<lparr>sy_pcs := [Taking True]\<rparr>))"
proof -
  let ?s = "start_sys 2 2\<lparr>sy_pcs := [Resting]\<rparr>"
  have "pool_step list_libpq sample_config ?s \<lparr>sy_pool = sy_pool ?s, sy_pcs = (sy_pcs ?s)[0 := Taking True]\<rparr>"
    by (rule task) (simp_all add: start_run)
  then have "any_step list_libpq sample_config ?s (start_sys 2 2\<lparr>sy_pcs := [Taking True]\<rparr>)"
    by (simp add: any_step_def start_sys_def)
  from pool_refines_leases [OF start_sys_init start_sys_spawn this] show ?thesis
    by (simp add: start_sys_def new_pool_def)
qed


text \<open>One connection that clients can have: the first task connects and holds it, the second one waits.\<close>

definition one_attempt :: "pg_result list attempt" where
  "one_attempt = \<lparr>at_start = (\<lambda>_. Some ([], None)), at_nonblocking = True,
     at_rounds = [\<lparr>hs_watched = True, hs_cancel = False, hs_fired = None, hs_poll = PollOk, hs_error = []\<rparr>],
     at_watched = True, at_slept = True\<rparr>"

definition one_retry_config :: PoolConfig where
  "one_retry_config = sample_config\<lparr>cf_retries := 1\<rparr>"

definition used_pool :: "pg_result list pool" where
  "used_pool = (new_pool 1 1)\<lparr>pl_watchdog_started := True, pl_live_count := 1, pl_conns := [open_conn []], pl_registered := [0]\<rparr>"

lemma connect_path:
  "task_path list_libpq one_retry_config (new_pool 1 1) Resting used_pool (Holding 0)"
proof -
  let ?p0 = "ensure_watchdog_started (new_pool 1 1 :: pg_result list pool)"
  let ?p1 = "register_connection 0 (?p0\<lparr>pl_live_count := 0 + 1, pl_conns := pl_conns ?p0 @ [new_conn]\<rparr>)"
  obtain ci where ci: "make_conninfo (cf_ip4 one_retry_config) (cf_ip6 one_retry_config) (cf_host one_retry_config)
      (cf_port one_retry_config) (cf_user one_retry_config) (cf_db one_retry_config) (cf_password one_retry_config)
      (cf_ssl one_retry_config) (cf_keepalive one_retry_config) = Inr ci"
  proof -
    have "\<not> isl (make_conninfo (\<lambda>_. False) (\<lambda>_. False) ''db'' ''5432'' ''u'' ''d'' ''p'' plain_ssl no_keepalive)"
      by code_simp
    then obtain ci where "make_conninfo (\<lambda>_. False) (\<lambda>_. False) ''db'' ''5432'' ''u'' ''d'' ''p'' plain_ssl no_keepalive
        = Inr ci" by (metis sum.collapse(2))
    then show ?thesis using that by (simp add: one_retry_config_def sample_config_def)
  qed
  have "connect_loop (cf_retries one_retry_config) 0 ci [one_attempt] None (conn_at ?p1 0) = Finished (Inr (), open_conn [], [])"
    by (simp add: connect_loop.simps one_retry_config_def one_attempt_def connect_async_def Let_def handshake.simps
        conn_at_def new_pool_def open_conn_def new_conn_def)
  from connect_ok [OF ci this] have
    "task_path list_libpq one_retry_config ?p1 (Connecting 0) (set_conn 0 (open_conn []) ?p1) (Holding 0)"
    by (rule path_step) (rule path_refl)
  then have "task_path list_libpq one_retry_config ?p0 (Reserving 0) (set_conn 0 (open_conn []) ?p1) (Holding 0)"
    by (rule path_step [OF cas_succeeds, rotated -1]) (simp_all add: new_pool_def)
  then have "task_path list_libpq one_retry_config ?p0 Loading (set_conn 0 (open_conn []) ?p1) (Holding 0)"
    by (intro path_step [OF load_free]) (simp_all add: new_pool_def)
  then have "task_path list_libpq one_retry_config (new_pool 1 1) Resting (set_conn 0 (open_conn []) ?p1) (Holding 0)"
    by (intro path_step [OF start_acquire] path_step [OF dequeue_none]) (simp_all add: new_pool_def)
  then show ?thesis
    by (simp add: used_pool_def new_pool_def ensure_watchdog_started_def register_connection_def set_conn_def)
qed

lemma wait_path: "task_path list_libpq one_retry_config used_pool Resting used_pool Waiting"
proof -
  have w: "ensure_watchdog_started used_pool = used_pool"
    by (simp add: ensure_watchdog_started_def used_pool_def new_pool_def)
  have "task_path list_libpq one_retry_config used_pool Loading used_pool Waiting"
    by (intro path_step [OF load_full] path_refl) (simp add: used_pool_def new_pool_def)
  then have "task_path list_libpq one_retry_config used_pool (Taking False) used_pool Waiting"
    by (intro path_step [OF dequeue_none]) (simp_all add: used_pool_def new_pool_def)
  then show ?thesis using path_step [OF start_acquire, of list_libpq one_retry_config used_pool] w by simp
qed



text \<open>C22: the sequential handlers are paths of the step relation: run by a task that nobody interferes with,
  \<^verbatim>\<open>take_idle\<close>, \<^verbatim>\<open>release_connection\<close> and \<^verbatim>\<open>mark_dead\<close> end in the pool their definitions compute, the task
  holding what was taken, or resting, or back where it was.\<close>

theorem handlers_are_steps:
  assumes "i < length pcs"
  shows "((pool_step L cf)\<^sup>*\<^sup>* \<lparr>sy_pool = p, sy_pcs = pcs[i := Taking b]\<rparr>
      \<lparr>sy_pool = snd (take_idle L p),
       sy_pcs = pcs[i := case fst (take_idle L p) of None \<Rightarrow> Taking b | Some cid \<Rightarrow> Holding cid]\<rparr>)
    \<and> ((pool_step L cf)\<^sup>*\<^sup>* \<lparr>sy_pool = p, sy_pcs = pcs[i := Holding cid]\<rparr>
      \<lparr>sy_pool = release_connection L (Some cid) p, sy_pcs = pcs[i := Resting]\<rparr>)
    \<and> ((pool_step L cf)\<^sup>*\<^sup>* \<lparr>sy_pool = p, sy_pcs = pcs[i := Accounting cid k]\<rparr>
      \<lparr>sy_pool = mark_dead (Some cid) p, sy_pcs = pcs[i := resume k]\<rparr>)"
proof -
  obtain r q where t: "take_idle L p = (r, q)" by fastforce
  have run: "task_path L cf p pc p' pc' \<Longrightarrow>
      (pool_step L cf)\<^sup>*\<^sup>* \<lparr>sy_pool = p, sy_pcs = pcs[i := pc]\<rparr> \<lparr>sy_pool = p', sy_pcs = pcs[i := pc']\<rparr>" for pc p' pc'
    using path_sys [of L cf p pc p' pc' i "pcs[i := pc]"] assms by simp
  show ?thesis
    using run [OF take_idle_path [OF t, of cf b, THEN conjunct1]] run [OF release_path [of L cf p cid]]
      run [OF mark_dead_path [of L cf p cid k]] t by simp
qed

theorem handlers_are_steps_witness:
  "(pool_step list_libpq sample_config)\<^sup>*\<^sup>* \<lparr>sy_pool = used_pool, sy_pcs = [Holding 0]\<rparr>
     \<lparr>sy_pool = used_pool\<lparr>pl_idle := [0], pl_sem := 1\<rparr>, sy_pcs = [Resting]\<rparr>"
proof -
  have "release_connection list_libpq (Some 0) used_pool = used_pool\<lparr>pl_idle := [0], pl_sem := 1\<rparr>"
    by (simp add: release_connection_def used_pool_def new_pool_def set_conn_def conn_at_def set_io_deadline_ms_def
        connected_def is_idle_def open_conn_def new_conn_def list_libpq_def Let_def)
  with handlers_are_steps [of 0 "[Holding 0]" list_libpq sample_config used_pool True 0 KDone] show ?thesis by simp
qed

lemma close_all_loop_fields:
  "pl_idle p = cids \<Longrightarrow> pl_idle (close_all_loop cids p) = [] \<and> pl_live_count (close_all_loop cids p) = pl_live_count p
     \<and> pl_max_pool (close_all_loop cids p) = pl_max_pool p"
  by (induction cids arbitrary: p) auto

text \<open>No task can get a connection any more.\<close>

definition starved :: "'c sys \<Rightarrow> bool" where
  "starved s \<longleftrightarrow> pl_idle (sy_pool s) = [] \<and> pl_max_pool (sy_pool s) \<le> pl_live_count (sy_pool s)
     \<and> (\<forall>pc \<in> set (sy_pcs s). pc \<in> {Resting, Taking True, Taking False, Loading, Waiting})"

lemma starved_task:
  assumes "task_step L cf p pc p' pc'" "pl_idle p = []" "pl_max_pool p \<le> pl_live_count p"
    and "pc \<in> {Resting, Taking True, Taking False, Loading, Waiting}"
  shows "pl_idle p' = [] \<and> pl_max_pool p' \<le> pl_live_count p' \<and> pc' \<in> {Resting, Taking True, Taking False, Loading, Waiting}"
  using assms by (cases rule: task_step.cases) auto

lemma starved_step: "any_step L cf s t \<Longrightarrow> starved s \<Longrightarrow> starved t"
proof -
  assume a: "any_step L cf s t" and st: "starved s"
  then consider "pool_step L cf s t" | "close_step s t" by (auto simp: any_step_def)
  then show ?thesis
  proof cases
    case 1
    then show ?thesis
    proof cases
      case (task i p' pc')
      have "sy_pcs s ! i \<in> {Resting, Taking True, Taking False, Loading, Waiting}" using st task(2) by (auto simp: starved_def)
      with starved_task [OF task(3)] st have
        n: "pl_idle p' = []" "pl_max_pool p' \<le> pl_live_count p'" "pc' \<in> {Resting, Taking True, Taking False, Loading, Waiting}"
        by (auto simp: starved_def)
      moreover have "pc \<in> {Resting, Taking True, Taking False, Loading, Waiting}" if "pc \<in> set ((sy_pcs s)[i := pc'])" for pc
        using in_set_update [OF that] n(3) st by (auto simp: starved_def)
      ultimately show ?thesis using task(1) by (auto simp: starved_def)
    next
      case spawn
      with st show ?thesis by (auto simp: starved_def)
    next
      case (watchdog cid now pending)
      with st show ?thesis by (auto simp: starved_def watchdog_visit_def Let_def split: prod.split)
    qed
  next
    case 2
    then show ?thesis using st by cases (simp add: starved_def)
  qed
qed

interpretation starving: inv_system starved "any_step L cf" starved for L cf
  by unfold_locales (auto intro: starved_step)

text \<open>C24: \<^verbatim>\<open>close_all\<close> on a full pool that nobody uses leaves it unusable: the closed connections still count as
  live, so in no continuation does any client ever get a connection again.\<close>

theorem close_all_starves:
  assumes "list_all (\<lambda>pc. pc = Resting) (sy_pcs s)" "pl_live_count (sy_pool s) = pl_max_pool (sy_pool s)"
    and "(any_step L cf)\<^sup>*\<^sup>* (s\<lparr>sy_pool := close_all (sy_pool s)\<rparr>) t"
  shows "held t = {} \<and> pl_live_count (close_all (sy_pool s)) = pl_max_pool (sy_pool s)"
proof -
  have "starved (s\<lparr>sy_pool := close_all (sy_pool s)\<rparr>)"
    using assms(1,2) close_all_loop_fields [OF refl, of "sy_pool s"] by (auto simp: starved_def close_all_def list_all_iff)
  then have "starved t" using starving.reachable_inv [OF _ assms(3)] by blast
  then have "pc \<in> {Resting, Taking True, Taking False, Loading, Waiting}" if "pc \<in> set (sy_pcs t)" for pc
    using that by (simp add: starved_def)
  then have "held_by (sy_pool t) pc = {}" if "pc \<in> set (sy_pcs t)" for pc
    using that by (fastforce simp: held_by_def split: pc.split)
  then have "held t = {}" by (simp add: held_def)
  moreover have "pl_live_count (close_all (sy_pool s)) = pl_live_count (sy_pool s)"
    using close_all_loop_fields [OF refl, of "sy_pool s"] by (simp add: close_all_def)
  ultimately show ?thesis using assms(2) by simp
qed

theorem close_all_starves_witness:
  "held \<lparr>sy_pool = close_all (used_pool\<lparr>pl_idle := [0]\<rparr>), sy_pcs = [Taking True]\<rparr> = {}
   \<and> pl_live_count (close_all (used_pool\<lparr>pl_idle := [0]\<rparr>)) = 1"
proof -
  let ?s = "\<lparr>sy_pool = used_pool\<lparr>pl_idle := [0]\<rparr>, sy_pcs = [Resting]\<rparr>"
  let ?c = "?s\<lparr>sy_pool := close_all (sy_pool ?s)\<rparr>"
  have "pool_step list_libpq sample_config ?c \<lparr>sy_pool = sy_pool ?c, sy_pcs = (sy_pcs ?c)[0 := Taking True]\<rparr>"
    by (rule task) (simp_all add: start_run)
  then have "(any_step list_libpq sample_config)\<^sup>*\<^sup>* ?c
      \<lparr>sy_pool = close_all (used_pool\<lparr>pl_idle := [0]\<rparr>), sy_pcs = [Taking True]\<rparr>"
    by (auto simp: any_step_def)
  from close_all_starves [OF _ _ this] show ?thesis by (simp add: used_pool_def new_pool_def)
qed

end
