(* ===== verification/Pg_Transaction.thy ===== *)
theory Pg_Transaction
  imports Pg_Pool
begin

text \<open>
  Transactions (\<^verbatim>\<open>PgTransaction\<close>), their savepoints (\<^verbatim>\<open>PgSubtransaction\<close>) and \<^verbatim>\<open>run_tx\<close>, the loop that re-runs a
  whole transaction. A transaction is a record; its connection is an index into the pool's connections, and the
  operations pass transaction and pool along. Environments are those of the theory \<open>Pg_Pool\<close>: one \<open>try_env\<close> per
  try, giving what its awaits meet.
\<close>

section \<open>Sequencing of coroutines\<close>

definition bind_async :: "'a async \<Rightarrow> ('a \<Rightarrow> 'b async) \<Rightarrow> 'b async" where
  "bind_async r f = (case r of Parked \<Rightarrow> Parked | Stuck \<Rightarrow> Stuck | Finished x \<Rightarrow> f x)"

lemma bind_Finished [simp]: "bind_async (Finished x) f = f x"
  by (simp add: bind_async_def)

lemma bind_eq_Finished: "bind_async r f = Finished y \<longleftrightarrow> (\<exists>x. r = Finished x \<and> f x = Finished y)"
  by (cases r) (auto simp: bind_async_def)

section \<open>State\<close>

datatype TxIsolationLevel = IsoDefault | ReadCommitted | RepeatableRead | Serializable

record PgTransactionConfig =
  tc_isolation :: TxIsolationLevel
  tc_read_only :: bool
  tc_deferrable :: bool
  tc_force_real_begin :: bool

definition build_begin_sql :: "PgTransactionConfig \<Rightarrow> string" where
  "build_begin_sql cfg =
     (if \<not> (tc_isolation cfg \<noteq> IsoDefault \<or> tc_read_only cfg \<or> tc_deferrable cfg) then ''BEGIN''
      else ''BEGIN''
        @ (case tc_isolation cfg of
             ReadCommitted \<Rightarrow> '' ISOLATION LEVEL READ COMMITTED''
           | RepeatableRead \<Rightarrow> '' ISOLATION LEVEL REPEATABLE READ''
           | Serializable \<Rightarrow> '' ISOLATION LEVEL SERIALIZABLE''
           | IsoDefault \<Rightarrow> [])
        @ (if tc_read_only cfg then '' READ ONLY'' else '' READ WRITE'')
        @ (if tc_deferrable cfg then '' DEFERRABLE'' else []))"

record tx =
  tx_begin_sql :: string
  tx_conn :: "cid option"
  tx_last_commit_error :: "PgOpError option"
  tx_active :: bool
  tx_committed :: bool
  tx_rolled_back :: bool
  tx_emulate :: bool              \<comment> \<open>\<^verbatim>\<open>emulate_readonly_autocommit_\<close>\<close>
  tx_io_deadline_ms :: u64

definition new_tx :: "PgTransactionConfig \<Rightarrow> tx" where
  "new_tx cfg = \<lparr>tx_begin_sql = build_begin_sql cfg, tx_conn = None, tx_last_commit_error = None,
     tx_active = False, tx_committed = False, tx_rolled_back = False,
     tx_emulate = (tc_read_only cfg \<and> \<not> tc_deferrable cfg \<and> \<not> tc_force_real_begin cfg), tx_io_deadline_ms = 0\<rparr>"

definition destroy_tx :: "tx \<Rightarrow> 'c pool \<Rightarrow> 'c pool" where
  "destroy_tx t p = (case tx_conn t of None \<Rightarrow> p | Some cid \<Rightarrow> mark_dead (Some cid) p)"

definition tx_set_io_deadline_ms :: "u64 \<Rightarrow> tx \<Rightarrow> 'c pool \<Rightarrow> tx \<times> 'c pool" where
  "tx_set_io_deadline_ms ms t p =
     (t\<lparr>tx_io_deadline_ms := ms\<rparr>,
      case tx_conn t of None \<Rightarrow> p | Some cid \<Rightarrow> set_conn cid (set_io_deadline_ms ms (conn_at p cid)) p)"

text \<open>\<^verbatim>\<open>conn_ && conn_->connected()\<close>.\<close>

definition tx_connected :: "'c libpq \<Rightarrow> tx \<Rightarrow> 'c pool \<Rightarrow> bool" where
  "tx_connected L t p = (case tx_conn t of None \<Rightarrow> False | Some cid \<Rightarrow> connected L (conn_at p cid))"

section \<open>Begin\<close>

definition acquire_failed :: PgOpError where
  "acquire_failed = \<lparr>oe_code = ConnectionClosed, oe_error = ''failed to acquire connection from pool'',
     oe_err_detail = no_detail\<rparr>"

definition opened :: "cid \<Rightarrow> tx \<Rightarrow> tx" where
  "opened cid t = t\<lparr>tx_conn := Some cid, tx_active := True, tx_committed := False, tx_rolled_back := False,
     tx_last_commit_error := None\<rparr>"

fun open_loop ::
  "'c libpq \<Rightarrow> PoolConfig \<Rightarrow> 'c try_env list \<Rightarrow> nat \<Rightarrow> tx \<Rightarrow> 'c pool \<Rightarrow> (PgOpError option \<times> tx \<times> 'c pool) async" where
  "open_loop L cf [] attempt t p = Parked"
| "open_loop L cf (e # es) attempt t p =
     bind_async (acquire_or_idle L cf e p) (\<lambda>(r, p1).
       case r of
         Inl _ \<Rightarrow> Finished (Some acquire_failed, t\<lparr>tx_conn := None\<rparr>, p1)
       | Inr cid \<Rightarrow>
           if \<not> connected L (conn_at p1 cid)
           then Finished (Some \<lparr>oe_code = ConnectionClosed, oe_error = ''connection not OK'', oe_err_detail = no_detail\<rparr>,
                          t\<lparr>tx_conn := None\<rparr>, mark_dead (Some cid) p1)
           else
             let c = (if tx_io_deadline_ms t \<noteq> 0 then set_io_deadline_ms (tx_io_deadline_ms t) (conn_at p1 cid)
                      else conn_at p1 cid)
             in if tx_emulate t then Finished (None, opened cid t, set_conn cid c p1)
                else bind_async (exec_simple L (tx_begin_sql t) (te_wakes e) c) (\<lambda>(q, c', _).
                  let p2 = set_conn cid c' p1 in
                  if qr_ok q then Finished (None, opened cid t, p2)
                  else
                    let p3 = mark_dead (Some cid) p2;
                        t1 = t\<lparr>tx_conn := None\<rparr>;
                        failed = (\<lambda>p. Finished (Some (to_op_error q),
                          t1\<lparr>tx_active := False, tx_committed := False, tx_rolled_back := False\<rparr>, p))
                    in if is_transient_pooler_error q
                          \<and> int attempt + 1 < transient_retry_attempts (cf_policy cf)
                       then (case transient_backoff cf attempt (Some (ed_sqlstate (qr_err_detail q))) p3 of (_, p4) \<Rightarrow>
                           if te_slept e then open_loop L cf es (Suc attempt) t1 p4 else failed p4)
                       else failed p3))"

definition tx_open ::
  "'c libpq \<Rightarrow> PoolConfig \<Rightarrow> 'c try_env list \<Rightarrow> tx \<Rightarrow> 'c pool \<Rightarrow> (PgOpError option \<times> tx \<times> 'c pool) async" where
  "tx_open L cf es t p = (if tx_active t then Finished (None, t, p) else open_loop L cf es 0 t p)"

definition tx_begin ::
  "'c libpq \<Rightarrow> PoolConfig \<Rightarrow> 'c try_env list \<Rightarrow> tx \<Rightarrow> 'c pool \<Rightarrow> (bool \<times> tx \<times> 'c pool) async" where
  "tx_begin L cf es t p = bind_async (tx_open L cf es t p) (\<lambda>(err, tp). Finished (err = None, tp))"

definition begin_errored where
  "begin_errored L cf es t p = tx_open L cf es t p"

section \<open>End\<close>

text \<open>\<^verbatim>\<open>release_now\<close>: whether the connection could be handed back without waiting.\<close>

definition release_now :: "'c libpq \<Rightarrow> tx \<Rightarrow> 'c pool \<Rightarrow> bool \<times> tx \<times> 'c pool" where
  "release_now L t p =
     (case tx_conn t of
        None \<Rightarrow> (True, t, p)
      | Some cid \<Rightarrow>
          if connected L (conn_at p cid) \<and> \<not> is_idle L (conn_at p cid) then (False, t, p)
          else (True, t\<lparr>tx_conn := None\<rparr>, release_connection L (Some cid) p))"

text \<open>\<^verbatim>\<open>if (!release_now()) co_await pool_->release_connection_async(std::move(conn_));\<close>\<close>

definition give_up_conn :: "'c libpq \<Rightarrow> 'c wake list \<Rightarrow> tx \<Rightarrow> 'c pool \<Rightarrow> (tx \<times> 'c pool) async" where
  "give_up_conn L ws t p =
     (case release_now L t p of (ok, t1, p1) \<Rightarrow>
        if ok then Finished (t1, p1)
        else bind_async (release_connection_async L ws (tx_conn t1) p1)
               (\<lambda>(p2, _). Finished (t1\<lparr>tx_conn := None\<rparr>, p2)))"

definition drop_connection :: "tx \<Rightarrow> 'c pool \<Rightarrow> tx \<times> 'c pool" where
  "drop_connection t p =
     (t\<lparr>tx_conn := None, tx_active := False, tx_rolled_back := True, tx_committed := False\<rparr>,
      mark_dead (tx_conn t) p)"

definition end_with ::
  "'c libpq \<Rightarrow> 'c try_env \<Rightarrow> string \<Rightarrow> tx \<Rightarrow> 'c pool \<Rightarrow> (tx \<times> 'c pool) async" where
  "end_with L e sql t p =
     bind_async
       (if \<not> tx_emulate t \<and> tx_connected L t p
        then (case tx_conn t of
            None \<Rightarrow> Finished (t, p)
          | Some cid \<Rightarrow>
              bind_async (exec_simple L sql (te_wakes e) (conn_at p cid)) (\<lambda>(q, c, _).
                let p1 = set_conn cid c p in
                if is_fatal_connection_error q then Finished (t\<lparr>tx_conn := None\<rparr>, mark_dead (Some cid) p1)
                else Finished (t, p1)))
        else Finished (t, p))
       (\<lambda>(t1, p1).
          give_up_conn L (te_drain e)
            (t1\<lparr>tx_committed := False, tx_rolled_back := True, tx_active := False\<rparr>) p1)"

definition aborted_error :: PgOpError where
  "aborted_error = \<lparr>oe_code = ServerError,
     oe_error = ''transaction is aborted (a statement failed); COMMIT rolled it back'',
     oe_err_detail = \<lparr>ed_sqlstate = ''25P02'', ed_message = ''current transaction is aborted'', ed_detail = [],
       ed_hint = [], ed_category = TransactionState\<rparr>\<rparr>"

text \<open>\<^verbatim>\<open>PQtransactionStatus(conn_->raw_conn()) == PQTRANS_INERROR\<close>.\<close>

definition in_failed_tx :: "'c libpq \<Rightarrow> 'c conn \<Rightarrow> bool" where
  "in_failed_tx L c = (case cn_pq c of None \<Rightarrow> False | Some q \<Rightarrow> pq_trans_inerror L q)"

text \<open>\<^verbatim>\<open>commit\<close> on the connected connection \<open>cid\<close>, behind the guards.\<close>

definition commit_on ::
  "'c libpq \<Rightarrow> 'c try_env \<Rightarrow> cid \<Rightarrow> tx \<Rightarrow> 'c pool \<Rightarrow> (bool \<times> tx \<times> 'c pool) async" where
  "commit_on L e cid t p =
     (if tx_emulate t
      then bind_async (give_up_conn L (te_drain e)
             (t\<lparr>tx_committed := True, tx_rolled_back := False, tx_active := False\<rparr>) p)
             (\<lambda>tp. Finished (True, tp))
      else if in_failed_tx L (conn_at p cid)
      then bind_async (end_with L e ''ROLLBACK'' (t\<lparr>tx_last_commit_error := Some aborted_error\<rparr>) p)
             (\<lambda>tp. Finished (False, tp))
      else bind_async (exec_simple L ''COMMIT'' (te_wakes e) (conn_at p cid)) (\<lambda>(q, c, _).
             let p1 = set_conn cid c p;
                 t1 = t\<lparr>tx_active := False, tx_committed := qr_ok q, tx_rolled_back := \<not> qr_ok q,
                        tx_last_commit_error := (if qr_ok q then tx_last_commit_error t else Some (to_op_error q))\<rparr>
             in bind_async
                  (if is_fatal_connection_error q
                   then Finished (t1\<lparr>tx_conn := None\<rparr>, mark_dead (Some cid) p1)
                   else give_up_conn L (te_drain e) t1 p1)
                  (\<lambda>tp. Finished (qr_ok q, tp))))"

definition tx_commit ::
  "'c libpq \<Rightarrow> 'c try_env \<Rightarrow> tx \<Rightarrow> 'c pool \<Rightarrow> (bool \<times> tx \<times> 'c pool) async" where
  "tx_commit L e t p =
     (if \<not> tx_active t then Finished (False, t, p)
      else
        let t = t\<lparr>tx_last_commit_error := None\<rparr> in
        case (if tx_connected L t p then tx_conn t else None) of
          None \<Rightarrow>
            (case drop_connection (t\<lparr>tx_last_commit_error := Some \<lparr>oe_code = ConnectionClosed,
                 oe_error = ''connection lost in transaction'', oe_err_detail = no_detail\<rparr>\<rparr>) p of
               (t1, p1) \<Rightarrow> Finished (False, t1, p1))
        | Some cid \<Rightarrow> commit_on L e cid t p)"

definition tx_rollback where
  "tx_rollback L e t p = (if \<not> tx_active t then Finished (t, p) else end_with L e ''ROLLBACK'' t p)"

definition tx_abort where
  "tx_abort L e t p = (if \<not> tx_active t then Finished (t, p) else end_with L e ''ABORT'' t p)"

definition tx_finish :: "'c libpq \<Rightarrow> 'c try_env \<Rightarrow> tx \<Rightarrow> 'c pool \<Rightarrow> (tx \<times> 'c pool) async" where
  "tx_finish L e t p =
     (if tx_active t then end_with L e ''ROLLBACK'' t p
      else case tx_conn t of
          None \<Rightarrow> Finished (t, p)
        | Some cid \<Rightarrow> bind_async (release_connection_async L (te_drain e) (Some cid) p)
                        (\<lambda>(p1, _). Finished (t\<lparr>tx_conn := None\<rparr>, p1)))"


section \<open>Statements\<close>

definition not_active_result :: QueryResult where
  "not_active_result = empty_result\<lparr>qr_ok := False, qr_code := InvalidFuture, qr_error := ''transaction not active'',
     qr_rows_valid := False\<rparr>"

definition not_active_error :: PgOpError where
  "not_active_error = \<lparr>oe_code = InvalidFuture, oe_error = ''transaction not active'', oe_err_detail = no_detail\<rparr>"

definition not_active_copy :: PgCopyResult where
  "not_active_copy = empty_copy\<lparr>cr_ok := False, cr_code := InvalidFuture, cr_error := ''transaction not active''\<rparr>"

datatype Precheck = DropDeadConnection | KeepState

definition reacquire_for_transient_retry ::
  "'c libpq \<Rightarrow> PoolConfig \<Rightarrow> 'c try_env \<Rightarrow> nat \<Rightarrow> string \<Rightarrow> tx \<Rightarrow> 'c pool \<Rightarrow> (bool \<times> tx \<times> 'c pool) async" where
  "reacquire_for_transient_retry L cf e attempt sqlstate t p =
     (let t1 = t\<lparr>tx_conn := None\<rparr> in
      case transient_backoff cf attempt (Some sqlstate) (mark_dead (tx_conn t) p) of (_, p1) \<Rightarrow>
        if \<not> te_slept e then Finished (False, t1, p1)
        else bind_async (acquire_or_idle L cf e p1) (\<lambda>(r, p2).
          let t2 = t1\<lparr>tx_conn := (case r of Inl _ \<Rightarrow> None | Inr cid \<Rightarrow> Some cid)\<rparr> in
          if \<not> tx_connected L t2 p2 then (case drop_connection t2 p2 of (t3, p3) \<Rightarrow> Finished (False, t3, p3))
          else (case tx_conn t2 of
              None \<Rightarrow> Finished (True, t2, p2)
            | Some cid \<Rightarrow>
                Finished (True, t2,
                  if tx_io_deadline_ms t2 \<noteq> 0
                  then set_conn cid (set_io_deadline_ms (tx_io_deadline_ms t2) (conn_at p2 cid)) p2 else p2))))"

text \<open>\<^verbatim>\<open>run\<close>: try number \<open>attempt\<close>, the environment of its statement and of the reacquisition behind it first in the list.\<close>

fun tx_run ::
  "'c libpq \<Rightarrow> PoolConfig \<Rightarrow> Precheck \<Rightarrow> ('c \<Rightarrow> bool \<times> 'c) \<Rightarrow> 'c try_env list \<Rightarrow> nat \<Rightarrow> tx \<Rightarrow> 'c pool
    \<Rightarrow> (QueryResult \<times> tx \<times> 'c pool) async" where
  "tx_run L cf pre send [] attempt t p = Parked"
| "tx_run L cf pre send (e # es) attempt t p =
     (case (if tx_active t then tx_conn t else None) of
        None \<Rightarrow> Finished (not_active_result, t, p)
      | Some cid \<Rightarrow>
          if \<not> connected L (conn_at p cid)
          then (if pre = KeepState then Finished (not_active_result, t, p)
                else case drop_connection t p of (t1, p1) \<Rightarrow>
                  Finished (closed_result ''connection lost in transaction'', t1, p1))
          else bind_async (run_query L send (te_wakes e) (conn_at p cid)) (\<lambda>(q, c, _).
            let p1 = set_conn cid c p in
            if tx_emulate t \<and> is_transient_pooler_error q
               \<and> int attempt + 1 < transient_retry_attempts (cf_policy cf)
            then bind_async (reacquire_for_transient_retry L cf e attempt (ed_sqlstate (qr_err_detail q)) t p1)
                   (\<lambda>(again, t2, p2).
                      if again then tx_run L cf pre send es (Suc attempt) t2 p2 else Finished (q, t2, p2))
            else if is_fatal_connection_error q
            then (case drop_connection t p1 of (t2, p2) \<Rightarrow> Finished (q, t2, p2))
            else Finished (q, t, p1)))"

definition tx_query where
  "tx_query L cf send es t p = tx_run L cf DropDeadConnection send es 0 t p"

definition tx_query_reflect_expected where
  "tx_query_reflect_expected L cf X st send es t p =
     bind_async (tx_run L cf KeepState send es 0 t p) (\<lambda>(q, tp). Finished (AsExpectedRows X st q, tp))"

definition tx_query_reflect_expected_one where
  "tx_query_reflect_expected_one L cf X st send es t p =
     bind_async (tx_run L cf KeepState send es 0 t p) (\<lambda>(q, tp). Finished (AsExpectedOne X st q, tp))"

text \<open>The calls that go straight to the connection, with the value for an inactive transaction.\<close>

definition tx_direct ::
  "'c libpq \<Rightarrow> 'r \<Rightarrow> ('c conn \<Rightarrow> ('r \<times> 'c conn \<times> 'c wake list) async) \<Rightarrow> tx \<Rightarrow> 'c pool \<Rightarrow> ('r \<times> tx \<times> 'c pool) async" where
  "tx_direct L inactive f t p =
     (case (if tx_active t \<and> tx_connected L t p then tx_conn t else None) of
        None \<Rightarrow> Finished (inactive, t, p)
      | Some cid \<Rightarrow> bind_async (f (conn_at p cid)) (\<lambda>(r, c, _). Finished (r, t, set_conn cid c p)))"

definition tx_query_reflect where
  "tx_query_reflect L send e t p = tx_direct L not_active_result (run_query L send (te_wakes e)) t p"

definition tx_export_snapshot where
  "tx_export_snapshot L e t p = tx_direct L (Inl not_active_error) (export_snapshot L (te_wakes e)) t p"

definition tx_set_snapshot where
  "tx_set_snapshot L e snapshot_id t p =
     tx_direct L (Some not_active_error) (set_snapshot L snapshot_id (te_wakes e)) t p"

definition after_copy :: "PgCopyResult \<Rightarrow> tx \<Rightarrow> 'c pool \<Rightarrow> tx \<times> 'c pool" where
  "after_copy r t p =
     (if \<not> cr_ok r \<and> (cr_code r = SocketReadFailed \<or> cr_code r = ConnectionClosed) then drop_connection t p else (t, p))"

definition tx_copy ::
  "'c libpq \<Rightarrow> ('c conn \<Rightarrow> (PgCopyResult \<times> 's \<times> 'c conn \<times> 'c wake list) async) \<Rightarrow> 's \<Rightarrow> tx \<Rightarrow> 'c pool
    \<Rightarrow> (PgCopyResult \<times> 's \<times> tx \<times> 'c pool) async" where
  "tx_copy L copy s t p =
     (case (if tx_active t \<and> tx_connected L t p then tx_conn t else None) of
        None \<Rightarrow> Finished (not_active_copy, s, t, p)
      | Some cid \<Rightarrow>
          bind_async (copy (conn_at p cid)) (\<lambda>(r, s', c, _). Finished (r, s', after_copy r t (set_conn cid c p))))"

definition tx_copy_to where
  "tx_copy_to L e sql sink s t p = tx_copy L (copy_to L sql sink s (te_wakes e)) s t p"

definition tx_copy_to_lines where
  "tx_copy_to_lines L e sql sink s t p = tx_copy L (copy_to_lines L sql sink s (te_wakes e)) s t p"

definition tx_copy_from where
  "tx_copy_from L e sql src s t p = tx_copy L (with_unit (copy_from L sql src s) () (te_wakes e)) () t p"

definition tx_copy_from_buffer where
  "tx_copy_from_buffer L e sql d t p = tx_copy L (with_unit (copy_from_buffer L sql d) () (te_wakes e)) () t p"

section \<open>Savepoints\<close>

record subtx =
  sp_name :: string
  sp_active :: bool
  sp_committed :: bool
  sp_rolled_back :: bool

text \<open>\<^verbatim>\<open>make_subtx\<close> with the global counter \<^verbatim>\<open>g_subtx_id\<close>.\<close>

definition make_subtx :: "u64 \<Rightarrow> subtx \<times> u64" where
  "make_subtx g = (\<lparr>sp_name = ''uv_sp_'' @ show_nat (unat g), sp_active = False, sp_committed = False,
     sp_rolled_back = False\<rparr>, g + 1)"

definition run_control ::
  "'c libpq \<Rightarrow> 'c try_env \<Rightarrow> string \<Rightarrow> cid \<Rightarrow> tx \<Rightarrow> 'c pool \<Rightarrow> (bool \<times> tx \<times> 'c pool) async" where
  "run_control L e sql cid t p =
     bind_async (exec_simple L sql (te_wakes e) (conn_at p cid)) (\<lambda>(q, c, _).
       let p1 = set_conn cid c p in
       if \<not> qr_ok q \<and> is_fatal_connection_error q
       then (case drop_connection t p1 of (t1, p2) \<Rightarrow> Finished (qr_ok q, t1, p2))
       else Finished (qr_ok q, t, p1))"

definition subtx_begin ::
  "'c libpq \<Rightarrow> 'c try_env \<Rightarrow> subtx \<Rightarrow> tx \<Rightarrow> 'c pool \<Rightarrow> (bool \<times> subtx \<times> tx \<times> 'c pool) async" where
  "subtx_begin L e sp t p =
     (case (if tx_active t \<and> tx_connected L t p \<and> \<not> tx_emulate t then tx_conn t else None) of
        None \<Rightarrow> Finished (False, sp, t, p)
      | Some cid \<Rightarrow>
          bind_async (run_control L e (''SAVEPOINT '' @ sp_name sp) cid t p) (\<lambda>(ok, tp).
            if ok then Finished (True, sp\<lparr>sp_active := True, sp_committed := False, sp_rolled_back := False\<rparr>, tp)
            else Finished (False, sp, tp)))"

definition subtx_commit ::
  "'c libpq \<Rightarrow> 'c try_env \<Rightarrow> subtx \<Rightarrow> tx \<Rightarrow> 'c pool \<Rightarrow> (bool \<times> subtx \<times> tx \<times> 'c pool) async" where
  "subtx_commit L e sp t p =
     (if \<not> sp_active sp then Finished (False, sp, t, p)
      else case (if tx_connected L t p then tx_conn t else None) of
          None \<Rightarrow> Finished (False, sp\<lparr>sp_active := False, sp_committed := False, sp_rolled_back := True\<rparr>, t, p)
        | Some cid \<Rightarrow>
            if tx_emulate t then Finished (False, sp, t, p)
            else bind_async (run_control L e (''RELEASE SAVEPOINT '' @ sp_name sp) cid t p) (\<lambda>(ok, tp).
              Finished (ok, sp\<lparr>sp_active := False, sp_committed := ok, sp_rolled_back := \<not> ok\<rparr>, tp)))"

definition subtx_rollback ::
  "'c libpq \<Rightarrow> 'c try_env \<Rightarrow> subtx \<Rightarrow> tx \<Rightarrow> 'c pool \<Rightarrow> (subtx \<times> tx \<times> 'c pool) async" where
  "subtx_rollback L e sp t p =
     (if \<not> sp_active sp then Finished (sp, t, p)
      else
        let sp1 = sp\<lparr>sp_active := False, sp_committed := False, sp_rolled_back := True\<rparr> in
        case (if \<not> tx_emulate t \<and> tx_connected L t p then tx_conn t else None) of
          None \<Rightarrow> Finished (sp1, t, p)
        | Some cid \<Rightarrow>
            bind_async (run_control L e (''ROLLBACK TO SAVEPOINT '' @ sp_name sp) cid t p) (\<lambda>(_, tp). Finished (sp1, tp)))"

section \<open>Re-running a transaction\<close>

text \<open>What the body of \<^verbatim>\<open>run_tx\<close> ends with.\<close>

datatype 'r body_result = Returned 'r | BodyError PgOpError | Thrown string

text \<open>
  One attempt of \<^verbatim>\<open>run_tx\<close>: the environments of its \<^verbatim>\<open>begin\<close>, \<^verbatim>\<open>commit\<close> and \<^verbatim>\<open>finish\<close>, the body (user code working
  on transaction and pool), the clock at the retry decision and the backoff sleep.
\<close>

record ('c, 'r) tx_env =
  xe_begin :: "'c try_env list"
  xe_body :: "tx \<Rightarrow> 'c pool \<Rightarrow> ('r body_result \<times> tx \<times> 'c pool) async"
  xe_commit :: "'c try_env"
  xe_finish :: "'c try_env"
  xe_now :: u64
  xe_slept :: bool

definition is_acquire_failure :: "PgOpError \<Rightarrow> bool" where
  "is_acquire_failure e \<longleftrightarrow> oe_code e = ConnectionClosed \<and> oe_error e = ''failed to acquire connection from pool''"

text \<open>
  The attempt itself, up to the retry decision: done (with the value to return, the transaction destroyed), or
  failed with the error, whether at COMMIT, and the body's own error if that was it.
\<close>

datatype 'r attempt_end = Done "'r body_result" | FailedWith PgOpError bool "'r body_result option"

definition tx_attempt ::
  "'c libpq \<Rightarrow> PoolConfig \<Rightarrow> QueryOpts \<Rightarrow> PgTransactionConfig \<Rightarrow> ('c, 'r) tx_env \<Rightarrow> 'c pool
    \<Rightarrow> ('r attempt_end \<times> tx \<times> 'c pool) async" where
  "tx_attempt L cf opts cfg e p =
     (let t0 = new_tx cfg;
          t0 = (if qo_io_deadline_ms opts \<noteq> 0 then fst (tx_set_io_deadline_ms (qo_io_deadline_ms opts) t0 p) else t0);
          finish = (\<lambda>x (t, p). bind_async (tx_finish L (xe_finish e) t p) (\<lambda>tp. Finished (x, tp)))
      in bind_async (begin_errored L cf (xe_begin e) t0 p) (\<lambda>(err, t1, p1).
        case err of
          Some f \<Rightarrow> finish (FailedWith f False None) (t1, p1)
        | None \<Rightarrow>
            bind_async (xe_body e t1 p1) (\<lambda>(r, t2, p2).
              case r of
                Thrown x \<Rightarrow> finish (Done (Thrown x)) (t2, p2)
              | BodyError f \<Rightarrow> finish (FailedWith f False (Some r)) (t2, p2)
              | Returned v \<Rightarrow>
                  bind_async (tx_commit L (xe_commit e) t2 p2) (\<lambda>(ok, t3, p3).
                    if ok \<or> tx_committed t3 then Finished (Done r, t3, p3)
                    else finish (FailedWith (case tx_last_commit_error t3 of
                        Some f \<Rightarrow> f | None \<Rightarrow> not_active_error) True None) (t3, p3)))))"

fun run_tx ::
  "'c libpq \<Rightarrow> PoolConfig \<Rightarrow> QueryOpts \<Rightarrow> PgTransactionConfig \<Rightarrow> ('c, 'r) tx_env list \<Rightarrow> RetryBudget \<Rightarrow> 'c pool
    \<Rightarrow> ('r body_result \<times> 'c pool) async" where
  "run_tx L cf opts cfg [] b p = Parked"
| "run_tx L cf opts cfg (e # es) b p =
     bind_async (tx_attempt L cf opts cfg e p) (\<lambda>(x, t, p1).
       case x of
         Done r \<Rightarrow> Finished (r, destroy_tx t p1)
       | FailedWith f at_commit r \<Rightarrow>
           let cls = (if is_acquire_failure f then NoRetry else classify_retry_error f);
               scope = (if at_commit then ScopeTransactionCommit else ScopeTransaction);
               give_up = (\<lambda>p. Finished (case r of Some br \<Rightarrow> br | None \<Rightarrow> BodyError f, destroy_tx t p))
           in case next_retry_delay (cf_policy cf) (xe_now e) b cls scope of
                None \<Rightarrow> Stuck
              | Some (b', None) \<Rightarrow> give_up p1
              | Some (b', Some delay) \<Rightarrow>
                  let p2 = note_retry cf \<lparr>re_cls = cls, re_attempt = int (rb_attempt b') + 1, re_delay_ms = delay,
                             re_code = oe_code f, re_sqlstate = ed_sqlstate (oe_err_detail f), re_message = oe_error f,
                             re_db = [], re_user = [], re_in_transaction = True\<rparr> p1
                  in if delay = 0 \<or> xe_slept e then run_tx L cf opts cfg es (next_attempt b') (destroy_tx t p2)
                     else give_up p2)"


section \<open>Invariant\<close>

text \<open>
  At most one outcome, none while active, and an inactive transaction holds no connection: what it acquired is
  back in the pool or closed.
\<close>

definition tx_inv :: "tx \<Rightarrow> bool" where
  "tx_inv t \<longleftrightarrow> \<not> (tx_committed t \<and> tx_rolled_back t) \<and> (tx_active t \<longrightarrow> \<not> tx_committed t \<and> \<not> tx_rolled_back t)
     \<and> (tx_conn t \<noteq> None \<longrightarrow> tx_active t)"

text \<open>An ended transaction: inactive, without a connection.\<close>

definition tx_ended :: "tx \<Rightarrow> bool" where
  "tx_ended t \<longleftrightarrow> \<not> tx_active t \<and> tx_conn t = None"

lemma inv_new: "tx_inv (new_tx cfg)"
  by (simp add: tx_inv_def new_tx_def)

lemma inv_opened: "tx_inv (opened cid t)"
  by (simp add: tx_inv_def opened_def)

lemma inv_drop: "drop_connection t p = (t', p') \<Longrightarrow> tx_inv t' \<and> tx_ended t' \<and> tx_rolled_back t'"
  by (auto simp: drop_connection_def tx_inv_def tx_ended_def)

lemma give_up_conn_fields:
  "give_up_conn L ws t p = Finished (t', p') \<Longrightarrow> t' = t\<lparr>tx_conn := None\<rparr>"
  by (auto simp: give_up_conn_def release_now_def bind_eq_Finished split: option.splits if_splits)

lemma open_loop_inv:
  "open_loop L cf es attempt t p = Finished (err, t', p') \<Longrightarrow> tx_inv t \<Longrightarrow> \<not> tx_active t \<Longrightarrow>
   tx_inv t' \<and> tx_active t' = (err = None) \<and> (err = None \<longrightarrow> tx_conn t' \<noteq> None)"
proof (induction es arbitrary: attempt t p)
  case (Cons e es)
  obtain r p1 where a: "acquire_or_idle L cf e p = Finished (r, p1)"
    using Cons.prems(1) by (auto simp: bind_eq_Finished)
  show ?case
  proof (cases r)
    case (Inl err')
    with Cons.prems a show ?thesis by (auto simp: tx_inv_def)
  next
    case (Inr cid)
    let ?c = "if tx_io_deadline_ms t \<noteq> 0 then set_io_deadline_ms (tx_io_deadline_ms t) (conn_at p1 cid) else conn_at p1 cid"
    show ?thesis
    proof (cases "\<not> connected L (conn_at p1 cid) \<or> tx_emulate t")
      case True
      with Cons.prems a Inr show ?thesis
        by (auto simp: tx_inv_def opened_def Let_def split: if_splits)
    next
      case False
      then obtain q c' ws' where q: "exec_simple L (tx_begin_sql t) (te_wakes e) ?c = Finished (q, c', ws')"
        using Cons.prems(1) a Inr by (auto simp: bind_eq_Finished Let_def split: if_splits)
      show ?thesis
      proof (cases "qr_ok q")
        case True
        with Cons.prems a Inr False q show ?thesis by (auto simp: opened_def tx_inv_def Let_def)
      next
        case nok: False
        let ?p3 = "mark_dead (Some cid) (set_conn cid c' p1)"
        obtain d p4 where bo: "transient_backoff cf attempt (Some (ed_sqlstate (qr_err_detail q))) ?p3 = (d, p4)" by fastforce
        show ?thesis
        proof (cases "is_transient_pooler_error q \<and> int attempt + 1 < transient_retry_attempts (cf_policy cf) \<and> te_slept e")
          case True
          with Cons.prems(1) a Inr False q nok bo have "open_loop L cf es (Suc attempt) (t\<lparr>tx_conn := None\<rparr>) p4 = Finished (err, t', p')"
            by (simp add: Let_def)
          moreover have "tx_inv (t\<lparr>tx_conn := None\<rparr>)" using Cons.prems(2) by (simp add: tx_inv_def)
          ultimately show ?thesis
            using Cons.IH [of "Suc attempt" "t\<lparr>tx_conn := None\<rparr>" p4] Cons.prems(3) by simp
        next
          case nr: False
          with Cons.prems a Inr False q nok bo show ?thesis
            by (auto simp: tx_inv_def Let_def split: if_splits)
        qed
      qed
    qed
  qed
qed simp

lemma end_with_ended:
  assumes "end_with L e sql t p = Finished (t', p')"
  shows "tx_ended t' \<and> tx_inv t' \<and> tx_rolled_back t' \<and> tx_last_commit_error t' = tx_last_commit_error t"
proof -
  from assms obtain t1 p1 where t1: "t1 = t \<or> t1 = t\<lparr>tx_conn := None\<rparr>"
    and g: "give_up_conn L (te_drain e) (t1\<lparr>tx_committed := False, tx_rolled_back := True, tx_active := False\<rparr>) p1
       = Finished (t', p')"
    by (auto simp: end_with_def bind_eq_Finished Let_def split: if_splits option.splits)
  from give_up_conn_fields [OF g] t1 show ?thesis by (auto simp: tx_ended_def tx_inv_def)
qed

lemma commit_on_outcome:
  assumes "commit_on L e cid t p = Finished (ok, t', p')" "tx_last_commit_error t = None"
  shows "tx_ended t' \<and> tx_inv t' \<and> tx_committed t' = ok \<and> tx_rolled_back t' = (\<not> ok)
     \<and> (tx_last_commit_error t' = None \<longleftrightarrow> ok)
     \<and> (ok \<and> \<not> tx_emulate t \<longrightarrow> \<not> in_failed_tx L (conn_at p cid)
          \<and> (\<exists>q c ws. exec_simple L ''COMMIT'' (te_wakes e) (conn_at p cid) = Finished (q, c, ws) \<and> qr_ok q))"
proof -
  consider (emulated) "tx_emulate t" | (failed) "\<not> tx_emulate t" "in_failed_tx L (conn_at p cid)"
    | (real) "\<not> tx_emulate t" "\<not> in_failed_tx L (conn_at p cid)" by blast
  then show ?thesis
  proof cases
    case emulated
    with assms(1) have "ok" "give_up_conn L (te_drain e)
        (t\<lparr>tx_committed := True, tx_rolled_back := False, tx_active := False\<rparr>) p = Finished (t', p')"
      by (auto simp: commit_on_def bind_eq_Finished)
    with give_up_conn_fields [OF this(2)] emulated assms(2) show ?thesis by (simp add: tx_ended_def tx_inv_def)
  next
    case failed
    with assms(1) have "\<not> ok" "end_with L e ''ROLLBACK'' (t\<lparr>tx_last_commit_error := Some aborted_error\<rparr>) p = Finished (t', p')"
      by (auto simp: commit_on_def bind_eq_Finished)
    with end_with_ended [OF this(2)] show ?thesis by (auto simp: tx_inv_def)
  next
    case real
    with assms(1) obtain q c ws where q: "exec_simple L ''COMMIT'' (te_wakes e) (conn_at p cid) = Finished (q, c, ws)"
      by (auto simp: commit_on_def bind_eq_Finished)
    with assms(1) real have ok: "ok = qr_ok q" by (auto simp: commit_on_def bind_eq_Finished Let_def)
    from assms q real have "t' = t\<lparr>tx_active := False, tx_committed := ok, tx_rolled_back := \<not> ok,
        tx_last_commit_error := (if ok then None else Some (to_op_error q)), tx_conn := None\<rparr>"
      by (auto simp: commit_on_def bind_eq_Finished Let_def split: if_splits dest: give_up_conn_fields)
    with q ok real show ?thesis by (auto simp: tx_ended_def tx_inv_def)
  qed
qed

lemma commit_outcome:
  assumes "tx_commit L e t p = Finished (ok, t', p')" "tx_active t"
  shows "tx_ended t' \<and> tx_inv t' \<and> tx_committed t' = ok \<and> tx_rolled_back t' = (\<not> ok)
     \<and> (tx_last_commit_error t' = None \<longleftrightarrow> ok)
     \<and> (ok \<longrightarrow> (\<exists>cid. tx_conn t = Some cid \<and> connected L (conn_at p cid) \<and> (\<not> tx_emulate t \<longrightarrow> \<not> in_failed_tx L (conn_at p cid)
          \<and> (\<exists>q c ws. exec_simple L ''COMMIT'' (te_wakes e) (conn_at p cid) = Finished (q, c, ws) \<and> qr_ok q))))"
proof (cases "if tx_connected L t p then tx_conn t else None")
  case None
  then show ?thesis
    using assms by (auto simp: tx_commit_def Let_def drop_connection_def tx_ended_def tx_inv_def tx_connected_def split: if_splits)
next
  case (Some cid)
  then have cid: "tx_conn t = Some cid" "connected L (conn_at p cid)"
    by (auto simp: tx_connected_def split: if_splits)
  have "commit_on L e cid (t\<lparr>tx_last_commit_error := None\<rparr>) p = Finished (ok, t', p')"
    using assms cid by (simp add: tx_commit_def Let_def tx_connected_def)
  from commit_on_outcome [OF this] cid show ?thesis by simp
qed

lemma finish_ended:
  "tx_finish L e t p = Finished (t', p') \<Longrightarrow> tx_inv t \<Longrightarrow> tx_ended t' \<and> tx_inv t' \<and> tx_committed t' = tx_committed t"
  using end_with_ended [of L e "''ROLLBACK''" t p t' p']
  by (auto simp: tx_finish_def bind_eq_Finished tx_ended_def tx_inv_def split: if_splits option.splits)

lemma reacquire_inv:
  assumes "reacquire_for_transient_retry L cf e attempt st t p = Finished (again, t', p')" "tx_inv t" "tx_active t"
  shows "tx_inv t' \<and> (again \<longrightarrow> tx_active t' \<and> tx_conn t' \<noteq> None)"
  using assms
  by (auto simp: reacquire_for_transient_retry_def bind_eq_Finished Let_def drop_connection_def tx_inv_def
      tx_connected_def split: prod.splits sum.splits option.splits if_splits)

lemma tx_run_inv:
  "tx_run L cf pre send es attempt t p = Finished (q, t', p') \<Longrightarrow> tx_inv t \<Longrightarrow> tx_inv t'"
proof (induction es arbitrary: attempt t p)
  case (Cons e es)
  show ?case
  proof (cases "if tx_active t then tx_conn t else None")
    case None
    with Cons.prems show ?thesis by auto
  next
    case (Some cid)
    then have act: "tx_active t" by (auto split: if_splits)
    show ?thesis
    proof (cases "connected L (conn_at p cid)")
      case False
      with Cons.prems Some show ?thesis by (auto split: if_splits prod.splits dest: inv_drop)
    next
      case True
      then obtain q1 c ws where q1: "run_query L send (te_wakes e) (conn_at p cid) = Finished (q1, c, ws)"
        using Cons.prems(1) Some by (auto simp: bind_eq_Finished)
      show ?thesis
      proof (cases "tx_emulate t \<and> is_transient_pooler_error q1 \<and> int attempt + 1 < transient_retry_attempts (cf_policy cf)")
        case tr: True
        then obtain again t2 p2 where r: "reacquire_for_transient_retry L cf e attempt (ed_sqlstate (qr_err_detail q1)) t
            (set_conn cid c p) = Finished (again, t2, p2)"
          and nx: "if again then tx_run L cf pre send es (Suc attempt) t2 p2 = Finished (q, t', p') else t' = t2"
          using Cons.prems(1) Some True q1 by (auto simp: bind_eq_Finished Let_def split: if_splits)
        from reacquire_inv [OF r Cons.prems(2) act] nx Cons.IH [of "Suc attempt" t2 p2] show ?thesis
          by (auto split: if_splits)
      next
        case False
        with Cons.prems Some True q1 show ?thesis
          by (auto simp: Let_def split: if_splits prod.splits dest: inv_drop)
      qed
    qed
  qed
qed simp


section \<open>The transaction as a state machine\<close>

text \<open>
  Every operation of \<^verbatim>\<open>PgTransaction\<close> and of a savepoint in it, on transaction and pool. What the direct calls and
  the COPY calls do to the connection is left open.
\<close>

inductive tx_step :: "'c libpq \<Rightarrow> PoolConfig \<Rightarrow> tx \<times> 'c pool \<Rightarrow> tx \<times> 'c pool \<Rightarrow> bool" for L cf where
  st_begin: "begin_errored L cf es t p = Finished (err, tp) \<Longrightarrow> tx_step L cf (t, p) tp"
| st_run: "tx_run L cf pre send es 0 t p = Finished (q, tp) \<Longrightarrow> tx_step L cf (t, p) tp"
| st_direct: "tx_conn t = Some cid \<Longrightarrow> tx_step L cf (t, p) (t, set_conn cid c p)"
| st_copy: "tx_conn t = Some cid \<Longrightarrow> after_copy r t (set_conn cid c p) = tp \<Longrightarrow> tx_step L cf (t, p) tp"
| st_control: "tx_active t \<Longrightarrow> run_control L e sql cid t p = Finished (ok, tp) \<Longrightarrow> tx_step L cf (t, p) tp"
| st_deadline: "tx_set_io_deadline_ms ms t p = tp \<Longrightarrow> tx_step L cf (t, p) tp"
| st_commit: "tx_commit L e t p = Finished (ok, tp) \<Longrightarrow> tx_step L cf (t, p) tp"
| st_rollback: "tx_rollback L e t p = Finished tp \<Longrightarrow> tx_step L cf (t, p) tp"
| st_abort: "tx_abort L e t p = Finished tp \<Longrightarrow> tx_step L cf (t, p) tp"
| st_finish: "tx_finish L e t p = Finished tp \<Longrightarrow> tx_step L cf (t, p) tp"

lemma tx_direct_steps: "tx_direct L inactive f t p = Finished (r, tp) \<Longrightarrow> tp = (t, p) \<or> tx_step L cf (t, p) tp"
  by (auto simp: tx_direct_def bind_eq_Finished intro!: st_direct split: option.splits if_splits)

lemma tx_copy_steps: "tx_copy L copy s t p = Finished (r, s', tp) \<Longrightarrow> tp = (t, p) \<or> tx_step L cf (t, p) tp"
  by (auto simp: tx_copy_def bind_eq_Finished intro!: st_copy split: option.splits if_splits)

lemma begin_inv:
  "begin_errored L cf es t p = Finished (err, t', p') \<Longrightarrow> tx_inv t \<Longrightarrow> tx_inv t' \<and> (err = None \<longrightarrow> tx_active t')"
  using open_loop_inv [of L cf es 0 t p err t' p'] by (auto simp: begin_errored_def tx_open_def split: if_splits)

lemma tx_step_inv: "tx_step L cf x y \<Longrightarrow> tx_inv (fst x) \<Longrightarrow> tx_inv (fst y)"
proof (induction rule: tx_step.induct)
  case (st_begin es t p err tp)
  then show ?case using begin_inv [of L cf es t p err "fst tp" "snd tp"] by simp
next
  case (st_run pre send es t p q tp)
  then show ?case using tx_run_inv [of L cf pre send es 0 t p q "fst tp" "snd tp"] by simp
next
  case (st_direct t cid p c)
  then show ?case by simp
next
  case (st_copy t cid r c p tp)
  then show ?case by (auto simp: after_copy_def drop_connection_def tx_inv_def split: if_splits)
next
  case (st_control t e sql cid p ok tp)
  then show ?case
    by (auto simp: run_control_def bind_eq_Finished drop_connection_def tx_inv_def Let_def split: if_splits)
next
  case (st_deadline ms t p tp)
  then show ?case by (auto simp: tx_set_io_deadline_ms_def tx_inv_def)
next
  case (st_commit e t p ok tp)
  then show ?case
    using commit_outcome [of L e t p ok "fst tp" "snd tp"] by (cases "tx_active t") (auto simp: tx_commit_def)
next
  case (st_rollback e t p tp)
  then show ?case
    using end_with_ended [of L e "''ROLLBACK''" t p "fst tp" "snd tp"] by (auto simp: tx_rollback_def split: if_splits)
next
  case (st_abort e t p tp)
  then show ?case
    using end_with_ended [of L e "''ABORT''" t p "fst tp" "snd tp"] by (auto simp: tx_abort_def split: if_splits)
next
  case (st_finish e t p tp)
  then show ?case using finish_ended [of L e t p "fst tp" "snd tp"] by simp
qed

interpretation tx_sys: inv_system "\<lambda>x. \<exists>cfg p. x = (new_tx cfg, p)" "tx_step L cf" "\<lambda>x. tx_inv (fst x)" for L cf
  by unfold_locales (auto simp: inv_new intro: tx_step_inv)

section \<open>Progress\<close>

lemma exec_simple_live:
  "finite_results L m \<Longrightarrow> list_ex interrupts ws \<Longrightarrow> \<exists>q c' ws'. exec_simple L sql ws c = Finished (q, c', ws')"
  unfolding exec_simple_def by (rule run_query_live)

lemma give_up_conn_live:
  assumes "drains L m" "list_ex interrupts ws"
  shows "\<exists>t' p'. give_up_conn L ws t p = Finished (t', p')"
proof -
  obtain ok t1 p1 where r: "release_now L t p = (ok, t1, p1)" by (rule prod_cases3)
  obtain p2 ws2 where "release_connection_async L ws (tx_conn t1) p1 = Finished (p2, ws2)"
    using release_connection_async_live [OF assms] by (metis prod.collapse)
  with r show ?thesis by (simp add: give_up_conn_def)
qed

lemma end_with_live:
  assumes "drains L m" "env_ends cf e"
  shows "\<exists>t' p'. end_with L e sql t p = Finished (t', p')"
proof -
  have w: "list_ex interrupts (te_wakes e)" "list_ex interrupts (te_drain e)" using assms(2) by (simp_all add: env_ends_def)
  show ?thesis
  proof (cases "\<not> tx_emulate t \<and> tx_connected L t p")
    case False
    then show ?thesis using give_up_conn_live [OF assms(1) w(2)] by (auto simp: end_with_def)
  next
    case True
    then obtain cid where cid: "tx_conn t = Some cid" by (auto simp: tx_connected_def split: option.splits)
    obtain q c ws where q: "exec_simple L sql (te_wakes e) (conn_at p cid) = Finished (q, c, ws)"
      using exec_simple_live [OF drains_finite [OF assms(1)] w(1)] by metis
    show ?thesis
      using True cid q give_up_conn_live [OF assms(1) w(2)] by (simp add: end_with_def Let_def)
  qed
qed

lemma commit_live:
  assumes "drains L m" "env_ends cf e"
  shows "\<exists>ok t' p'. tx_commit L e t p = Finished (ok, t', p')"
proof -
  have w: "list_ex interrupts (te_wakes e)" "list_ex interrupts (te_drain e)" using assms(2) by (simp_all add: env_ends_def)
  have on: "\<exists>ok t' p'. commit_on L e cid t p = Finished (ok, t', p')" for cid t
  proof -
    obtain q c ws where q: "exec_simple L ''COMMIT'' (te_wakes e) (conn_at p cid) = Finished (q, c, ws)"
      using exec_simple_live [OF drains_finite [OF assms(1)] w(1)] by metis
    obtain t1 p1 where e: "end_with L e ''ROLLBACK'' (t\<lparr>tx_last_commit_error := Some aborted_error\<rparr>) p = Finished (t1, p1)"
      using end_with_live [OF assms] by metis
    have g: "\<exists>x y. give_up_conn L (te_drain e) t' p' = Finished (x, y)" for t' p'
      by (rule give_up_conn_live [OF assms(1) w(2)])
    show ?thesis
      using q e g [of "t\<lparr>tx_committed := True, tx_rolled_back := False, tx_active := False\<rparr>" p]
        g [of "t\<lparr>tx_active := False, tx_committed := qr_ok q, tx_rolled_back := \<not> qr_ok q,
             tx_last_commit_error := (if qr_ok q then tx_last_commit_error t else Some (to_op_error q))\<rparr>" "set_conn cid c p"]
      by (auto simp: commit_on_def Let_def)
  qed
  then show ?thesis by (auto simp: tx_commit_def Let_def split: option.split prod.split)
qed

lemma finish_live:
  assumes "drains L m" "env_ends cf e"
  shows "\<exists>t' p'. tx_finish L e t p = Finished (t', p')"
proof -
  have w: "list_ex interrupts (te_drain e)" using assms(2) by (simp add: env_ends_def)
  show ?thesis
  proof (cases "tx_active t")
    case True
    then show ?thesis using end_with_live [OF assms] by (simp add: tx_finish_def)
  next
    case False
    obtain p' ws' where "release_connection_async L (te_drain e) (tx_conn t) p = Finished (p', ws')"
      using release_connection_async_live [OF assms(1) w] by (metis prod.collapse)
    with False show ?thesis by (cases "tx_conn t") (simp_all add: tx_finish_def)
  qed
qed

lemma open_loop_live:
  "drains L m \<Longrightarrow> list_all (env_ends cf) es \<Longrightarrow> es \<noteq> [] \<Longrightarrow>
   transient_retry_attempts (cf_policy cf) \<le> int attempt + int (length es) \<Longrightarrow>
   \<exists>err t' p'. open_loop L cf es attempt t p = Finished (err, t', p')"
proof (induction es arbitrary: attempt t p)
  case (Cons e es)
  then have e: "env_ends cf e" and w: "list_ex interrupts (te_wakes e)" by (simp_all add: env_ends_def)
  obtain r p1 where a: "acquire_or_idle L cf e p = Finished (r, p1)" using acquire_or_idle_live [OF e] by metis
  show ?case
  proof (cases r)
    case (Inl err)
    with a show ?thesis by simp
  next
    case (Inr cid)
    let ?c = "if tx_io_deadline_ms t \<noteq> 0 then set_io_deadline_ms (tx_io_deadline_ms t) (conn_at p1 cid) else conn_at p1 cid"
    obtain q c ws where q: "exec_simple L (tx_begin_sql t) (te_wakes e) ?c = Finished (q, c, ws)"
      using exec_simple_live [OF drains_finite [OF Cons.prems(1)] w] by metis
    obtain d p4 where bo: "transient_backoff cf attempt (Some (ed_sqlstate (qr_err_detail q)))
        (mark_dead (Some cid) (set_conn cid c p1)) = (d, p4)" by fastforce
    have again: "\<exists>err t' p'. open_loop L cf es (Suc attempt) (t\<lparr>tx_conn := None\<rparr>) p4 = Finished (err, t', p')"
      if "int attempt + 1 < transient_retry_attempts (cf_policy cf)"
      using Cons.IH [of "Suc attempt"] Cons.prems that by (cases es) auto
    show ?thesis
      using a Inr q bo again by (auto simp: Let_def)
  qed
qed simp

text \<open>An environment of \<^verbatim>\<open>run_tx\<close> in which nothing hangs, the body included.\<close>

definition tx_env_ends :: "PoolConfig \<Rightarrow> ('c, 'r) tx_env \<Rightarrow> bool" where
  "tx_env_ends cf e \<longleftrightarrow>
     list_all (env_ends cf) (xe_begin e) \<and> xe_begin e \<noteq> []
     \<and> transient_retry_attempts (cf_policy cf) \<le> int (length (xe_begin e))
     \<and> env_ends cf (xe_commit e) \<and> env_ends cf (xe_finish e)
     \<and> (\<forall>t p. \<exists>r. xe_body e t p = Finished r)"

lemma tx_attempt_live:
  assumes "drains L m" "tx_env_ends cf e"
  shows "\<exists>x t p'. tx_attempt L cf opts cfg e p = Finished (x, t, p')"
proof -
  have fin: "\<exists>t' p'. tx_finish L (xe_finish e) t p = Finished (t', p')" for t p
    using finish_live [OF assms(1)] assms(2) by (metis tx_env_ends_def)
  have com: "\<exists>ok t' p'. tx_commit L (xe_commit e) t p = Finished (ok, t', p')" for t p
    using commit_live [OF assms(1)] assms(2) by (metis tx_env_ends_def)
  let ?t0 = "if qo_io_deadline_ms opts \<noteq> 0 then fst (tx_set_io_deadline_ms (qo_io_deadline_ms opts) (new_tx cfg) p) else new_tx cfg"
  have na: "\<not> tx_active ?t0" by (simp add: new_tx_def tx_set_io_deadline_ms_def)
  have "\<exists>err t' p'. open_loop L cf (xe_begin e) 0 ?t0 p = Finished (err, t', p')"
    using assms(2) by (intro open_loop_live [OF assms(1)]) (simp_all add: tx_env_ends_def)
  then obtain err t1 p1 where b: "begin_errored L cf (xe_begin e) ?t0 p = Finished (err, t1, p1)"
    unfolding begin_errored_def tx_open_def using na by metis
  obtain r t2 p2 where r: "xe_body e t1 p1 = Finished (r, t2, p2)"
    using assms(2) by (metis tx_env_ends_def prod_cases3)
  obtain ok t3 p3 where c: "tx_commit L (xe_commit e) t2 p2 = Finished (ok, t3, p3)" using com by metis
  show ?thesis
    using b r c fin [of t1 p1] fin [of t2 p2] fin [of t3 p3]
    by (cases err; cases r) (auto simp: tx_attempt_def Let_def)
qed

lemma run_tx_live:
  "drains L m \<Longrightarrow> transient_retry_attempts (cf_policy cf) \<le> 33 \<Longrightarrow> list_all (tx_env_ends cf) es \<Longrightarrow>
   retries_left (cf_policy cf) b < length es \<Longrightarrow> \<exists>r p'. run_tx L cf opts cfg es b p = Finished (r, p')"
proof (induction es arbitrary: b p)
  case (Cons e es)
  obtain x t p1 where a: "tx_attempt L cf opts cfg e p = Finished (x, t, p1)"
    using tx_attempt_live [OF Cons.prems(1)] Cons.prems(3) by (metis list.pred_inject(2))
  show ?case
  proof (cases x)
    case (Done r)
    with a show ?thesis by simp
  next
    case (FailedWith f at_commit r)
    define cls where "cls = (if is_acquire_failure f then NoRetry else classify_retry_error f)"
    define scope where "scope = (if at_commit then ScopeTransactionCommit else ScopeTransaction)"
    obtain b' d where n: "next_retry_delay (cf_policy cf) (xe_now e) b cls scope = Some (b', d)"
      using next_retry_delay_defined [OF Cons.prems(2)] by (metis not_None_eq surj_pair)
    have again: "\<exists>r p'. run_tx L cf opts cfg es (next_attempt b') p2 = Finished (r, p')" if "d = Some delay" for delay p2
      using Cons.IH [of "next_attempt b'" p2] next_retry_delay_decreases [of "cf_policy cf" "xe_now e" b cls scope b' delay]
        n that Cons.prems by simp
    show ?thesis
      using a FailedWith n again by (cases d) (auto simp: Let_def cls_def scope_def)
  qed
qed simp

section \<open>Properties\<close>

text \<open>C5: whatever operations a transaction object goes through, in any order and against any server behaviour, it
  is never both committed and rolled back, shows no outcome while active, and holds a connection only while
  active: no operation leaks the connection.\<close>

theorem tx_reachable_inv:
  assumes "(tx_step L cf)\<^sup>*\<^sup>* (new_tx cfg, p) (t, p')"
  shows "\<not> (tx_committed t \<and> tx_rolled_back t) \<and> (tx_active t \<longrightarrow> \<not> tx_committed t \<and> \<not> tx_rolled_back t)
    \<and> (tx_conn t \<noteq> None \<longrightarrow> tx_active t)"
  using tx_sys.reachable_inv [OF _ assms] by (auto simp: tx_inv_def)

definition plain_tx :: PgTransactionConfig where
  "plain_tx = \<lparr>tc_isolation = IsoDefault, tc_read_only = False, tc_deferrable = False, tc_force_real_begin = False\<rparr>"

theorem tx_reachable_inv_witness:
  "(tx_step list_libpq sample_config)\<^sup>*\<^sup>* (new_tx plain_tx, new_pool 1 1)
      ((new_tx plain_tx)\<lparr>tx_io_deadline_ms := 100\<rparr>, new_pool 1 1)
   \<and> tx_conn ((new_tx plain_tx)\<lparr>tx_io_deadline_ms := 100\<rparr>) = None"
proof -
  have r: "(tx_step list_libpq sample_config)\<^sup>*\<^sup>* (new_tx plain_tx, new_pool 1 1)
      ((new_tx plain_tx)\<lparr>tx_io_deadline_ms := 100\<rparr>, new_pool 1 1)"
    by (rule r_into_rtranclp, rule st_deadline [where ms = 100]) (simp add: tx_set_io_deadline_ms_def new_tx_def)
  from tx_reachable_inv [OF r] have "tx_conn ((new_tx plain_tx)\<lparr>tx_io_deadline_ms := 100\<rparr>) = None"
    by (simp add: new_tx_def)
  with r show ?thesis by simp
qed




definition sample_tx_env :: "(pg_result list, nat) tx_env" where
  "sample_tx_env = \<lparr>xe_begin = replicate 3 cancelling_env, xe_body = (\<lambda>t p. Finished (Returned 7, t, p)),
     xe_commit = cancelling_env, xe_finish = cancelling_env, xe_now = 0, xe_slept = True\<rparr>"

lemma cancelling_env_ends: "env_ends sample_config cancelling_env"
  by (simp add: env_ends_def sample_config_def cancelling_env_def interrupts_def)

lemma list_libpq_drains: "drains list_libpq length"
  by (auto simp: drains_def list_libpq_def split: list.splits)


lemma tx_attempt_done:
  assumes "tx_attempt L cf opts cfg e p = Finished (x, t, p1)"
  shows "x = Done (Returned v) \<Longrightarrow> tx_committed t" and "x = FailedWith f c (Some br) \<Longrightarrow> br = BodyError f \<and> \<not> c"
proof -
  have com: "tx_commit L (xe_commit e) t2 p2 = Finished (ok, t3, p3) \<Longrightarrow> ok \<Longrightarrow> tx_committed t3" for t2 p2 ok t3 p3
    using commit_outcome [of L "xe_commit e" t2 p2 ok t3 p3] by (cases "tx_active t2") (auto simp: tx_commit_def)
  show "x = Done (Returned v) \<Longrightarrow> tx_committed t"
    using assms com
    by (auto simp: tx_attempt_def Let_def bind_eq_Finished split: option.splits body_result.splits if_splits prod.splits)
       (metis body_result.exhaust)+
  show "x = FailedWith f c (Some br) \<Longrightarrow> br = BodyError f \<and> \<not> c"
    using assms
    by (auto simp: tx_attempt_def Let_def bind_eq_Finished split: option.splits body_result.splits if_splits prod.splits)
       (metis body_result.exhaust)+
qed

lemma run_tx_returned:
  "run_tx L cf opts cfg es b p = Finished (Returned v, p') \<Longrightarrow>
   \<exists>e \<in> set es. \<exists>p0 t p1. tx_attempt L cf opts cfg e p0 = Finished (Done (Returned v), t, p1) \<and> tx_committed t"
proof (induction es arbitrary: b p)
  case (Cons e es)
  obtain x t p1 where a: "tx_attempt L cf opts cfg e p = Finished (x, t, p1)"
    using Cons.prems by (auto simp: bind_eq_Finished)
  show ?case
  proof (cases x)
    case (Done r)
    with Cons.prems a tx_attempt_done(1) [OF a] show ?thesis by auto
  next
    case (FailedWith f at_commit r)
    have "(case r of Some br \<Rightarrow> br | None \<Rightarrow> BodyError f) \<noteq> Returned v"
      using tx_attempt_done(2) [OF a] FailedWith by (cases r) auto
    with Cons.prems a FailedWith obtain b' p2 where "run_tx L cf opts cfg es b' p2 = Finished (Returned v, p')"
      by (auto simp: Let_def split: option.splits prod.splits if_splits)
    from Cons.IH [OF this] show ?thesis by auto
  qed
qed simp

text \<open>C7: \<^verbatim>\<open>run_tx\<close> hands out the value of its body only from an attempt whose transaction is committed, and after
  an attempt whose COMMIT was lost or timed out, so that it may or may not have happened, it returns that error
  without running the body again, unless the caller declared the transaction idempotent.\<close>

theorem run_tx_commits_once:
  assumes "run_tx L cf opts cfg es b p = Finished (r, p')"
  shows "(\<forall>v. r = Returned v \<longrightarrow> (\<exists>e \<in> set es. \<exists>p0 t p1.
            tx_attempt L cf opts cfg e p0 = Finished (Done r, t, p1) \<and> tx_committed t))
    \<and> (\<forall>e es' f t p1 fr. es = e # es' \<longrightarrow> tx_attempt L cf opts cfg e p = Finished (FailedWith f True fr, t, p1) \<longrightarrow>
         \<not> is_acquire_failure f \<longrightarrow> classify_retry_error f \<in> {ConnectionLost, Deadline} \<longrightarrow>
         \<not> qo_idempotent (rb_opts b) \<longrightarrow> r = (case fr of Some br \<Rightarrow> br | None \<Rightarrow> BodyError f) \<and> p' = destroy_tx t p1)"
proof (intro conjI allI impI)
  fix v assume "r = Returned v"
  with run_tx_returned [of L cf opts cfg es b p v p'] assms show "\<exists>e \<in> set es. \<exists>p0 t p1.
      tx_attempt L cf opts cfg e p0 = Finished (Done r, t, p1) \<and> tx_committed t" by simp
next
  fix e es' f t p1 fr
  assume es: "es = e # es'" and a: "tx_attempt L cf opts cfg e p = Finished (FailedWith f True fr, t, p1)"
    and cls: "\<not> is_acquire_failure f" "classify_retry_error f \<in> {ConnectionLost, Deadline}" "\<not> qo_idempotent (rb_opts b)"
  have "\<not> retry_allowed (rb_opts b) (classify_retry_error f) ScopeTransactionCommit"
    using cls(2,3) by (auto simp: retry_allowed_def)
  then have "next_retry_delay (cf_policy cf) (xe_now e) b (classify_retry_error f) ScopeTransactionCommit = Some (b, None)"
    by (simp add: next_retry_delay_def)
  with assms es a cls(1) show "r = (case fr of Some br \<Rightarrow> br | None \<Rightarrow> BodyError f)" "p' = destroy_tx t p1"
    by (auto simp: Let_def)
qed

definition connect_pool :: "pg_result list pool" where
  "connect_pool = (new_pool 1 1)\<lparr>pl_conns := [open_conn []], pl_idle := [0], pl_live_count := 1\<rparr>"

theorem run_tx_commits_once_witness:
  "\<exists>p'. run_tx list_libpq sample_config default_opts plain_tx [sample_tx_env] (new_budget default_opts 0) connect_pool
      = Finished (Returned 7, p')
   \<and> (\<exists>p0 t p1. tx_attempt list_libpq sample_config default_opts plain_tx sample_tx_env p0
        = Finished (Done (Returned 7), t, p1) \<and> tx_committed t)"
proof -
  let ?r = "run_tx list_libpq sample_config default_opts plain_tx [sample_tx_env] (new_budget default_opts 0) connect_pool"
  let ?p = "bump st_alive_update (bump st_checked_update (connect_pool\<lparr>pl_idle := []\<rparr>))"
  have idle: "connected list_libpq (open_conn [])" "is_idle list_libpq (open_conn [])"
    "idle_socket_alive list_libpq (open_conn []) = (True, open_conn [])"
    by (simp_all add: is_idle_def connected_def open_conn_def new_conn_def list_libpq_def idle_socket_alive_def numeral_nat)
  have acq: "acquire_or_idle list_libpq sample_config cancelling_env connect_pool = Finished (Inr 0, ?p)"
    using idle by (simp add: acquire_or_idle_def take_idle.simps check_idle_def connect_pool_def new_pool_def bump_def
        conn_at_def set_conn_def Let_def)
  have at0: "conn_at ?p 0 = open_conn []" by (simp add: conn_at_def connect_pool_def bump_def)
  have ex: "exec_simple list_libpq sql (te_wakes cancelling_env) (open_conn []) = Finished (fresh_result, open_conn [], te_wakes cancelling_env)" for sql
    using idle(1) by (simp add: exec_simple_def run_query_def open_conn_def new_conn_def list_libpq_def flush_loop.simps
        collect_loop.simps flush_step_def collect_step_def collect_results.simps fresh_result_def empty_result_def
        after_wait_def drop_rows_def Let_def)
  have qok: "qr_ok fresh_result" "\<not> is_fatal_connection_error fresh_result"
    by (simp_all add: fresh_result_def is_fatal_connection_error_def)
  let ?t = "opened 0 (new_tx plain_tx)"
  have set0: "set_conn 0 (open_conn []) ?p = ?p"
    by (simp add: set_conn_def connect_pool_def bump_def)
  have beg: "begin_errored list_libpq sample_config (xe_begin sample_tx_env) (new_tx plain_tx) connect_pool = Finished (None, ?t, ?p)"
    using acq at0 ex qok idle(1) set0
    by (simp add: begin_errored_def tx_open_def sample_tx_env_def numeral_nat new_tx_def plain_tx_def Let_def)
  obtain t' p' where com: "tx_commit list_libpq cancelling_env ?t ?p = Finished (True, t', p')"
    using ex qok idle at0 set0
    by (simp add: tx_commit_def commit_on_def tx_connected_def opened_def new_tx_def plain_tx_def in_failed_tx_def
        open_conn_def list_libpq_def give_up_conn_def release_now_def Let_def)
  have att: "tx_attempt list_libpq sample_config default_opts plain_tx sample_tx_env connect_pool = Finished (Done (Returned 7), t', p')"
    using beg com by (simp add: tx_attempt_def sample_tx_env_def default_opts_def Let_def)
  then have r: "?r = Finished (Returned 7, destroy_tx t' p')" by simp
  from run_tx_commits_once [OF r] r show ?thesis by auto
qed

end
