(* ===== verification/Pg_Stream.thy ===== *)
theory Pg_Stream
  imports Upq_Prelude
begin

text \<open>
  The pull pipelines of \<^verbatim>\<open>PgStream.h\<close>: the adaptors \<^verbatim>\<open>transform\<close>, \<^verbatim>\<open>filter\<close>, \<^verbatim>\<open>take\<close>, \<^verbatim>\<open>skip\<close> and the terminals
  \<^verbatim>\<open>count\<close>, \<^verbatim>\<open>collect\<close>, \<^verbatim>\<open>for_each\<close>, \<^verbatim>\<open>reduce\<close>, over any type with a \<^verbatim>\<open>next()\<close>. A stream is a state and a function
  \<open>nxt\<close> on it; \<open>None\<close> is a call that never returns. What a stream delivers is the relation \<open>runs\<close> of the locale
  \<open>pull_stream\<close>, the contract of the concept \<^verbatim>\<open>PgStreamLike\<close>: each adaptor turns one implementation of the contract
  into another, and each terminal computes a list function of what is delivered.
\<close>

section \<open>Adaptors\<close>

text \<open>What \<^verbatim>\<open>next()\<close> does: a value, \<^verbatim>\<open>nullopt\<close>, or an exception that leaves it.\<close>

datatype 'a pull = Item 'a | EndOfStream | Raised string

type_synonym ('s, 'a) puller = "'s \<Rightarrow> ('a pull \<times> 's) option"

text \<open>A call of a user's function object: its state, and an exception or a value.\<close>

type_synonym ('a, 'u, 'b) callable = "'a \<Rightarrow> 'u \<Rightarrow> (string + 'b) \<times> 'u"

definition transform_next :: "('s, 'a) puller \<Rightarrow> ('a, 'u, 'b) callable \<Rightarrow> ('s \<times> 'u, 'b) puller" where
  "transform_next nxt f = (\<lambda>(s, u).
     case nxt s of
       None \<Rightarrow> None
     | Some (Item v, s') \<Rightarrow>
         (case f v u of (Inr w, u') \<Rightarrow> Some (Item w, s', u') | (Inl e, u') \<Rightarrow> Some (Raised e, s', u'))
     | Some (EndOfStream, s') \<Rightarrow> Some (EndOfStream, s', u)
     | Some (Raised e, s') \<Rightarrow> Some (Raised e, s', u))"

partial_function (option) filter_next ::
  "('s, 'a) puller \<Rightarrow> ('a, 'u, bool) callable \<Rightarrow> 's \<times> 'u \<Rightarrow> ('a pull \<times> 's \<times> 'u) option" where
  "filter_next nxt f su = (case su of (s, u) \<Rightarrow>
     (case nxt s of
        None \<Rightarrow> None
      | Some (v, s') \<Rightarrow>
          (case v of
             EndOfStream \<Rightarrow> Some (EndOfStream, s', u)
           | Raised e \<Rightarrow> Some (Raised e, s', u)
           | Item x \<Rightarrow>
               (case f x u of (r, u') \<Rightarrow>
                  (case r of
                     Inl e \<Rightarrow> Some (Raised e, s', u')
                   | Inr keep \<Rightarrow> if keep then Some (Item x, s', u') else filter_next nxt f (s', u'))))))"

definition take_next :: "('s, 'a) puller \<Rightarrow> ('s \<times> u64, 'a) puller" where
  "take_next nxt = (\<lambda>(s, rem).
     if rem = 0 then Some (EndOfStream, s, rem)
     else case nxt s of
         None \<Rightarrow> None
       | Some (Item v, s') \<Rightarrow> Some (Item v, s', rem - 1)
       | Some (v, s') \<Rightarrow> Some (v, s', rem))"

function skip_next :: "('s, 'a) puller \<Rightarrow> ('s \<times> u64, 'a) puller" where
  "skip_next nxt (s, rem) =
     (if rem > 0
      then (case nxt s of
          None \<Rightarrow> None
        | Some (Item v, s') \<Rightarrow> skip_next nxt (s', rem - 1)
        | Some (v, s') \<Rightarrow> Some (v, s', rem))
      else (case nxt s of None \<Rightarrow> None | Some (v, s') \<Rightarrow> Some (v, s', rem)))"
  by pat_completeness auto
termination
  by (relation "measure (\<lambda>(nxt, s, rem). unat rem)") (auto simp: measure_unat word_gt_0)

declare skip_next.simps [simp del]

text \<open>\<^verbatim>\<open>close()\<close> of every adaptor closes the stream it holds.\<close>

definition adaptor_close :: "('s \<Rightarrow> 's option) \<Rightarrow> 's \<times> 'u \<Rightarrow> ('s \<times> 'u) option" where
  "adaptor_close cls = (\<lambda>(s, u). map_option (\<lambda>s'. (s', u)) (cls s))"

section \<open>Terminals\<close>

text \<open>The loop \<^verbatim>\<open>while (auto v = co_await s.next())\<close> of the terminals: the exception that ended it, if any.\<close>

partial_function (option) each_loop ::
  "('s, 'a) puller \<Rightarrow> ('acc \<Rightarrow> 'a \<Rightarrow> string option \<times> 'acc) \<Rightarrow> 'acc \<Rightarrow> 's \<Rightarrow> (string option \<times> 'acc \<times> 's) option" where
  "each_loop nxt body acc s =
     (case nxt s of
        None \<Rightarrow> None
      | Some (v, s') \<Rightarrow>
          (case v of
             EndOfStream \<Rightarrow> Some (None, acc, s')
           | Raised e \<Rightarrow> Some (Some e, acc, s')
           | Item x \<Rightarrow>
               (case body acc x of (err, acc') \<Rightarrow>
                  if err = None then each_loop nxt body acc' s' else Some (err, acc', s'))))"

text \<open>
  Behind the loop: \<^verbatim>\<open>close_if_possible\<close> and the destructor of the parameter \<open>s\<close>; an exception leaves through the
  destructor alone.
\<close>

definition finish_terminal ::
  "('s \<Rightarrow> 's option) \<Rightarrow> ('s \<Rightarrow> 's) \<Rightarrow> (string option \<times> 'acc \<times> 's) option \<Rightarrow> ((string + 'acc) \<times> 's) option" where
  "finish_terminal cls dtor r =
     (case r of
        None \<Rightarrow> None
      | Some (Some e, acc, s) \<Rightarrow> Some (Inl e, dtor s)
      | Some (None, acc, s) \<Rightarrow> map_option (\<lambda>s'. (Inr acc, dtor s')) (cls s))"

definition count_terminal where
  "count_terminal nxt cls dtor s = finish_terminal cls dtor (each_loop nxt (\<lambda>n _. (None, n + 1)) (0 :: u64) s)"

definition collect_terminal where
  "collect_terminal nxt cls dtor s = finish_terminal cls dtor (each_loop nxt (\<lambda>out v. (None, out @ [v])) [] s)"

text \<open>The accumulator of \<^verbatim>\<open>for_each\<close> is the counter and the state of the user's function.\<close>

definition for_each_body :: "('a, 'u, unit) callable \<Rightarrow> u64 \<times> 'u \<Rightarrow> 'a \<Rightarrow> string option \<times> u64 \<times> 'u" where
  "for_each_body f = (\<lambda>(n, u) v. case f v u of (Inl e, u') \<Rightarrow> (Some e, n, u') | (Inr _, u') \<Rightarrow> (None, n + 1, u'))"

definition for_each_terminal where
  "for_each_terminal nxt cls dtor f u s = finish_terminal cls dtor (each_loop nxt (for_each_body f) (0, u) s)"

definition reduce_body :: "('acc \<Rightarrow> 'a \<Rightarrow> string + 'acc) \<Rightarrow> 'acc \<Rightarrow> 'a \<Rightarrow> string option \<times> 'acc" where
  "reduce_body f acc v = (case f acc v of Inl e \<Rightarrow> (Some e, acc) | Inr acc' \<Rightarrow> (None, acc'))"

definition reduce_terminal where
  "reduce_terminal nxt cls dtor f ini s = finish_terminal cls dtor (each_loop nxt (reduce_body f) ini s)"

section \<open>What a stream delivers\<close>

lemma unat_pred_Suc: "r \<noteq> 0 \<Longrightarrow> unat r = Suc (unat (r - 1))" for r :: u64
  by (simp add: unat_minus_one unat_gt_0)

text \<open>
  A run is the list of items up to the end of the stream, with the exception that ends it if one does. The four
  adaptors as functions on runs:
\<close>

fun map_run :: "('a, 'u, 'b) callable \<Rightarrow> 'a list \<Rightarrow> string option \<Rightarrow> 'u \<Rightarrow> 'b list \<times> string option" where
  "map_run f [] e u = ([], e)"
| "map_run f (x # xs) e u =
     (case f x u of
        (Inl m, u') \<Rightarrow> ([], Some m)
      | (Inr y, u') \<Rightarrow> (case map_run f xs e u' of (ys, e') \<Rightarrow> (y # ys, e')))"

fun filter_run :: "('a, 'u, bool) callable \<Rightarrow> 'a list \<Rightarrow> string option \<Rightarrow> 'u \<Rightarrow> 'a list \<times> string option" where
  "filter_run f [] e u = ([], e)"
| "filter_run f (x # xs) e u =
     (case f x u of
        (Inl m, u') \<Rightarrow> ([], Some m)
      | (Inr keep, u') \<Rightarrow> (case filter_run f xs e u' of (ys, e') \<Rightarrow> (if keep then x # ys else ys, e')))"

definition take_run :: "nat \<Rightarrow> 'a list \<Rightarrow> string option \<Rightarrow> 'a list \<times> string option" where
  "take_run n xs e = (take n xs, if n \<le> length xs then None else e)"

text \<open>The terminals on runs: a fold that stops at the first exception.\<close>

fun fold_run ::
  "('acc \<Rightarrow> 'a \<Rightarrow> string option \<times> 'acc) \<Rightarrow> 'a list \<Rightarrow> string option \<Rightarrow> 'acc \<Rightarrow> string option \<times> 'acc" where
  "fold_run body [] e acc = (e, acc)"
| "fold_run body (x # xs) e acc =
     (case body acc x of (err, acc') \<Rightarrow> if err = None then fold_run body xs e acc' else (err, acc'))"

definition transform_runs where
  "transform_runs runs f su ys e' \<longleftrightarrow> (\<exists>xs e. runs (fst su) xs e \<and> map_run f xs e (snd su) = (ys, e'))"

definition filter_runs where
  "filter_runs runs f su ys e' \<longleftrightarrow> (\<exists>xs e. runs (fst su) xs e \<and> filter_run f xs e (snd su) = (ys, e'))"

definition take_runs where
  "take_runs runs sr ys e' \<longleftrightarrow> (\<exists>xs e. runs (fst sr) xs e \<and> take_run (unat (snd sr :: u64)) xs e = (ys, e'))"

definition skip_runs where
  "skip_runs runs sr ys e' \<longleftrightarrow> (\<exists>xs. runs (fst sr) xs e' \<and> drop (unat (snd sr :: u64)) xs = ys)"

locale pull_stream =
  fixes nxt :: "('s, 'a) puller"
    and runs :: "'s \<Rightarrow> 'a list \<Rightarrow> string option \<Rightarrow> bool"
  assumes item: "runs s (x # xs) e \<Longrightarrow> \<exists>s'. nxt s = Some (Item x, s') \<and> runs s' xs e"
    and ended: "runs s [] None \<Longrightarrow> \<exists>s'. nxt s = Some (EndOfStream, s') \<and> runs s' [] None"
    and raised: "runs s [] (Some m) \<Longrightarrow> \<exists>s'. nxt s = Some (Raised m, s')"
begin

text \<open>The loop of a terminal returns, with the fold of the run; when nothing was raised the stream has just ended.\<close>

lemma each_loop_run:
  assumes "runs s xs e" "fold_run body xs e acc = (err, acc')"
  shows "\<exists>s'. each_loop nxt body acc s = Some (err, acc', s')
    \<and> (err = None \<longrightarrow> (\<exists>s0. runs s0 [] None \<and> nxt s0 = Some (EndOfStream, s')))"
  using assms
proof (induction xs arbitrary: s acc)
  case Nil
  note unfold = each_loop.simps [of nxt body _ s]
  show ?case
  proof (cases e)
    case None
    with Nil ended [of s] obtain s' where "nxt s = Some (EndOfStream, s')" "runs s' [] None" by blast
    with Nil None show ?thesis by (auto simp: unfold)
  next
    case (Some m)
    with Nil raised [of s m] obtain s' where "nxt s = Some (Raised m, s')" by blast
    with Nil Some show ?thesis by (auto simp: unfold)
  qed
next
  case (Cons x xs)
  obtain s' where s': "nxt s = Some (Item x, s')" "runs s' xs e" using item [OF Cons.prems(1)] by blast
  obtain er ac where b: "body acc x = (er, ac)" by fastforce
  show ?case
  proof (cases er)
    case None
    with Cons.prems(2) b have "fold_run body xs e ac = (err, acc')" by simp
    from Cons.IH [OF s'(2) this] show ?thesis by (simp add: each_loop.simps [of nxt body _ s] s' b None)
  next
    case (Some m)
    with Cons.prems(2) b show ?thesis by (auto simp: each_loop.simps [of nxt body _ s] s')
  qed
qed

lemma transform_pull:
  "pull_stream (transform_next nxt f) (transform_runs runs f)"
proof (unfold_locales, goal_cases)
  case (1 su y ys e')
  obtain s u xs e where su: "su = (s, u)" "runs s xs e" "map_run f xs e u = (y # ys, e')" using 1 by (cases su) (auto simp: transform_runs_def)
  from su(3) obtain x xs' u' where x: "xs = x # xs'" "f x u = (Inr y, u')" "map_run f xs' e u' = (ys, e')"
    by (cases xs) (auto split: prod.splits sum.splits)
  with su item [of s x xs' e] obtain s' where "nxt s = Some (Item x, s')" "runs s' xs' e" by blast
  with su x show ?case by (auto simp: transform_next_def transform_runs_def)
next
  case (2 su)
  obtain s u xs e where su: "su = (s, u)" "runs s xs e" "map_run f xs e u = ([], None)" using 2 by (cases su) (auto simp: transform_runs_def)
  then have "xs = []" "e = None" by (cases xs; auto split: prod.splits sum.splits)+
  with su ended [of s] obtain s' where "nxt s = Some (EndOfStream, s')" "runs s' [] None" by blast
  with su show ?case by (auto simp: transform_next_def transform_runs_def intro!: exI [of _ "[]"] exI [of _ None])
next
  case (3 su m)
  obtain s u xs e where su: "su = (s, u)" "runs s xs e" "map_run f xs e u = ([], Some m)" using 3 by (cases su) (auto simp: transform_runs_def)
  show ?case
  proof (cases xs)
    case Nil
    with su raised [of s m] obtain s' where "nxt s = Some (Raised m, s')" by auto
    with su show ?thesis by (auto simp: transform_next_def transform_runs_def)
  next
    case (Cons x xs')
    with su obtain u' where "f x u = (Inl m, u')" by (auto split: prod.splits sum.splits)
    moreover obtain s' where "nxt s = Some (Item x, s')" using item [of s x xs' e] su Cons by blast
    ultimately show ?thesis using su by (auto simp: transform_next_def transform_runs_def)
  qed
qed

lemma take_pull:
  "pull_stream (take_next nxt) (take_runs runs)"
proof (unfold_locales, goal_cases)
  case (1 sr y ys e')
  obtain s r xs e where sr: "sr = (s, r)" "runs s xs e" "take_run (unat r) xs e = (y # ys, e')" using 1 by (cases sr) (auto simp: take_runs_def)
  from sr(3) obtain xs' where x: "xs = y # xs'" "r \<noteq> 0"
    by (cases xs; cases "r = 0"; cases "unat r") (auto simp: take_run_def)
  from x(2) have u: "unat r = Suc (unat (r - 1))" by (intro unat_pred_Suc)
  from x sr item [of s y xs' e] obtain s' where "nxt s = Some (Item y, s')" "runs s' xs' e" by blast
  with sr x u show ?case
    by (auto simp: take_next_def take_runs_def take_run_def intro!: exI [of _ xs'] exI [of _ e])
next
  case (2 sr)
  obtain s r xs e where sr: "sr = (s, r)" "runs s xs e" "take_run (unat r) xs e = ([], None)" using 2 by (cases sr) (auto simp: take_runs_def)
  show ?case
  proof (cases "r = 0")
    case True
    with sr show ?thesis by (auto simp: take_next_def take_runs_def)
  next
    case False
    then have "unat r \<noteq> 0" by (simp add: unat_eq_0)
    with sr(3) have "xs = []" "e = None" by (auto simp: take_run_def split: if_splits)
    with sr ended [of s] obtain s' where "nxt s = Some (EndOfStream, s')" "runs s' [] None" by blast
    with sr False show ?thesis by (auto simp: take_next_def take_runs_def take_run_def intro!: exI [of _ "[]"] exI [of _ None])
  qed
next
  case (3 sr m)
  obtain s r xs e where sr: "sr = (s, r)" "runs s xs e" "take_run (unat r) xs e = ([], Some m)" using 3 by (cases sr) (auto simp: take_runs_def)
  then have "r \<noteq> 0" "xs = []" "e = Some m" by (auto simp: take_run_def split: if_splits)
  with sr raised [of s m] show ?case by (auto simp: take_next_def take_runs_def)
qed

lemma filter_next_item:
  assumes "runs s xs e" "filter_run f xs e u = (y # ys, e')"
  shows "\<exists>s' u'. filter_next nxt f (s, u) = Some (Item y, s', u') \<and> filter_runs runs f (s', u') ys e'"
  using assms
proof (induction xs arbitrary: s u)
  case (Cons x xs)
  obtain s' where s': "nxt s = Some (Item x, s')" "runs s' xs e" using item [OF Cons.prems(1)] by blast
  note unfold = filter_next.simps [of nxt f "(s, u)"] s'(1)
  from Cons.prems(2) obtain keep u' ys' where f: "f x u = (Inr keep, u')"
    "filter_run f xs e u' = (ys', e')" "y # ys = (if keep then x # ys' else ys')"
    by (auto split: prod.splits sum.splits)
  show ?case
  proof (cases keep)
    case True
    with f s'(2) show ?thesis by (auto simp: unfold filter_runs_def)
  next
    case False
    with f have "filter_run f xs e u' = (y # ys, e')" by simp
    from Cons.IH [OF s'(2) this] f False show ?thesis by (simp add: unfold)
  qed
qed simp

lemma filter_next_end:
  assumes "runs s xs e" "filter_run f xs e u = ([], e')"
  shows "\<exists>s' u'. filter_next nxt f (s, u) = Some (case e' of None \<Rightarrow> EndOfStream | Some m \<Rightarrow> Raised m, s', u')
    \<and> (e' = None \<longrightarrow> runs s' [] None)"
  using assms
proof (induction xs arbitrary: s u)
  case Nil
  then have "e' = e" by simp
  with Nil ended [of s] raised [of s] show ?case
    by (cases e) (fastforce simp: filter_next.simps [of nxt f "(s, u)"])+
next
  case (Cons x xs)
  obtain s' where s': "nxt s = Some (Item x, s')" "runs s' xs e" using item [OF Cons.prems(1)] by blast
  note unfold = filter_next.simps [of nxt f "(s, u)"] s'(1)
  obtain r u' where f: "f x u = (r, u')" by fastforce
  show ?case
  proof (cases r)
    case (Inl m)
    with f Cons.prems(2) show ?thesis by (auto simp: unfold)
  next
    case (Inr keep)
    with f Cons.prems(2) have "\<not> keep" "filter_run f xs e u' = ([], e')" by (auto split: prod.splits if_splits)
    with Cons.IH [OF s'(2), of u'] Inr f show ?thesis by (simp add: unfold)
  qed
qed

lemma filter_pull: "pull_stream (filter_next nxt f) (filter_runs runs f)"
proof (unfold_locales, goal_cases)
  case (1 su y ys e')
  then obtain xs e where x: "runs (fst su) xs e" "filter_run f xs e (snd su) = (y # ys, e')"
    by (auto simp: filter_runs_def)
  from filter_next_item [OF this] show ?case by (cases su) auto
next
  case (2 su)
  then obtain xs e where x: "runs (fst su) xs e" "filter_run f xs e (snd su) = ([], None)"
    by (auto simp: filter_runs_def)
  from filter_next_end [OF this] show ?case
    by (cases su) (auto simp: filter_runs_def intro!: exI [of _ "[]"] exI [of _ None])
next
  case (3 su m)
  then obtain xs e where x: "runs (fst su) xs e" "filter_run f xs e (snd su) = ([], Some m)"
    by (auto simp: filter_runs_def)
  from filter_next_end [OF this] show ?case by (cases su) auto
qed

lemma skip_next_run:
  assumes "runs s xs e" "drop (unat r) xs = ys"
  shows "\<exists>s' r'. skip_next nxt (s, r) = Some (case ys of y # _ \<Rightarrow> Item y
        | [] \<Rightarrow> (case e of None \<Rightarrow> EndOfStream | Some m \<Rightarrow> Raised m), s', r')
     \<and> (ys \<noteq> [] \<or> e = None \<longrightarrow> skip_runs runs (s', r') (tl ys) e)"
  using assms
proof (induction xs arbitrary: s r)
  case Nil
  then show ?case using ended [of s] raised [of s]
    by (cases e) (fastforce simp: skip_next.simps [of nxt s r] skip_runs_def)+
next
  case (Cons x xs)
  obtain s' where s': "nxt s = Some (Item x, s')" "runs s' xs e" using item [OF Cons.prems(1)] by blast
  note unfold = skip_next.simps [of nxt s r] s'(1)
  show ?case
  proof (cases "r = 0")
    case True
    with Cons.prems(2) s'(2) show ?thesis
      by (auto simp: unfold [unfolded True] skip_runs_def intro!: exI [of _ xs])
  next
    case False
    then have "unat r = Suc (unat (r - 1))" by (intro unat_pred_Suc)
    with Cons.prems(2) have "drop (unat (r - 1)) xs = ys" by simp
    from Cons.IH [OF s'(2) this] False show ?thesis by (simp add: unfold word_gt_0)
  qed
qed

lemma skip_pull: "pull_stream (skip_next nxt) (skip_runs runs)"
proof (unfold_locales, goal_cases)
  case (1 sr y ys e')
  then obtain xs where "runs (fst sr) xs e'" "drop (unat (snd sr)) xs = y # ys" by (auto simp: skip_runs_def)
  from skip_next_run [OF this] show ?case by (cases sr) auto
next
  case (2 sr)
  then obtain xs where "runs (fst sr) xs None" "drop (unat (snd sr)) xs = []" by (auto simp: skip_runs_def)
  from skip_next_run [OF this] show ?case by (cases sr) auto
next
  case (3 sr m)
  then obtain xs where "runs (fst sr) xs (Some m)" "drop (unat (snd sr)) xs = []" by (auto simp: skip_runs_def)
  from skip_next_run [OF this] show ?case by (cases sr) auto
qed

end

text \<open>Callables that keep no state and never throw.\<close>

definition pure_call :: "('a \<Rightarrow> 'b) \<Rightarrow> ('a, unit, 'b) callable" where
  "pure_call g = (\<lambda>v u. (Inr (g v), u))"

lemma map_run_pure [simp]: "map_run (pure_call g) xs e u = (map g xs, e)"
  by (induction xs) (simp_all add: pure_call_def)

lemma filter_run_pure [simp]: "filter_run (pure_call P) xs e u = (filter P xs, e)"
  by (induction xs) (simp_all add: pure_call_def)

lemma fold_run_count: "fold_run (\<lambda>n _. (None, n + 1)) xs e a = (e, a + of_nat (length xs))" for a :: u64
  by (induction xs arbitrary: a) (simp_all add: algebra_simps)

lemma fold_run_collect: "fold_run (\<lambda>out v. (None, out @ [v])) xs e a = (e, a @ xs)"
  by (induction xs arbitrary: a) simp_all

lemma fold_run_reduce: "fold_run (reduce_body (\<lambda>a v. Inr (g a v))) xs e a = (e, foldl g a xs)"
  by (induction xs arbitrary: a) (simp_all add: reduce_body_def)

section \<open>Pipelines\<close>

text \<open>
  Any sequence of adaptors. The object a stage of a pipeline is holds its callable \<^verbatim>\<open>f_\<close>, with its state, or its counter
  \<^verbatim>\<open>rem_\<close>; it is what the adaptor passed to \<^verbatim>\<open>operator|\<close> holds until values are pulled. The values of all stages share one type,
  and so do the states of the callables (sum types for more than one). A stream is its source and its stages, the last
  stage first.
\<close>

datatype ('a, 'u) adaptor =
  TransformAdaptor "('a, 'u, 'a) callable" 'u
| FilterAdaptor "('a, 'u, bool) callable" 'u
| TakeAdaptor u64
| SkipAdaptor u64

type_synonym ('s, 'a, 'u) pipeline = "'s \<times> ('a, 'u) adaptor list"

definition pipe :: "('s, 'a, 'u) pipeline \<Rightarrow> ('a, 'u) adaptor \<Rightarrow> ('s, 'a, 'u) pipeline" where
  "pipe = (\<lambda>(s, as) a. (s, a # as))"

fun stage_next :: "('s, 'a) puller \<Rightarrow> 's \<times> ('a, 'u) adaptor \<Rightarrow> ('a pull \<times> 's \<times> ('a, 'u) adaptor) option" where
  "stage_next nxt (s, TransformAdaptor f u) =
     map_option (\<lambda>(v, s', u'). (v, s', TransformAdaptor f u')) (transform_next nxt f (s, u))"
| "stage_next nxt (s, FilterAdaptor f u) =
     map_option (\<lambda>(v, s', u'). (v, s', FilterAdaptor f u')) (filter_next nxt f (s, u))"
| "stage_next nxt (s, TakeAdaptor n) = map_option (\<lambda>(v, s', n'). (v, s', TakeAdaptor n')) (take_next nxt (s, n))"
| "stage_next nxt (s, SkipAdaptor n) = map_option (\<lambda>(v, s', n'). (v, s', SkipAdaptor n')) (skip_next nxt (s, n))"

text \<open>\<^verbatim>\<open>next()\<close> and \<^verbatim>\<open>close()\<close> of a stream with \<open>n\<close> stages.\<close>

fun pipe_next :: "('s, 'a) puller \<Rightarrow> nat \<Rightarrow> ('s, 'a, 'u) pipeline \<Rightarrow> ('a pull \<times> ('s, 'a, 'u) pipeline) option" where
  "pipe_next src 0 (s, as) = map_option (\<lambda>(v, s'). (v, s', as)) (src s)"
| "pipe_next src (Suc n) (s, []) = None"
| "pipe_next src (Suc n) (s, a # as) =
     map_option (\<lambda>(v, (s', as'), a'). (v, s', a' # as')) (stage_next (pipe_next src n) ((s, as), a))"

fun pipe_close :: "('s \<Rightarrow> 's option) \<Rightarrow> ('s, 'a, 'u) pipeline \<Rightarrow> ('s, 'a, 'u) pipeline option" where
  "pipe_close cls (s, []) = (case cls s of None \<Rightarrow> None | Some s' \<Rightarrow> Some (s', []))"
| "pipe_close cls (s, a # as) = (case pipe_close cls (s, as) of None \<Rightarrow> None | Some (s', as') \<Rightarrow> Some (s', a # as'))"

text \<open>The list function of a stage and of a pipeline.\<close>

fun stage_run :: "('a, 'u) adaptor \<Rightarrow> 'a list \<times> string option \<Rightarrow> 'a list \<times> string option" where
  "stage_run (TransformAdaptor f u) (xs, e) = map_run f xs e u"
| "stage_run (FilterAdaptor f u) (xs, e) = filter_run f xs e u"
| "stage_run (TakeAdaptor n) (xs, e) = take_run (unat n) xs e"
| "stage_run (SkipAdaptor n) (xs, e) = (drop (unat n) xs, e)"

definition pipe_run :: "('a, 'u) adaptor list \<Rightarrow> 'a list \<times> string option \<Rightarrow> 'a list \<times> string option" where
  "pipe_run as r = foldr stage_run as r"

definition stage_runs where
  "stage_runs runs sa ys e' \<longleftrightarrow> (\<exists>xs e. runs (fst sa) xs e \<and> stage_run (snd sa) (xs, e) = (ys, e'))"

definition pipe_runs where
  "pipe_runs runs n sas ys e' \<longleftrightarrow> length (snd sas) = n \<and> (\<exists>xs e. runs (fst sas) xs e \<and> pipe_run (snd sas) (xs, e) = (ys, e'))"

lemma pipe_run_Nil [simp]: "pipe_run [] r = r"
  by (simp add: pipe_run_def)

lemma pipe_run_Cons [simp]: "pipe_run (a # as) r = stage_run a (pipe_run as r)"
  by (simp add: pipe_run_def)

lemma stage_runs_simps:
  "stage_runs runs (s, TransformAdaptor f u) = transform_runs runs f (s, u)"
  "stage_runs runs (s, FilterAdaptor g u) = filter_runs runs g (s, u)"
  "stage_runs runs (s, TakeAdaptor n) = take_runs runs (s, n)"
  "stage_runs runs (s, SkipAdaptor n) = skip_runs runs (s, n)"
  by (intro ext; auto simp: stage_runs_def transform_runs_def filter_runs_def take_runs_def skip_runs_def)+

text \<open>The contract at one state, and for a state kept in another shape.\<close>

definition pull_laws where
  "pull_laws nxt runs s \<longleftrightarrow>
     (\<forall>x xs e. runs s (x # xs) e \<longrightarrow> (\<exists>s'. nxt s = Some (Item x, s') \<and> runs s' xs e))
     \<and> (runs s [] None \<longrightarrow> (\<exists>s'. nxt s = Some (EndOfStream, s') \<and> runs s' [] None))
     \<and> (\<forall>m. runs s [] (Some m) \<longrightarrow> (\<exists>s'. nxt s = Some (Raised m, s')))"

lemma pull_stream_iff: "pull_stream nxt runs \<longleftrightarrow> (\<forall>s. pull_laws nxt runs s)"
  unfolding pull_stream_def pull_laws_def by blast

lemma pull_laws_map:
  assumes "pull_stream nxt runs" "nxt' t = map_option (\<lambda>(v, s'). (v, k s')) (nxt s)" "runs' t = runs s"
    and "\<And>s'. runs' (k s') = runs s'"
  shows "pull_laws nxt' runs' t"
proof -
  have laws: "pull_laws nxt runs s" using assms(1) by (simp add: pull_stream_iff)
  have "\<exists>t'. nxt' t = Some (Item x, t') \<and> runs' t' xs e" if r: "runs s (x # xs) e" for x xs e
  proof -
    obtain s' where "nxt s = Some (Item x, s')" "runs s' xs e" using laws r unfolding pull_laws_def by blast
    with assms(2,4) show ?thesis by simp
  qed
  moreover have "\<exists>t'. nxt' t = Some (EndOfStream, t') \<and> runs' t' [] None" if r: "runs s [] None"
  proof -
    obtain s' where "nxt s = Some (EndOfStream, s')" "runs s' [] None" using laws r unfolding pull_laws_def by blast
    with assms(2,4) show ?thesis by simp
  qed
  moreover have "\<exists>t'. nxt' t = Some (Raised m, t')" if "runs s [] (Some m)" for m
    using laws that assms(2) by (auto simp: pull_laws_def)
  ultimately show ?thesis by (simp add: pull_laws_def assms(3))
qed

lemma stage_pull:
  assumes "pull_stream nxt runs"
  shows "pull_stream (stage_next nxt) (stage_runs runs)"
  unfolding pull_stream_iff
proof
  fix t :: "'a \<times> ('b, 'c) adaptor"
  obtain s a where t: "t = (s, a)" by fastforce
  note adapt = pull_stream.transform_pull pull_stream.filter_pull pull_stream.take_pull pull_stream.skip_pull
  show "pull_laws (stage_next nxt) (stage_runs runs) t"
  proof (cases a)
    case (TransformAdaptor f u)
    with t show ?thesis
      by (intro pull_laws_map [OF adapt(1) [OF assms, of f], where k = "\<lambda>(s', u'). (s', TransformAdaptor f u')"])
        (auto simp: stage_runs_simps intro!: arg_cong2 [where f = map_option])
  next
    case (FilterAdaptor f u)
    with t show ?thesis
      by (intro pull_laws_map [OF adapt(2) [OF assms, of f], where k = "\<lambda>(s', u'). (s', FilterAdaptor f u')"])
        (auto simp: stage_runs_simps intro!: arg_cong2 [where f = map_option])
  next
    case (TakeAdaptor n)
    with t show ?thesis
      by (intro pull_laws_map [OF adapt(3) [OF assms], where k = "\<lambda>(s', u'). (s', TakeAdaptor u')"])
        (auto simp: stage_runs_simps intro!: arg_cong2 [where f = map_option])
  next
    case (SkipAdaptor n)
    with t show ?thesis
      by (intro pull_laws_map [OF adapt(4) [OF assms], where k = "\<lambda>(s', u'). (s', SkipAdaptor u')"])
        (auto simp: stage_runs_simps intro!: arg_cong2 [where f = map_option])
  qed
qed

lemma pipe_pull:
  assumes "pull_stream src runs"
  shows "pull_stream (pipe_next src n) (pipe_runs runs n)"
proof (induction n)
  case 0
  show ?case unfolding pull_stream_iff
  proof
    fix t :: "'a \<times> ('b, 'c) adaptor list"
    obtain s as where t: "t = (s, as)" by fastforce
    show "pull_laws (pipe_next src 0) (pipe_runs runs 0) t"
    proof (cases as)
      case Nil
      with t show ?thesis
        by (intro pull_laws_map [OF assms, where k = "\<lambda>s'. (s', [])" and s = s]) (auto simp: pipe_runs_def fun_eq_iff)
    qed (simp add: t pull_laws_def pipe_runs_def)
  qed
next
  case (Suc n)
  show ?case unfolding pull_stream_iff
  proof
    fix t :: "'a \<times> ('b, 'c) adaptor list"
    obtain s as where t: "t = (s, as)" by fastforce
    have e: "pipe_runs runs (Suc n) (s', a # as') = stage_runs (pipe_runs runs n) ((s', as'), a)" for s' a as'
      by (intro ext) (auto simp: pipe_runs_def stage_runs_def; metis surj_pair)
    show "pull_laws (pipe_next src (Suc n)) (pipe_runs runs (Suc n)) t"
    proof (cases as)
      case (Cons a as')
      with t show ?thesis
        by (intro pull_laws_map [OF stage_pull [OF Suc], where k = "\<lambda>((s', as''), a'). (s', a' # as'')" and s = "((s, as'), a)"])
          (auto simp: e intro!: arg_cong2 [where f = map_option])
    qed (simp add: t pull_laws_def pipe_runs_def)
  qed
qed

lemma pipe_close_source: "pipe_close cls (s, as) = map_option (\<lambda>s'. (s', as)) (cls s)"
  by (induction as) (auto split: option.splits)

end
