(* ===== verification/Pg_RowStream.thy ===== *)
theory Pg_RowStream
  imports Pg_Transaction Pg_Stream
begin

text \<open>
  Row streams (\<^verbatim>\<open>PgRowStream\<close>, \<^verbatim>\<open>PgTypedRowStream\<close>): the rows of a server-side cursor, fetched batch by batch, on a
  pooled connection with its own transaction (\<^verbatim>\<open>PgPool::stream\<close>) or on the connection of a transaction
  (\<^verbatim>\<open>PgTransaction::stream\<close>). The operations pass the stream, the pool and the wakes that the awaits still meet.
\<close>

section \<open>State\<close>

record row_stream =
  st_pool :: bool                 \<comment> \<open>\<^verbatim>\<open>pool_ != nullptr\<close>\<close>
  st_conn :: "cid option"
  st_cursor_name :: string
  st_batch_size :: u32
  st_owns_tx :: bool
  st_active :: bool
  st_exhausted :: bool
  st_buf :: "Row list"
  st_buf_idx :: nat
  st_err :: "PgOpError option"
  st_columns :: "string list"

type_synonym 'c stream_state = "row_stream \<times> 'c pool \<times> 'c wake list"

definition empty_stream :: row_stream where
  "empty_stream = \<lparr>st_pool = False, st_conn = None, st_cursor_name = [], st_batch_size = 1000, st_owns_tx = False,
     st_active = False, st_exhausted = False, st_buf = [], st_buf_idx = 0, st_err = None, st_columns = []\<rparr>"

definition stream_borrowed :: "cid \<Rightarrow> string \<Rightarrow> u32 \<Rightarrow> row_stream" where
  "stream_borrowed conn cursor batch_size = empty_stream\<lparr>st_conn := Some conn, st_cursor_name := cursor,
     st_batch_size := (if batch_size \<noteq> 0 then batch_size else 1), st_active := True, st_exhausted := False\<rparr>"

definition stream_owning :: "cid \<Rightarrow> string \<Rightarrow> u32 \<Rightarrow> row_stream" where
  "stream_owning conn cursor batch_size =
     (stream_borrowed conn cursor batch_size)\<lparr>st_pool := True, st_owns_tx := True\<rparr>"

definition stream_set_batch_size :: "u32 \<Rightarrow> row_stream \<Rightarrow> row_stream" where
  "stream_set_batch_size n s = s\<lparr>st_batch_size := (if n \<noteq> 0 then n else 1)\<rparr>"

text \<open>
  \<^verbatim>\<open>move_from\<close>: the stream moved into, and what is left of the source. The moved-from strings and vectors are taken
  as empty; the moved-from optional \<^verbatim>\<open>err_\<close> stays engaged.
\<close>

definition stream_move_from :: "row_stream \<Rightarrow> row_stream \<times> row_stream" where
  "stream_move_from src =
     (src, src\<lparr>st_conn := None, st_cursor_name := [], st_buf := [], st_columns := [],
               st_err := map_option (\<lambda>e. e\<lparr>oe_error := [],
                 oe_err_detail := no_detail\<lparr>ed_category := ed_category (oe_err_detail e)\<rparr>\<rparr>) (st_err src),
               st_pool := False, st_active := False, st_exhausted := True, st_buf_idx := 0, st_owns_tx := False\<rparr>)"

definition stream_destroy :: "row_stream \<Rightarrow> 'c pool \<Rightarrow> row_stream \<times> 'c pool" where
  "stream_destroy s p =
     (if st_active s \<and> st_conn s \<noteq> None \<and> st_pool s
      then (s\<lparr>st_conn := None, st_active := False\<rparr>, mark_dead (st_conn s) p)
      else (s\<lparr>st_active := False\<rparr>, p))"

section \<open>Reading\<close>

definition has_buffered :: "row_stream \<Rightarrow> bool" where
  "has_buffered s \<longleftrightarrow> st_active s \<and> st_buf_idx s < length (st_buf s)"

definition pop_buffered :: "row_stream \<Rightarrow> Row \<times> row_stream" where
  "pop_buffered s = (st_buf s ! st_buf_idx s, s\<lparr>st_buf_idx := st_buf_idx s + 1\<rparr>)"

text \<open>What \<^verbatim>\<open>fetch\<close> makes of the chunk it got.\<close>

definition absorb_chunk :: "PgCursorChunk \<Rightarrow> row_stream \<Rightarrow> bool \<times> row_stream" where
  "absorb_chunk chunk s =
     (if \<not> cc_ok chunk
      then (False, s\<lparr>st_err := Some \<lparr>oe_code = cc_code chunk, oe_error = cc_error chunk,
                                      oe_err_detail = cc_err_detail chunk\<rparr>, st_exhausted := True\<rparr>)
      else
        let s = s\<lparr>st_columns := (if st_columns s = [] \<and> cc_columns chunk \<noteq> [] then cc_columns chunk else st_columns s)\<rparr>;
            s = s\<lparr>st_buf := cc_rows chunk, st_buf_idx := 0\<rparr>
        in if st_buf s = [] then (False, s\<lparr>st_exhausted := True\<rparr>) else (True, s))"

text \<open>An active stream always has a connection; without one \<^verbatim>\<open>fetch\<close> would dereference a null pointer.\<close>

definition stream_fetch :: "'c libpq \<Rightarrow> 'c stream_state \<Rightarrow> (bool \<times> 'c stream_state) async" where
  "stream_fetch L = (\<lambda>(s, p, ws).
     if \<not> st_active s \<or> st_exhausted s then Finished (False, s, p, ws)
     else case st_conn s of
         None \<Rightarrow> Stuck
       | Some cid \<Rightarrow>
           bind_async (cursor_fetch_chunk L (st_cursor_name s) (st_batch_size s) ws (conn_at p cid)) (\<lambda>(chunk, c, ws').
             case absorb_chunk chunk s of (fetched, s') \<Rightarrow> Finished (fetched, s', set_conn cid c p, ws')))"

definition stream_next :: "'c libpq \<Rightarrow> 'c stream_state \<Rightarrow> (Row option \<times> 'c stream_state) async" where
  "stream_next L = (\<lambda>(s, p, ws).
     if has_buffered s then (case pop_buffered s of (r, s') \<Rightarrow> Finished (Some r, s', p, ws))
     else bind_async (stream_fetch L (s, p, ws)) (\<lambda>(fetched, s', p', ws').
       if \<not> fetched then Finished (None, s', p', ws')
       else (case pop_buffered s' of (r, s'') \<Rightarrow> Finished (Some r, s'', p', ws'))))"

section \<open>Closing\<close>

text \<open>The lambda \<^verbatim>\<open>note\<close> of \<^verbatim>\<open>close\<close>.\<close>

definition close_note :: "QueryResult \<Rightarrow> bool \<times> row_stream \<Rightarrow> bool \<times> row_stream" where
  "close_note r = (\<lambda>(fatal, s).
     if qr_ok r then (fatal, s)
     else (fatal \<or> is_fatal_connection_error r,
           if st_err s = None then s\<lparr>st_err := Some (to_op_error r)\<rparr> else s))"

text \<open>CLOSE and, for a stream with its own transaction, COMMIT: whether the connection failed, and the stream.\<close>

definition close_commands ::
  "'c libpq \<Rightarrow> row_stream \<Rightarrow> 'c wake list \<Rightarrow> 'c conn \<Rightarrow> ((bool \<times> row_stream) \<times> 'c conn \<times> 'c wake list) async" where
  "close_commands L s ws c =
     bind_async (cursor_close_in_tx L (st_cursor_name s) ws c) (\<lambda>(closed, c1, ws1).
       let fs = close_note closed (False, s) in
       if \<not> fst fs \<and> st_owns_tx s
       then bind_async (exec_simple L ''COMMIT;'' ws1 c1)
              (\<lambda>(committed, c2, ws2). Finished (close_note committed fs, c2, ws2))
       else Finished (fs, c1, ws1))"

definition close_return ::
  "'c libpq \<Rightarrow> cid \<Rightarrow> bool \<Rightarrow> 'c stream_state \<Rightarrow> 'c stream_state async" where
  "close_return L cid fatal = (\<lambda>(s, p, ws).
     if \<not> st_pool s then Finished (s\<lparr>st_conn := None\<rparr>, p, ws)
     else if fatal then Finished (s\<lparr>st_conn := None\<rparr>, mark_dead (Some cid) p, ws)
     else bind_async (release_connection_async L ws (Some cid) p)
            (\<lambda>(p', ws'). Finished (s\<lparr>st_conn := None\<rparr>, p', ws')))"

definition stream_close :: "'c libpq \<Rightarrow> 'c stream_state \<Rightarrow> 'c stream_state async" where
  "stream_close L = (\<lambda>(s, p, ws).
     if \<not> st_active s then Finished (s, p, ws)
     else
       let s = s\<lparr>st_active := False\<rparr> in
       case st_conn s of
         None \<Rightarrow> Finished (s, p, ws)
       | Some cid \<Rightarrow>
           if \<not> connected L (conn_at p cid)
           then (if st_pool s then Finished (s\<lparr>st_conn := None\<rparr>, mark_dead (Some cid) p, ws)
                 else Finished (s, p, ws))
           else bind_async (close_commands L s ws (conn_at p cid)) (\<lambda>((fatal, s'), c, ws').
                  close_return L cid fatal (s', set_conn cid c p, ws')))"

section \<open>Opening\<close>

definition cursor_declare_in_tx_params ::
  "'c libpq \<Rightarrow> (string \<Rightarrow> nat \<times> param_slot list \<Rightarrow> 'c \<Rightarrow> bool \<times> 'c) \<Rightarrow> bool \<Rightarrow> 'x printers \<Rightarrow> ('x \<Rightarrow> string)
    \<Rightarrow> string \<Rightarrow> 'x param list \<Rightarrow> string \<Rightarrow> 'c wake list \<Rightarrow> 'c conn \<Rightarrow> (QueryResult \<times> 'c conn \<times> 'c wake list) async" where
  "cursor_declare_in_tx_params L send_params le P dump sql args name ws c =
     (if \<not> is_safe_cursor_ident name then Finished (invalid_cursor_result, c, ws)
      else case make_send L send_params le P dump (''DECLARE '' @ name @ '' NO SCROLL CURSOR FOR '' @ sql) args of
          None \<Rightarrow> Stuck
        | Some send \<Rightarrow> run_query L send ws c)"

text \<open>
  \<^verbatim>\<open>PgPool::stream\<close>, both overloads: \<open>decl\<close> is \<^verbatim>\<open>cursor_declare_in_tx\<close> or \<^verbatim>\<open>cursor_declare_in_tx_params\<close> with the
  statement and its arguments filled in.
\<close>

type_synonym 'c declarer = "string \<Rightarrow> 'c wake list \<Rightarrow> 'c conn \<Rightarrow> (QueryResult \<times> 'c conn \<times> 'c wake list) async"

definition stream_failed ::
  "'c libpq \<Rightarrow> cid \<Rightarrow> QueryResult \<Rightarrow> 'c pool \<Rightarrow> 'c wake list \<Rightarrow> ((PgOpError + row_stream) \<times> 'c pool \<times> 'c wake list) async" where
  "stream_failed L cid r p ws =
     (if is_fatal_connection_error r then Finished (Inl (to_op_error r), mark_dead (Some cid) p, ws)
      else bind_async (release_connection_async L ws (Some cid) p)
             (\<lambda>(p', ws'). Finished (Inl (to_op_error r), p', ws')))"

definition pool_stream_with ::
  "'c libpq \<Rightarrow> PoolConfig \<Rightarrow> 'c declarer \<Rightarrow> u32 \<Rightarrow> 'c try_env \<Rightarrow> 'c pool
    \<Rightarrow> ((PgOpError + row_stream) \<times> 'c pool \<times> 'c wake list) async" where
  "pool_stream_with L cf decl batch_size e p =
     bind_async (acquire_connection L cf (te_sems e) (te_attempts e) p) (\<lambda>(r, p1).
       case r of
         Inl err \<Rightarrow> Finished (Inl err, p1, te_wakes e)
       | Inr cid \<Rightarrow>
           bind_async (exec_simple L ''BEGIN;'' (te_wakes e) (conn_at p1 cid)) (\<lambda>(q, c, ws).
             if \<not> qr_ok q then stream_failed L cid q (set_conn cid c p1) ws
             else (case make_cursor_name c of (cursor_name, c1) \<Rightarrow>
               bind_async (decl cursor_name ws c1) (\<lambda>(q2, c2, ws2).
                 if qr_ok q2
                 then Finished (Inr (stream_owning cid cursor_name batch_size), set_conn cid c2 p1, ws2)
                 else if is_fatal_connection_error q2 then stream_failed L cid q2 (set_conn cid c2 p1) ws2
                 else bind_async (exec_simple L ''ROLLBACK;'' ws2 c2)
                        (\<lambda>(_, c3, ws3). stream_failed L cid q2 (set_conn cid c3 p1) ws3)))))"

definition pool_stream where
  "pool_stream L cf sql batch_size e p =
     pool_stream_with L cf (\<lambda>name. cursor_declare_in_tx L name sql) batch_size e p"

definition pool_stream_params where
  "pool_stream_params L cf send_params le P dump sql batch_size args e p =
     pool_stream_with L cf (cursor_declare_in_tx_params L send_params le P dump sql args) batch_size e p"

text \<open>\<^verbatim>\<open>PgTransaction::stream\<close>, both overloads likewise.\<close>

definition tx_stream_with ::
  "'c libpq \<Rightarrow> 'c declarer \<Rightarrow> u32 \<Rightarrow> 'c wake list \<Rightarrow> tx \<Rightarrow> 'c pool
    \<Rightarrow> ((PgOpError + row_stream) \<times> tx \<times> 'c pool \<times> 'c wake list) async" where
  "tx_stream_with L decl batch_size ws t p =
     (case (if tx_active t \<and> tx_connected L t p then tx_conn t else None) of
        None \<Rightarrow> Finished (Inl not_active_error, t, p, ws)
      | Some cid \<Rightarrow>
          (case make_cursor_name (conn_at p cid) of (cursor_name, c) \<Rightarrow>
             bind_async (decl cursor_name ws c) (\<lambda>(r, c', ws').
               let p' = set_conn cid c' p in
               if \<not> qr_ok r
               then (case (if is_fatal_connection_error r then drop_connection t p' else (t, p')) of (t2, p2) \<Rightarrow>
                       Finished (Inl (to_op_error r), t2, p2, ws'))
               else Finished (Inr (stream_borrowed cid cursor_name batch_size), t, p', ws'))))"

definition tx_stream where
  "tx_stream L sql batch_size ws t p = tx_stream_with L (\<lambda>name. cursor_declare_in_tx L name sql) batch_size ws t p"

definition tx_stream_params where
  "tx_stream_params L send_params le P dump sql batch_size args ws t p =
     tx_stream_with L (cursor_declare_in_tx_params L send_params le P dump sql args) batch_size ws t p"

section \<open>Typed streams\<close>

record typed_stream =
  ts_inner :: row_stream
  ts_plan :: NamedPlan
  ts_plan_ready :: bool

definition new_typed_stream :: "struct_info \<Rightarrow> row_stream \<Rightarrow> typed_stream" where
  "new_typed_stream st s = \<lparr>ts_inner = s,
     ts_plan = \<lparr>np_col = replicate (length (si_fields st)) 0, np_usable = False, np_why = []\<rparr>, ts_plan_ready = False\<rparr>"

text \<open>\<^verbatim>\<open>map\<close>: the value or the text of the \<^verbatim>\<open>std::runtime_error\<close>.\<close>

definition typed_map ::
  "'x externs \<Rightarrow> struct_info \<Rightarrow> typed_stream \<Rightarrow> Row \<Rightarrow> (string + 'x cpp_val list) \<times> typed_stream" where
  "typed_map X st ts row =
     (let cs = st_columns (ts_inner ts);
          ts = (if \<not> ts_plan_ready ts then ts\<lparr>ts_plan := make_named_plan st cs False, ts_plan_ready := True\<rparr> else ts);
          named = decode_named X st (ts_plan ts) cs row (default_obj X st) None
      in if np_usable (ts_plan ts) \<and> fst named then (Inr (fst (snd named)), ts)
         else (case fill_from_row_positional_ex X st row (if cs = [] then None else Some cs) (default_obj X st) (Some []) of
             (ok, dst, err) \<Rightarrow> (if \<not> ok then Inl (runtime_text err) else Inr dst, ts)))"

definition typed_next ::
  "'c libpq \<Rightarrow> 'x externs \<Rightarrow> struct_info \<Rightarrow> typed_stream \<times> 'c pool \<times> 'c wake list
    \<Rightarrow> ((string + 'x cpp_val list option) \<times> typed_stream \<times> 'c pool \<times> 'c wake list) async" where
  "typed_next L X st = (\<lambda>(ts, p, ws).
     bind_async (if \<not> has_buffered (ts_inner ts) then stream_fetch L (ts_inner ts, p, ws)
                 else Finished (True, ts_inner ts, p, ws)) (\<lambda>(fetched, s, p', ws').
       if \<not> fetched then Finished (Inr None, ts\<lparr>ts_inner := s\<rparr>, p', ws')
       else (case pop_buffered s of (r, s') \<Rightarrow>
         (case typed_map X st (ts\<lparr>ts_inner := s'\<rparr>) r of (v, ts') \<Rightarrow>
            Finished (map_sum id Some v, ts', p', ws')))))"

definition typed_close where
  "typed_close L = (\<lambda>(ts, p, ws).
     bind_async (stream_close L (ts_inner ts, p, ws)) (\<lambda>(s, p', ws'). Finished (ts\<lparr>ts_inner := s\<rparr>, p', ws')))"

text \<open>\<^verbatim>\<open>s | as<T>\<close>.\<close>

definition pipe_as :: "row_stream \<Rightarrow> struct_info \<Rightarrow> typed_stream" where
  "pipe_as s st = new_typed_stream st s"

definition stream_reflect where
  "stream_reflect st r = (case r of Inl e \<Rightarrow> Inl e | Inr s \<Rightarrow> Inr (new_typed_stream st s))"


section \<open>Streams as pull streams\<close>

definition row_next :: "'c libpq \<Rightarrow> ('c stream_state, Row) puller" where
  "row_next L st =
     (case stream_next L st of
        Finished (Some r, st') \<Rightarrow> Some (Item r, st')
      | Finished (None, st') \<Rightarrow> Some (EndOfStream, st')
      | _ \<Rightarrow> None)"

definition row_close :: "'c libpq \<Rightarrow> 'c stream_state \<Rightarrow> 'c stream_state option" where
  "row_close L st = (case stream_close L st of Finished st' \<Rightarrow> Some st' | _ \<Rightarrow> None)"

definition row_dtor :: "'c stream_state \<Rightarrow> 'c stream_state" where
  "row_dtor = (\<lambda>(s, p, ws). case stream_destroy s p of (s', p') \<Rightarrow> (s', p', ws))"

definition typed_puller where
  "typed_puller L X st ts =
     (case typed_next L X st ts of
        Finished (Inr (Some v), ts') \<Rightarrow> Some (Item v, ts')
      | Finished (Inr None, ts') \<Rightarrow> Some (EndOfStream, ts')
      | Finished (Inl e, ts') \<Rightarrow> Some (Raised e, ts')
      | _ \<Rightarrow> None)"

text \<open>The rows a stream has before it: those of the buffer and of every later FETCH, up to the last. \<open>err\<close> is the error
  it ends with.\<close>

inductive row_run :: "'c libpq \<Rightarrow> PgOpError option \<Rightarrow> 'c stream_state \<Rightarrow> Row list \<Rightarrow> bool" for L err where
  buffered: "has_buffered s \<Longrightarrow> row_run L err (s\<lparr>st_buf_idx := st_buf_idx s + 1\<rparr>, p, ws) R
    \<Longrightarrow> row_run L err (s, p, ws) (st_buf s ! st_buf_idx s # R)"
| batch: "\<not> has_buffered s \<Longrightarrow> stream_fetch L (s, p, ws) = Finished (True, st) \<Longrightarrow> row_run L err st R
    \<Longrightarrow> row_run L err (s, p, ws) R"
| at_end: "\<not> has_buffered s \<Longrightarrow> stream_fetch L (s, p, ws) = Finished (False, s', pw) \<Longrightarrow> st_err s' = err
    \<Longrightarrow> row_run L err (s, p, ws) []"

inductive_cases row_run_Cons: "row_run L err (s, p, ws) (x # xs)"
inductive_cases row_run_Nil: "row_run L err (s, p, ws) []"

lemma absorb_chunk_True: "fst (absorb_chunk ch s) \<Longrightarrow> st_active s \<Longrightarrow> has_buffered (snd (absorb_chunk ch s))"
  by (auto simp: absorb_chunk_def has_buffered_def Let_def split: if_splits)

lemma absorb_chunk_False:
  "\<not> fst (absorb_chunk ch s) \<Longrightarrow> \<not> has_buffered s \<Longrightarrow>
     st_exhausted (snd (absorb_chunk ch s)) \<and> \<not> has_buffered (snd (absorb_chunk ch s))"
  by (auto simp: absorb_chunk_def has_buffered_def Let_def split: if_splits)

lemma fetch_True: "stream_fetch L (s, p, ws) = Finished (True, s', pw) \<Longrightarrow> has_buffered s'"
  by (auto simp: stream_fetch_def bind_eq_Finished case_prod_beta absorb_chunk_True split: if_splits option.splits)

lemma fetch_False_state:
  assumes "stream_fetch L (s, p, ws) = Finished (False, s', p', ws')" "\<not> has_buffered s"
  shows "(\<not> st_active s' \<or> st_exhausted s') \<and> \<not> has_buffered s'"
  using assms
  by (auto simp: stream_fetch_def bind_eq_Finished case_prod_beta dest: absorb_chunk_False split: if_splits option.splits)

lemma fetch_False:
  assumes "stream_fetch L (s, p, ws) = Finished (False, s', p', ws')" "\<not> has_buffered s"
  shows "\<not> has_buffered s' \<and> stream_fetch L (s', p', ws') = Finished (False, s', p', ws')"
  using fetch_False_state [OF assms] by (auto simp: stream_fetch_def)

lemma row_run_item:
  assumes "row_run L err (s, p, ws) (x # xs)"
  shows "\<exists>st'. row_next L (s, p, ws) = Some (Item x, st') \<and> row_run L err st' xs"
  using assms
proof (elim row_run_Cons, goal_cases)
  case 1
  then show ?thesis by (auto simp: row_next_def stream_next_def pop_buffered_def)
next
  case batch: (2 st)
  obtain s1 p1 w1 where st: "st = (s1, p1, w1)" using prod_cases3 by blast
  have "has_buffered s1" using batch(2) fetch_True st by blast
  with batch(3) [unfolded st] have "x = st_buf s1 ! st_buf_idx s1"
    "row_run L err (s1\<lparr>st_buf_idx := st_buf_idx s1 + 1\<rparr>, p1, w1) xs"
    by (auto elim: row_run_Cons)
  with batch st show ?thesis by (auto simp: row_next_def stream_next_def pop_buffered_def)
qed

lemma row_run_end:
  assumes "row_run L err (s, p, ws) []"
  shows "\<exists>st'. row_next L (s, p, ws) = Some (EndOfStream, st') \<and> row_run L err st' [] \<and> st_err (fst st') = err"
  using assms
proof (elim row_run_Nil, goal_cases)
  case batch: (1 st)
  obtain s1 p1 w1 where st: "st = (s1, p1, w1)" using prod_cases3 by blast
  have "has_buffered s1" using batch(2) fetch_True st by blast
  with batch(3) [unfolded st] show ?thesis by (auto elim: row_run_Nil)
next
  case fin: (2 s' pw)
  obtain p1 w1 where pw: "pw = (p1, w1)" by (cases pw)
  from fetch_False [OF fin(2) [unfolded pw] fin(1)] fin(3) have "row_run L err (s', p1, w1) []"
    unfolding pw by (blast intro: row_run.at_end)
  with fin pw show ?thesis by (auto simp: row_next_def stream_next_def)
qed

interpretation rows: pull_stream "row_next L" "\<lambda>st R e. e = None \<and> row_run L err st R" for L err
proof (unfold_locales, goal_cases)
  case (1 st x xs e)
  then show ?case by (cases st) (auto dest: row_run_item)
next
  case (2 st)
  then show ?case by (cases st) (use row_run_end in fastforce)
qed simp


section \<open>What a cursor delivers\<close>

text \<open>
  What PostgreSQL documents of a cursor, for the connection states and wakes in \<open>ahead c ws R\<close>: with the rows \<open>R\<close> before
  the cursor, \<^verbatim>\<open>FETCH FORWARD n\<close> returns the next \<open>n\<close> of them or those left; with none before it, it returns no
  rows, or the error \<open>fin\<close>.
\<close>

definition cursor_answers ::
  "'c libpq \<Rightarrow> string \<Rightarrow> u32 \<Rightarrow> PgOpError option \<Rightarrow> ('c conn \<Rightarrow> 'c wake list \<Rightarrow> Row list \<Rightarrow> bool) \<Rightarrow> bool" where
  "cursor_answers L name n fin ahead \<longleftrightarrow>
     (\<forall>c ws R. ahead c ws R \<longrightarrow> (\<exists>ch c' ws'. cursor_fetch_chunk L name n ws c = Finished (ch, c', ws') \<and>
        (if R = [] \<and> fin \<noteq> None
         then \<not> cc_ok ch \<and> fin = Some \<lparr>oe_code = cc_code ch, oe_error = cc_error ch, oe_err_detail = cc_err_detail ch\<rparr>
         else cc_ok ch \<and> cc_rows ch = take (unat n) R \<and> ahead c' ws' (drop (unat n) R))))"

lemma row_run_buffer:
  assumes "row_run L err (s\<lparr>st_buf_idx := length (st_buf s)\<rparr>, p, ws) R" "st_active s" "st_buf_idx s \<le> length (st_buf s)"
  shows "row_run L err (s, p, ws) (drop (st_buf_idx s) (st_buf s) @ R)"
  using assms
proof (induction "length (st_buf s) - st_buf_idx s" arbitrary: s)
  case 0
  then have "s\<lparr>st_buf_idx := length (st_buf s)\<rparr> = s" "drop (st_buf_idx s) (st_buf s) = []" by simp_all
  with 0 show ?case by simp
next
  case (Suc k)
  let ?s = "s\<lparr>st_buf_idx := st_buf_idx s + 1\<rparr>"
  have lt: "st_buf_idx s < length (st_buf s)" using Suc.hyps(2) by simp
  have "row_run L err (?s, p, ws) (drop (st_buf_idx ?s) (st_buf ?s) @ R)"
    by (rule Suc.hyps(1)) (use Suc lt in auto)
  with lt Suc.prems(2) row_run.buffered [of s L err p ws "drop (st_buf_idx s + 1) (st_buf s) @ R"] show ?case
    by (simp add: has_buffered_def Cons_nth_drop_Suc [symmetric])
qed

text \<open>A stream at the end of its buffer, with the rows \<open>R\<close> before its cursor.\<close>

lemma row_run_ahead:
  assumes "cursor_answers L name n fin ahead" "0 < unat n" "ahead (conn_at p cid) ws R" "cid < length (pl_conns p)"
    and "st_active s" "\<not> st_exhausted s" "st_conn s = Some cid" "st_cursor_name s = name" "st_batch_size s = n"
    and "st_buf_idx s = length (st_buf s)" "st_err s = None"
  shows "row_run L fin (s, p, ws) R"
  using assms
proof (induction "length R" arbitrary: R s p ws rule: less_induct)
  case less
  obtain ch c' ws' where f: "cursor_fetch_chunk L name n ws (conn_at p cid) = Finished (ch, c', ws')"
    and r: "if R = [] \<and> fin \<noteq> None
         then \<not> cc_ok ch \<and> fin = Some \<lparr>oe_code = cc_code ch, oe_error = cc_error ch, oe_err_detail = cc_err_detail ch\<rparr>
         else cc_ok ch \<and> cc_rows ch = take (unat n) R \<and> ahead c' ws' (drop (unat n) R)"
    using less.prems(1,3) unfolding cursor_answers_def by meson
  have nb: "\<not> has_buffered s" using less.prems by (simp add: has_buffered_def)
  note fetch = stream_fetch_def less.prems(5-9) f absorb_chunk_def Let_def
  show ?case
  proof (cases R)
    case Nil
    have "\<exists>s' pw. stream_fetch L (s, p, ws) = Finished (False, s', pw) \<and> st_err s' = fin"
      using r Nil less.prems(11) by (cases fin) (auto simp: fetch)
    with row_run.at_end [OF nb] Nil show ?thesis by blast
  next
    case (Cons x xs)
    let ?s = "s\<lparr>st_columns := (if st_columns s = [] \<and> cc_columns ch \<noteq> [] then cc_columns ch else st_columns s),
      st_buf := take (unat n) R, st_buf_idx := 0\<rparr>"
    let ?p = "set_conn cid c' p"
    have "stream_fetch L (s, p, ws) = Finished (True, ?s, ?p, ws')"
      using r Cons less.prems(2) by (auto simp: fetch take_eq_Nil)
    moreover have "row_run L fin (?s\<lparr>st_buf_idx := length (st_buf ?s)\<rparr>, ?p, ws') (drop (unat n) R)"
      by (rule less.hyps) (use less.prems r Cons in auto)
    then have "row_run L fin (?s, ?p, ws') (drop (st_buf_idx ?s) (st_buf ?s) @ drop (unat n) R)"
      by (rule row_run_buffer) (use less.prems in auto)
    ultimately show ?thesis using row_run.batch [OF nb] by simp
  qed
qed

lemma new_stream_run:
  assumes "cursor_answers L name (if n = 0 then 1 else n) fin ahead" "ahead (conn_at p cid) ws R" "cid < length (pl_conns p)"
    and "s = stream_borrowed cid name n \<or> s = stream_owning cid name n"
  shows "row_run L fin (s, p, ws) R"
  by (rule row_run_ahead [OF assms(1) _ assms(2,3)])
     (use assms(4) in \<open>auto simp: stream_borrowed_def stream_owning_def empty_stream_def unat_gt_0\<close>)

section \<open>Typed rows\<close>

text \<open>A typed stream is the row stream with each row mapped.\<close>

lemma typed_puller_rows:
  "typed_puller L X st (ts, p, ws) =
     (case row_next L (ts_inner ts, p, ws) of
        None \<Rightarrow> None
      | Some (EndOfStream, s, pw) \<Rightarrow> Some (EndOfStream, ts\<lparr>ts_inner := s\<rparr>, pw)
      | Some (Raised e, s, pw) \<Rightarrow> Some (Raised e, ts\<lparr>ts_inner := s\<rparr>, pw)
      | Some (Item r, s, pw) \<Rightarrow>
          (case typed_map X st (ts\<lparr>ts_inner := s\<rparr>) r of
             (Inl e, ts') \<Rightarrow> Some (Raised e, ts', pw) | (Inr v, ts') \<Rightarrow> Some (Item v, ts', pw)))"
  by (cases "stream_fetch L (ts_inner ts, p, ws)")
     (auto simp: typed_puller_def typed_next_def row_next_def stream_next_def bind_async_def pop_buffered_def
       split: prod.splits sum.splits)

definition plan_current :: "struct_info \<Rightarrow> typed_stream \<Rightarrow> bool" where
  "plan_current st ts \<longleftrightarrow> (ts_plan_ready ts \<longrightarrow> ts_plan ts = make_named_plan st (st_columns (ts_inner ts)) False)"

lemma typed_map_eq:
  assumes "plan_current st ts" "si_aggregate st"
  shows "fst (typed_map X st ts row) =
    map_row_named_or_positional X st (empty_result\<lparr>qr_columns := st_columns (ts_inner ts), qr_rows := [row]\<rparr>) 0"
  using assms
  by (auto simp: typed_map_def plan_current_def map_row_named_or_positional_def map_single_reflect_positional_def
      map_row_reflect_positional_ex_def Let_def split: prod.splits)


section \<open>The connection of a stream\<close>

text \<open>A connection is settled when it is back in the queue of the pool or accounted as dead.\<close>

definition settled :: "cid \<Rightarrow> 'c pool \<Rightarrow> bool" where
  "settled cid p \<longleftrightarrow> cid \<in> set (pl_idle p) \<or> cn_dead_accounted (conn_at p cid)"

lemma settled_mark_dead: "cid < length (pl_conns p) \<Longrightarrow> settled cid (mark_dead (Some cid) p)"
  by (auto simp: settled_def mark_dead_def Let_def conn_at_def set_conn_def conn_close_def)

lemma settled_release: "cid < length (pl_conns p) \<Longrightarrow> settled cid (release_connection L (Some cid) p)"
  using settled_mark_dead [of cid "set_conn cid (set_io_deadline_ms 0 (conn_at p cid)) p"]
  by (auto simp: release_connection_def Let_def) (auto simp: settled_def)

lemma settled_release_async:
  "release_connection_async L ws (Some cid) p = Finished (p', ws') \<Longrightarrow> cid < length (pl_conns p) \<Longrightarrow> settled cid p'"
  by (auto simp: release_connection_async_def Let_def settled_release split: if_splits async.splits option.splits)

lemmas settle = settled_mark_dead settled_release settled_release_async

lemma settled_stream_failed:
  "stream_failed L cid r p ws = Finished (x, p', ws') \<Longrightarrow> cid < length (pl_conns p) \<Longrightarrow> settled cid p' \<and> x = Inl (to_op_error r)"
  by (auto simp: stream_failed_def bind_eq_Finished settle split: if_splits)

lemma close_note_frame [simp]:
  "st_pool (snd (close_note r fs)) = st_pool (snd fs)" "st_conn (snd (close_note r fs)) = st_conn (snd fs)"
  "st_active (snd (close_note r fs)) = st_active (snd fs)"
  by (auto simp: close_note_def case_prod_beta)

lemma close_commands_frame:
  "close_commands L s ws c = Finished (fs, c', ws') \<Longrightarrow>
     st_pool (snd fs) = st_pool s \<and> st_conn (snd fs) = st_conn s \<and> st_active (snd fs) = st_active s"
  by (auto simp: close_commands_def bind_eq_Finished Let_def split: if_splits)

lemma close_settles:
  assumes "stream_close L (s, p, ws) = Finished (s', p', ws')" "st_active s" "st_pool s" "st_conn s = Some cid"
    and "cid < length (pl_conns p)"
  shows "\<not> st_active s' \<and> st_conn s' = None \<and> settled cid p'"
proof (cases "connected L (conn_at p cid)")
  case False
  with assms show ?thesis by (auto simp: stream_close_def settle)
next
  case True
  with assms obtain f s1 c w where c: "close_commands L (s\<lparr>st_active := False\<rparr>) ws (conn_at p cid) = Finished ((f, s1), c, w)"
    "close_return L cid f (s1, set_conn cid c p, w) = Finished (s', p', ws')"
    by (auto simp: stream_close_def bind_eq_Finished)
  with close_commands_frame [OF c(1)] assms show ?thesis
    by (auto simp: close_return_def bind_eq_Finished settle split: if_splits)
qed


lemma open_settles:
  assumes "pool_stream_with L cf decl n e p = Finished (r, p', ws')"
    and "acquire_connection L cf (te_sems e) (te_attempts e) p = Finished (Inr cid, p1)" "cid < length (pl_conns p1)"
  shows "case r of Inl _ \<Rightarrow> settled cid p' | Inr s \<Rightarrow> st_active s \<and> st_pool s \<and> st_conn s = Some cid"
  using assms
  by (auto simp: pool_stream_with_def bind_eq_Finished stream_owning_def stream_borrowed_def
      split: if_splits prod.splits dest!: settled_stream_failed)

lemma destroy_settles:
  assumes "st_active s" "st_pool s" "st_conn s = Some cid" "cid < length (pl_conns p)"
  shows "settled cid (snd (stream_destroy s p))"
  using assms by (simp add: stream_destroy_def settle)

text \<open>Either the wakes left still cut whatever is awaited, or the connection is lost and nothing more is awaited.\<close>

definition cut_off :: "'c libpq \<Rightarrow> 'c conn \<Rightarrow> 'c wake list \<Rightarrow> bool" where
  "cut_off L c ws \<longleftrightarrow> \<not> connected L c \<or> list_ex interrupts ws"

lemma run_query_cut_off:
  assumes "finite_results L m" "cut_off L c ws"
  shows "\<exists>q c' ws'. run_query L send ws c = Finished (q, c', ws') \<and> cut_off L c' ws'"
proof (cases "connected L c")
  case False
  then have "run_query L send ws c = Finished (closed_result ''connection not OK'', c, ws)"
    by (auto simp: run_query_def split: option.split)
  with assms(2) show ?thesis by blast
next
  case True
  with run_query_interruptible [OF assms(1), of ws] assms(2) show ?thesis by (auto simp: cut_off_def)
qed

lemma close_commands_live:
  assumes "finite_results L m" "cut_off L c ws"
  shows "\<exists>fs c' ws'. close_commands L s ws c = Finished (fs, c', ws') \<and> cut_off L c' ws'"
proof -
  obtain q c1 w1 where q: "cursor_close_in_tx L (st_cursor_name s) ws c = Finished (q, c1, w1)" "cut_off L c1 w1"
    using run_query_cut_off [OF assms] assms(2) unfolding cursor_close_in_tx_def exec_simple_def by metis
  obtain q2 c2 w2 where "exec_simple L ''COMMIT;'' w1 c1 = Finished (q2, c2, w2)" "cut_off L c2 w2"
    using run_query_cut_off [OF assms(1) q(2)] unfolding exec_simple_def by metis
  with q show ?thesis by (auto simp: close_commands_def Let_def)
qed

lemma stream_close_live:
  assumes "drains L m" "list_ex interrupts ws" "\<forall>cid. st_conn s = Some cid \<longrightarrow> cid < length (pl_conns p)"
  shows "\<exists>st'. stream_close L (s, p, ws) = Finished st'"
proof (cases "if st_active s then st_conn s else None")
  case None
  then show ?thesis by (auto simp: stream_close_def split: if_splits)
next
  case (Some cid)
  then have s: "st_active s" "st_conn s = Some cid" "cid < length (pl_conns p)" using assms(3) by (auto split: if_splits)
  have "cut_off L (conn_at p cid) ws" using assms(2) by (simp add: cut_off_def)
  then obtain f s1 c1 w1 where c: "close_commands L (s\<lparr>st_active := False\<rparr>) ws (conn_at p cid) = Finished ((f, s1), c1, w1)"
    "cut_off L c1 w1" using close_commands_live [OF drains_finite [OF assms(1)]] by (metis surj_pair)
  have "\<exists>r. release_connection_async L w1 (Some cid) (set_conn cid c1 p) = Finished r"
  proof (cases "list_ex interrupts w1")
    case True
    with release_connection_async_live [OF assms(1)] show ?thesis by blast
  next
    case False
    with c(2) s(3) show ?thesis
      by (auto simp: release_connection_async_def Let_def cut_off_def set_io_deadline_ms_def connected_def
          split: option.splits)
  qed
  with s c show ?thesis by (auto simp: stream_close_def close_return_def Let_def)
qed

section \<open>Properties\<close>

text \<open>C14: a stream delivers exactly the rows of its cursor: reading it until \<^verbatim>\<open>next()\<close> returns \<^verbatim>\<open>nullopt\<close> gives every row
  once and in order, whatever the batch size (0 counts as 1), on a pooled connection as in a transaction; then
  \<^verbatim>\<open>error()\<close> is set if and only if a FETCH failed, with that FETCH's error.\<close>

theorem stream_delivers_cursor:
  assumes "cursor_answers L name (if n = 0 then 1 else n) fin ahead" "ahead (conn_at p cid) ws R"
    and "cid < length (pl_conns p)" "s = stream_borrowed cid name n \<or> s = stream_owning cid name n"
  shows "\<exists>s' p' ws'. each_loop (row_next L) (\<lambda>out v. (None, out @ [v])) [] (s, p, ws) = Some (None, R, s', p', ws')
    \<and> st_err s' = fin"
proof -
  have run: "row_run L fin (s, p, ws) R" by (rule new_stream_run [OF assms])
  obtain st' st0 where l: "each_loop (row_next L) (\<lambda>out v. (None, out @ [v])) [] (s, p, ws) = Some (None, R, st')"
    and e: "row_run L fin st0 []" "row_next L st0 = Some (EndOfStream, st')"
    using rows.each_loop_run [where s = "(s, p, ws)" and e = None and body = "\<lambda>out v. (None, out @ [v])" and acc = "[]"
        and acc' = R and err = None] run
    by (fastforce simp: fold_run_collect)
  from e row_run_end [of L fin "fst st0" "fst (snd st0)" "snd (snd st0)"] have "st_err (fst st') = fin" by auto
  with l show ?thesis by (metis prod.collapse)
qed


text \<open>A server that answers every FETCH with the next row of a one-column cursor.\<close>

definition cursor_libpq :: "(string list \<times> pg_result option) libpq" where
  "cursor_libpq = \<lparr>pq_status_ok = (\<lambda>_. True), pq_trans_idle = (\<lambda>_. True), pq_trans_inerror = (\<lambda>_. False),
     pq_busy = (\<lambda>_. False), pq_error = (\<lambda>_. []), pq_socket = (\<lambda>_. 3), pq_flush = (\<lambda>p. (0, p)),
     pq_consume_input = (\<lambda>p. (True, p)),
     pq_get_result = (\<lambda>(cur, r). (r, (cur, None))),
     pq_send_query = (\<lambda>_ (cur, _). (True, drop 1 cur,
       Some ((sample_pg_result PGRES_TUPLES_OK)\<lparr>rs_tuples := map (\<lambda>v. [Some v]) (take 1 cur)\<rparr>))),
     pq_put_copy_data = (\<lambda>_ _ p. (1, p)), pq_put_copy_end = (\<lambda>_ p. (1, p)), pq_get_copy_data = (\<lambda>p. (- 1, [], p)),
     pq_peek = (\<lambda>_. (- 1, True))\<rparr>"

definition cursor_ahead :: "(string list \<times> pg_result option) conn \<Rightarrow> (string list \<times> pg_result option) wake list
    \<Rightarrow> Row list \<Rightarrow> bool" where
  "cursor_ahead c ws R \<longleftrightarrow> (\<exists>cur. c = open_conn (cur, None) \<and> R = map (\<lambda>v. \<lparr>cols = [v]\<rparr>) cur)"

definition one_conn_pool :: "'c \<Rightarrow> 'c pool" where
  "one_conn_pool q = (new_pool 1 1)\<lparr>pl_live_count := 1, pl_conns := [open_conn q]\<rparr>"

lemma cursor_libpq_fetch:
  "cursor_fetch_chunk cursor_libpq ''usub_cur_1'' n ws (open_conn (cur, None)) =
     Finished (empty_chunk\<lparr>cc_ok := True, cc_code := OK, cc_rows := map (\<lambda>v. \<lparr>cols = [v]\<rparr>) (take 1 cur),
       cc_columns := [''a''], cc_done := (cur = [])\<rparr>, open_conn (drop 1 cur, None), ws)"
proof -
  have "is_safe_cursor_ident ''usub_cur_1''" by code_simp
  then show ?thesis
    by (simp add: cursor_fetch_chunk_def exec_simple_def run_query_def connected_def open_conn_def new_conn_def
      cursor_libpq_def map_async_def Let_def flush_loop.simps flush_step_def collect_loop.simps collect_step_def
      collect_results.simps absorb_result_def sample_pg_result_def fresh_result_def empty_result_def append_rows_def
      result_rows_def cell_of_def chunk_of_result_def empty_chunk_def)
qed

lemma cursor_libpq_answers: "cursor_answers cursor_libpq ''usub_cur_1'' 1 None cursor_ahead"
  unfolding cursor_answers_def
proof (intro allI impI)
  fix c ws R assume "cursor_ahead c ws R"
  then obtain cur where "c = open_conn (cur, None)" "R = map (\<lambda>v. \<lparr>cols = [v]\<rparr>) cur" by (auto simp: cursor_ahead_def)
  then show "\<exists>ch c' ws'. cursor_fetch_chunk cursor_libpq ''usub_cur_1'' 1 ws c = Finished (ch, c', ws') \<and>
     (if R = [] \<and> None \<noteq> None
      then \<not> cc_ok ch \<and> None = Some \<lparr>oe_code = cc_code ch, oe_error = cc_error ch, oe_err_detail = cc_err_detail ch\<rparr>
      else cc_ok ch \<and> cc_rows ch = take (unat (1 :: u32)) R \<and> cursor_ahead c' ws' (drop (unat (1 :: u32)) R))"
    by (auto simp: cursor_libpq_fetch cursor_ahead_def empty_chunk_def take_map drop_map)
qed

theorem stream_delivers_cursor_witness:
  "\<exists>s' p' ws'. each_loop (row_next cursor_libpq) (\<lambda>out v. (None, out @ [v])) []
      (stream_owning 0 ''usub_cur_1'' 0, one_conn_pool ([''x'', ''y''], None), [])
     = Some (None, [\<lparr>cols = [''x'']\<rparr>, \<lparr>cols = [''y'']\<rparr>], s', p', ws') \<and> st_err s' = None"
  by (rule stream_delivers_cursor [where name = "''usub_cur_1''" and n = 0 and ahead = cursor_ahead and cid = 0])
     (auto simp: cursor_libpq_answers cursor_ahead_def one_conn_pool_def conn_at_def
       intro!: exI [of _ "[''x'', ''y'']"])

text \<open>The pipeline \<^verbatim>\<open>s | skip(k) | filter(P) | transform(g) | take(m)\<close> over a row stream.\<close>

definition row_pipeline where
  "row_pipeline L P g = take_next (transform_next (filter_next (skip_next (row_next L)) (pure_call P)) (pure_call g))"

text \<open>What the pipeline delivers: the contract of pull streams carried through the four adaptors.\<close>

definition pipeline_runs where
  "pipeline_runs L err P g = take_runs (transform_runs (filter_runs (skip_runs (\<lambda>st R e. e = None \<and> row_run L err st R))
     (pure_call P)) (pure_call g))"

lemma pipeline_pull: "pull_stream (row_pipeline L P g) (pipeline_runs L err P g)"
  unfolding row_pipeline_def pipeline_runs_def
  by (intro pull_stream.take_pull pull_stream.transform_pull pull_stream.filter_pull rows.skip_pull)

lemma pipeline_runs_rows:
  assumes "row_run L err st R"
  shows "pipeline_runs L err P g ((((st, k), ()), ()), m) (take (unat m) (map g (filter P (drop (unat k) R)))) None"
proof -
  have "skip_runs (\<lambda>st R e. e = None \<and> row_run L err st R) (st, k) (drop (unat k) R) None"
    using assms by (auto simp: skip_runs_def)
  then have "filter_runs (skip_runs (\<lambda>st R e. e = None \<and> row_run L err st R)) (pure_call P) ((st, k), ())
      (filter P (drop (unat k) R)) None"
    by (auto simp: filter_runs_def)
  then have "transform_runs (filter_runs (skip_runs (\<lambda>st R e. e = None \<and> row_run L err st R)) (pure_call P)) (pure_call g)
      (((st, k), ()), ()) (map g (filter P (drop (unat k) R))) None"
    by (fastforce simp: transform_runs_def)
  then show ?thesis by (fastforce simp: pipeline_runs_def take_runs_def take_run_def)
qed

lemma terminal_run:
  assumes "pull_stream nxt runs" "runs s xs None" "fold_run body xs None acc = (None, acc')"
  shows "\<exists>s'. finish_terminal cls dtor (each_loop nxt body acc s) = map_option (\<lambda>t. (Inr acc', dtor t)) (cls s')"
  using pull_stream.each_loop_run [OF assms] by (auto simp: finish_terminal_def)

text \<open>Over a row stream with the rows \<open>R\<close> before it, the pipeline \<^verbatim>\<open>skip(k) | filter(P) | transform(g) | take(m)\<close> with
  the terminal \<^verbatim>\<open>collect\<close> returns the first \<open>m\<close> values of \<open>g\<close> on those rows behind the first \<open>k\<close> that satisfy \<open>P\<close>, in order,
  \<^verbatim>\<open>count\<close> returns their number modulo 2 to the 64, and \<^verbatim>\<open>reduce\<close> folds them; each of them closes the stream and then
  destroys it.\<close>

theorem pipeline_collects:
  assumes "row_run L err st R" "out = take (unat m) (map g (filter P (drop (unat k) R)))"
  shows "(\<exists>st'. collect_terminal (row_pipeline L P g) cls dtor ((((st, k), ()), ()), m)
        = map_option (\<lambda>s. (Inr out, dtor s)) (cls st'))
    \<and> (\<exists>st'. count_terminal (row_pipeline L P g) cls dtor ((((st, k), ()), ()), m)
        = map_option (\<lambda>s. (Inr (of_nat (length out)), dtor s)) (cls st'))
    \<and> (\<exists>st'. reduce_terminal (row_pipeline L P g) cls dtor (\<lambda>a v. Inr (h a v)) a ((((st, k), ()), ()), m)
        = map_option (\<lambda>s. (Inr (foldl h a out), dtor s)) (cls st'))"
  unfolding collect_terminal_def count_terminal_def reduce_terminal_def
  using pipeline_runs_rows [OF assms(1), where P = P and g = g and k = k and m = m] assms(2)
  by (intro conjI terminal_run [OF pipeline_pull, where xs = out])
     (auto simp: fold_run_collect fold_run_count fold_run_reduce)

theorem pipeline_collects_witness:
  "\<exists>st'. collect_terminal (row_pipeline cursor_libpq (\<lambda>r. cols r \<noteq> [''y'']) (\<lambda>r. hd (cols r))) Some id
      (((((stream_owning 0 ''usub_cur_1'' 1, one_conn_pool ([''w'', ''x'', ''y'', ''z''], None), []), 1), ()), ()), 5)
     = Some (Inr [''x'', ''z''], st')"
proof -
  let ?R = "map (\<lambda>v. \<lparr>cols = [v]\<rparr>) [''w'', ''x'', ''y'', ''z'']"
  have "row_run cursor_libpq None (stream_owning 0 ''usub_cur_1'' 1, one_conn_pool ([''w'', ''x'', ''y'', ''z''], None), []) ?R"
    by (rule new_stream_run [where n = 1 and ahead = cursor_ahead and cid = 0])
       (auto simp: cursor_libpq_answers cursor_ahead_def one_conn_pool_def conn_at_def
         intro!: exI [of _ "[''w'', ''x'', ''y'', ''z'']"])
  from pipeline_collects [OF this refl, where m = 5 and k = 1 and P = "\<lambda>r. cols r \<noteq> [''y'']"
      and g = "\<lambda>r. hd (cols r)" and cls = Some and dtor = id and h = "\<lambda>n v. n" and a = "0 :: nat"]
  show ?thesis by auto
qed



section \<open>Pipelines over row streams\<close>

definition row_pipe :: "'c libpq \<Rightarrow> (Row \<Rightarrow> 'a) \<Rightarrow> ('c stream_state \<times> unit, 'a) puller" where
  "row_pipe L of_row = transform_next (row_next L) (pure_call of_row)"

definition pipe_row_close :: "'c libpq \<Rightarrow> ('c stream_state \<times> unit, 'a, 'u) pipeline \<Rightarrow> ('c stream_state \<times> unit, 'a, 'u) pipeline option" where
  "pipe_row_close L = pipe_close (adaptor_close (row_close L))"

text \<open>The end of a terminal: the value behind the close at \<open>t\<close>, or the exception; the stream destroyed.\<close>

definition terminal_result where
  "terminal_result cls dtor thrown value t =
     (case thrown of None \<Rightarrow> map_option (\<lambda>s. (Inr value, dtor s)) (cls t) | Some m \<Rightarrow> Some (Inl m, dtor t))"

lemma terminal_outcome:
  assumes "pull_stream nxt runs" "runs s xs e" "fold_run body xs e acc = (err, acc')"
  shows "\<exists>t. finish_terminal cls dtor (each_loop nxt body acc s) = terminal_result cls dtor err acc' t"
  using pull_stream.each_loop_run [OF assms] by (auto simp: finish_terminal_def terminal_result_def split: option.splits)

lemma row_pipe_runs:
  assumes "row_run L err st R" "pipe_run as (map of_row R, None) = r"
  shows "pipe_runs (transform_runs (\<lambda>st R e. e = None \<and> row_run L err st R) (pure_call of_row)) (length as) ((st, ()), as)
    (fst r) (snd r)"
proof -
  have "transform_runs (\<lambda>st R e. e = None \<and> row_run L err st R) (pure_call of_row) (st, ()) (map of_row R) None"
    using assms(1) by (auto simp: transform_runs_def)
  with assms(2) show ?thesis unfolding pipe_runs_def by fastforce
qed

text \<open>C15: Every pipeline over a row stream computes the list functions of its adaptors. \<open>of_row\<close> is a first \<^verbatim>\<open>transform\<close> into the type
  of the values; \<open>R\<close> are the rows before the stream, \<open>out\<close> is what the adaptors make of them one after the other,
  whatever their number and order and whatever the callables do. \<^verbatim>\<open>collect\<close> returns \<open>out\<close>, \<^verbatim>\<open>count\<close> its length modulo 2 to the
  64, \<^verbatim>\<open>reduce\<close> its fold, and each closes the row stream and nothing else before it is destroyed; when a callable throws, the
  exception leaves through the destructor.\<close>

theorem pipelines_compute:
  assumes "row_run L err st R" "pipe_run as (map of_row R, None) = (out, thrown)"
  shows "(\<exists>t. collect_terminal (pipe_next (row_pipe L of_row) (length as)) (pipe_row_close L) dtor ((st, ()), as)
      = terminal_result (pipe_row_close L) dtor thrown out t)
    \<and> (\<exists>t. count_terminal (pipe_next (row_pipe L of_row) (length as)) (pipe_row_close L) dtor ((st, ()), as)
      = terminal_result (pipe_row_close L) dtor thrown (of_nat (length out)) t)
    \<and> (\<exists>t. reduce_terminal (pipe_next (row_pipe L of_row) (length as)) (pipe_row_close L) dtor (\<lambda>a v. Inr (h a v)) a ((st, ()), as)
      = terminal_result (pipe_row_close L) dtor thrown (foldl h a out) t)
    \<and> (\<forall>s u. pipe_row_close L ((s, u), as) = map_option (\<lambda>s'. ((s', u), as)) (row_close L s))"
proof -
  let ?rows = "transform_runs (\<lambda>st R e. e = None \<and> row_run L err st R) (pure_call of_row)"
  have pull: "pull_stream (pipe_next (row_pipe L of_row) (length as)) (pipe_runs ?rows (length as))"
    unfolding row_pipe_def by (intro pipe_pull rows.transform_pull)
  have runs: "pipe_runs ?rows (length as) ((st, ()), as) out thrown"
    using row_pipe_runs [OF assms] by simp
  have "pipe_row_close L ((s, u), as) = map_option (\<lambda>s'. ((s', u), as)) (row_close L s)" for s u
    by (simp add: pipe_row_close_def pipe_close_source adaptor_close_def option.map_comp comp_def)
  then show ?thesis
    unfolding collect_terminal_def count_terminal_def reduce_terminal_def
    by (intro conjI allI terminal_outcome [OF pull runs]) (simp_all add: fold_run_collect fold_run_count fold_run_reduce)
qed

theorem pipelines_compute_witness:
  "\<exists>t. collect_terminal (pipe_next (row_pipe cursor_libpq (\<lambda>r. hd (cols r))) 3) (pipe_row_close cursor_libpq) id
      (((stream_owning 0 ''usub_cur_1'' 1, one_conn_pool ([''w'', ''x'', ''y'', ''z''], None), []), ()),
       [TakeAdaptor 5, FilterAdaptor (\<lambda>v u. (if v = ''z'' then Inl ''no'' else Inr (v \<noteq> ''x''), ())) (), SkipAdaptor 1])
     = Some (Inl ''no'', t)"
proof -
  let ?R = "map (\<lambda>v. \<lparr>cols = [v]\<rparr>) [''w'', ''x'', ''y'', ''z'']"
  let ?as = "[TakeAdaptor 5, FilterAdaptor (\<lambda>v u. (if v = ''z'' then Inl ''no'' else Inr (v \<noteq> ''x''), ())) (), SkipAdaptor 1]"
  have rows: "row_run cursor_libpq None (stream_owning 0 ''usub_cur_1'' 1, one_conn_pool ([''w'', ''x'', ''y'', ''z''], None), []) ?R"
    by (rule new_stream_run [where n = 1 and ahead = cursor_ahead and cid = 0])
       (auto simp: cursor_libpq_answers cursor_ahead_def one_conn_pool_def conn_at_def
         intro!: exI [of _ "[''w'', ''x'', ''y'', ''z'']"])
  have run: "pipe_run ?as (map (\<lambda>r. hd (cols r)) ?R, None) = ([''y''], Some ''no'')"
    by (simp add: take_run_def)
  from pipelines_compute [OF rows run, where dtor = id and h = "\<lambda>n v. n" and a = "0 :: nat"] show ?thesis by (auto simp: eval_nat_numeral terminal_result_def)
qed

end
