(* ===== verification/Pg_Calls.thy ===== *)
theory Pg_Calls
  imports Pg_RowStream
begin

text \<open>
  The statement calls of the public interface: the overloads of \<^verbatim>\<open>PgConnectionLibpq\<close> (PgConnection.h), \<^verbatim>\<open>PgPool\<close> (PgPool.h),
  \<^verbatim>\<open>PgTransaction\<close> and \<^verbatim>\<open>PgSubtransaction\<close> (PgTransaction.h) that take a statement and arguments and convert the result. They
  differ in how the statement is queued (with or without parameters), where it runs, how the result is converted, and in
  the check of the number of placeholders (\<^verbatim>\<open>assert_param_count\<close>) that the overloads for string literals and views make.
  The locale \<open>statement_calls\<close> is what the typed calls rely on: they are the untyped call followed by a conversion.
\<close>

section \<open>A client\<close>

text \<open>
  What is outside the repository or fixed per program: libpq, \<^verbatim>\<open>PQsendQueryParams\<close>, the byte order, the printers and parsers
  of values, and whether assertions are compiled in.
\<close>

record ('c, 'x, 'y) client =
  cl_libpq :: "'c libpq"
  cl_send_params :: "string \<Rightarrow> nat \<times> param_slot list \<Rightarrow> 'c \<Rightarrow> bool \<times> 'c"
  cl_le :: bool
  cl_printers :: "'x printers"
  cl_dump :: "'x \<Rightarrow> string"
  cl_externs :: "'y externs"
  cl_asserts :: bool

section \<open>Queueing a statement\<close>

definition make_param_send :: "('c, 'x, 'y) client \<Rightarrow> string \<Rightarrow> 'x param list \<Rightarrow> ('c \<Rightarrow> bool \<times> 'c) option" where
  "make_param_send cl sql args = map_option (cl_send_params cl sql) (send_query_params (cl_le cl) (cl_printers cl) (cl_dump cl) args)"

definition simple_send :: "('c, 'x, 'y) client \<Rightarrow> string \<Rightarrow> ('c \<Rightarrow> bool \<times> 'c) option" where
  "simple_send cl sql = Some (pq_send_query (cl_libpq cl) sql)"

definition make_send_of :: "('c, 'x, 'y) client \<Rightarrow> string \<Rightarrow> 'x param list \<Rightarrow> ('c \<Rightarrow> bool \<times> 'c) option" where
  "make_send_of cl sql args = (if args = [] then simple_send cl sql else make_param_send cl sql args)"

text \<open>
  \<^verbatim>\<open>assert_param_count\<close>, and the statement that an overload for a view passes on: \<open>None\<close> when the assertion ends the
  program. Overloads without arguments do not check.
\<close>

definition assert_param_count :: "('c, 'x, 'y) client \<Rightarrow> string \<Rightarrow> 'x param list \<Rightarrow> bool" where
  "assert_param_count cl sv args \<longleftrightarrow>
     (cl_asserts cl \<longrightarrow> count_pg_params sv = word_of_nat (count_total_params (map type_of_param args)))"

definition view_sql :: "('c, 'x, 'y) client \<Rightarrow> string \<Rightarrow> 'x param list \<Rightarrow> string option" where
  "view_sql cl sv args = (if assert_param_count cl sv args then Some sv else None)"

definition view_sql_args :: "('c, 'x, 'y) client \<Rightarrow> string \<Rightarrow> 'x param list \<Rightarrow> string option" where
  "view_sql_args cl sv args = (if args = [] then Some sv else view_sql cl sv args)"

text \<open>A statement whose arguments do not fit is undefined behaviour where it is queued, on a usable connection only.\<close>

definition guard_send :: "bool \<Rightarrow> (('c \<Rightarrow> bool \<times> 'c) \<Rightarrow> 'r async) \<Rightarrow> ('c \<Rightarrow> bool \<times> 'c) option \<Rightarrow> 'r async" where
  "guard_send usable run send = (case send of Some f \<Rightarrow> run f | None \<Rightarrow> if usable then Stuck else run (Pair False))"

section \<open>Calls on a connection\<close>

text \<open>\<^verbatim>\<open>run_query\<close> with the conversion \<open>finish\<close>.\<close>

definition conn_call ::
  "('c, 'x, 'y) client \<Rightarrow> (QueryResult \<Rightarrow> 'r) \<Rightarrow> ('c \<Rightarrow> bool \<times> 'c) option \<Rightarrow> 'c wake list \<Rightarrow> 'c conn
    \<Rightarrow> ('r \<times> 'c conn \<times> 'c wake list) async" where
  "conn_call cl finish send ws c =
     guard_send (connected (cl_libpq cl) c) (\<lambda>f. map_async finish (run_query (cl_libpq cl) f ws c)) send"

definition exec_param_query where
  "exec_param_query cl sql args ws c = conn_call cl (\<lambda>q. q) (make_param_send cl sql args) ws c"

definition exec_simple_rows where
  "exec_simple_rows cl st sql ws c = conn_call cl (AsRows (cl_externs cl) st) (simple_send cl sql) ws c"

definition exec_simple_one where
  "exec_simple_one cl st sql ws c = conn_call cl (AsOptionalRow (cl_externs cl) st) (simple_send cl sql) ws c"

definition exec_param_rows where
  "exec_param_rows cl st sql args ws c = conn_call cl (AsRows (cl_externs cl) st) (make_param_send cl sql args) ws c"

definition exec_param_one where
  "exec_param_one cl st sql args ws c = conn_call cl (AsOptionalRow (cl_externs cl) st) (make_param_send cl sql args) ws c"

definition exec_param_query_view where
  "exec_param_query_view cl sv args ws c = map_option (\<lambda>sql. exec_param_query cl sql args ws c) (view_sql cl sv args)"

definition exec_param_rows_view where
  "exec_param_rows_view cl st sv args ws c = map_option (\<lambda>sql. exec_param_rows cl st sql args ws c) (view_sql cl sv args)"

definition exec_param_one_view where
  "exec_param_one_view cl st sv args ws c = map_option (\<lambda>sql. exec_param_one cl st sql args ws c) (view_sql cl sv args)"

section \<open>Calls on a connection the caller holds\<close>

definition call_on ::
  "('c, 'x, 'y) client \<Rightarrow> (QueryResult \<Rightarrow> 'r) \<Rightarrow> string \<Rightarrow> 'x param list \<Rightarrow> 'c wake list \<Rightarrow> cid option \<Rightarrow> 'c pool
    \<Rightarrow> ('r \<times> 'c pool) async" where
  "call_on cl finish sql args ws conn p =
     guard_send (case conn of None \<Rightarrow> False | Some cid \<Rightarrow> connected (cl_libpq cl) (conn_at p cid))
       (\<lambda>f. run_on (cl_libpq cl) finish f ws conn p) (make_send_of cl sql args)"

definition query_on where
  "query_on cl sql args ws conn p = call_on cl (\<lambda>q. q) sql args ws conn p"

definition query_on_view where
  "query_on_view cl sv args ws conn p = map_option (\<lambda>sql. query_on cl sql args ws conn p) (view_sql cl sv args)"

definition query_on_reflect where
  "query_on_reflect cl st sql args ws conn p = call_on cl (AsRows (cl_externs cl) st) sql args ws conn p"

definition query_on_reflect_one where
  "query_on_reflect_one cl st sql args ws conn p = call_on cl (AsOptionalRow (cl_externs cl) st) sql args ws conn p"

definition query_on_reflect_expected where
  "query_on_reflect_expected cl st sql args ws conn p = call_on cl (AsExpectedRows (cl_externs cl) st) sql args ws conn p"

definition query_on_reflect_expected_one where
  "query_on_reflect_expected_one cl st sql args ws conn p = call_on cl (AsExpectedOne (cl_externs cl) st) sql args ws conn p"

definition exec_reflect_on where
  "exec_reflect_on cl sql obj ws conn p = call_on cl (\<lambda>q. q) sql [obj] ws conn p"

definition query_on_reflect_view where
  "query_on_reflect_view cl st sv args ws conn p =
     map_option (\<lambda>sql. query_on_reflect cl st sql args ws conn p) (view_sql_args cl sv args)"

definition query_on_reflect_one_view where
  "query_on_reflect_one_view cl st sv args ws conn p =
     map_option (\<lambda>sql. query_on_reflect_one cl st sql args ws conn p) (view_sql_args cl sv args)"

definition query_on_reflect_expected_view where
  "query_on_reflect_expected_view cl st sv args ws conn p =
     map_option (\<lambda>sql. query_on_reflect_expected cl st sql args ws conn p) (view_sql_args cl sv args)"

definition query_on_reflect_expected_one_view where
  "query_on_reflect_expected_one_view cl st sv args ws conn p =
     map_option (\<lambda>sql. query_on_reflect_expected_one cl st sql args ws conn p) (view_sql_args cl sv args)"

definition exec_reflect_on_view where
  "exec_reflect_on_view cl sv obj ws conn p = Some (exec_reflect_on cl sv obj ws conn p)"

section \<open>Pooled calls\<close>

text \<open>The overloads without \<^verbatim>\<open>QueryOpts\<close> are these with \<^const>\<open>default_opts\<close>.\<close>

definition query_awaitable_sql where
  "query_awaitable_sql cl cf opts sql args now es p =
     query_awaitable (cl_libpq cl) cf opts (make_send_of cl sql args) now es p"

definition query_awaitable_view where
  "query_awaitable_view cl cf opts sv args now es p =
     map_option (\<lambda>sql. query_awaitable_sql cl cf opts sql args now es p) (view_sql cl sv args)"

definition query_reflect_sql where
  "query_reflect_sql cl cf st sql args now es p =
     query_reflect (cl_libpq cl) cf (cl_externs cl) st (make_send_of cl sql args) now es p"

definition query_reflect_one_sql where
  "query_reflect_one_sql cl cf st sql args now es p =
     query_reflect_one (cl_libpq cl) cf (cl_externs cl) st (make_send_of cl sql args) now es p"

definition query_reflect_view where
  "query_reflect_view cl cf st sv args now es p =
     map_option (\<lambda>sql. query_reflect_sql cl cf st sql args now es p) (view_sql_args cl sv args)"

definition query_reflect_one_view where
  "query_reflect_one_view cl cf st sv args now es p =
     map_option (\<lambda>sql. query_reflect_one_sql cl cf st sql args now es p) (view_sql_args cl sv args)"

definition query_reflect_expected_sql where
  "query_reflect_expected_sql cl cf st opts sql args now es p =
     query_reflect_expected (cl_libpq cl) cf (cl_externs cl) st opts (make_send_of cl sql args) now es p"

definition query_reflect_expected_one_sql where
  "query_reflect_expected_one_sql cl cf st opts sql args now es p =
     query_reflect_expected_one (cl_libpq cl) cf (cl_externs cl) st opts (make_send_of cl sql args) now es p"

definition query_reflect_expected_view where
  "query_reflect_expected_view cl cf st sv args now es p =
     map_option (\<lambda>sql. query_reflect_expected_sql cl cf st default_opts sql args now es p) (view_sql_args cl sv args)"

definition query_reflect_expected_opts_view where
  "query_reflect_expected_opts_view cl cf st opts sv args now es p =
     map_option (\<lambda>sql. query_reflect_expected_sql cl cf st opts sql args now es p) (view_sql cl sv args)"

definition query_reflect_expected_one_view where
  "query_reflect_expected_one_view cl cf st sv args now es p =
     map_option (\<lambda>sql. query_reflect_expected_one_sql cl cf st default_opts sql args now es p) (view_sql_args cl sv args)"

definition query_reflect_expected_one_opts_view where
  "query_reflect_expected_one_opts_view cl cf st opts sv args now es p =
     map_option (\<lambda>sql. query_reflect_expected_one_sql cl cf st opts sql args now es p) (view_sql cl sv args)"

definition exec_reflect where
  "exec_reflect cl cf sql obj now es p = query_awaitable_sql cl cf default_opts sql [obj] now es p"

definition exec_reflect_view where
  "exec_reflect_view cl cf sv obj now es p = Some (exec_reflect cl cf sv obj now es p)"

section \<open>Calls in a transaction\<close>

definition tx_call ::
  "('c, 'x, 'y) client \<Rightarrow> PoolConfig \<Rightarrow> Precheck \<Rightarrow> (QueryResult \<Rightarrow> 'r) \<Rightarrow> string \<Rightarrow> 'x param list \<Rightarrow> 'c try_env list
    \<Rightarrow> tx \<Rightarrow> 'c pool \<Rightarrow> ('r \<times> tx \<times> 'c pool) async" where
  "tx_call cl cf pre finish sql args es t p =
     guard_send (es \<noteq> [] \<and> tx_active t \<and> tx_connected (cl_libpq cl) t p)
       (\<lambda>f. map_async finish (tx_run (cl_libpq cl) cf pre f es 0 t p)) (make_send_of cl sql args)"

definition tx_query_sql where
  "tx_query_sql cl cf sql args es t p = tx_call cl cf DropDeadConnection (\<lambda>q. q) sql args es t p"

definition tx_query_reflect_obj where
  "tx_query_reflect_obj cl sql obj e t p =
     tx_direct (cl_libpq cl) not_active_result (conn_call cl (\<lambda>q. q) (make_param_send cl sql [obj]) (te_wakes e)) t p"

definition tx_exec_reflect where
  "tx_exec_reflect cl sql obj e t p = tx_query_reflect_obj cl sql obj e t p"

definition tx_query_reflect_rows where
  "tx_query_reflect_rows cl st sql e t p =
     tx_direct (cl_libpq cl) (Inr []) (conn_call cl (AsRows (cl_externs cl) st) (simple_send cl sql) (te_wakes e)) t p"

definition tx_query_reflect_one where
  "tx_query_reflect_one cl st sql e t p =
     tx_direct (cl_libpq cl) (Inr None) (conn_call cl (AsOptionalRow (cl_externs cl) st) (simple_send cl sql) (te_wakes e)) t p"

definition tx_query_reflect_expected_sql where
  "tx_query_reflect_expected_sql cl cf st sql args es t p = tx_call cl cf KeepState (AsExpectedRows (cl_externs cl) st) sql args es t p"

definition tx_query_reflect_expected_one_sql where
  "tx_query_reflect_expected_one_sql cl cf st sql args es t p = tx_call cl cf KeepState (AsExpectedOne (cl_externs cl) st) sql args es t p"

definition tx_query_reflect_expected_obj where
  "tx_query_reflect_expected_obj cl cf st sql obj es t p = tx_call cl cf KeepState (AsExpectedRows (cl_externs cl) st) sql [obj] es t p"

definition tx_query_reflect_expected_one_obj where
  "tx_query_reflect_expected_one_obj cl cf st sql obj es t p = tx_call cl cf KeepState (AsExpectedOne (cl_externs cl) st) sql [obj] es t p"

definition tx_query_view where
  "tx_query_view cl cf sv args es t p = map_option (\<lambda>sql. tx_query_sql cl cf sql args es t p) (view_sql cl sv args)"

definition tx_query_reflect_obj_view where
  "tx_query_reflect_obj_view cl sv obj e t p = Some (tx_query_reflect_obj cl sv obj e t p)"

definition tx_exec_reflect_view where
  "tx_exec_reflect_view cl sv obj e t p = Some (tx_exec_reflect cl sv obj e t p)"

definition tx_query_reflect_rows_view where
  "tx_query_reflect_rows_view cl st sv e t p = Some (tx_query_reflect_rows cl st sv e t p)"

definition tx_query_reflect_one_view where
  "tx_query_reflect_one_view cl st sv e t p = Some (tx_query_reflect_one cl st sv e t p)"

definition tx_query_reflect_expected_obj_view where
  "tx_query_reflect_expected_obj_view cl cf st sv obj es t p = Some (tx_query_reflect_expected_obj cl cf st sv obj es t p)"

definition tx_query_reflect_expected_one_obj_view where
  "tx_query_reflect_expected_one_obj_view cl cf st sv obj es t p = Some (tx_query_reflect_expected_one_obj cl cf st sv obj es t p)"

definition tx_query_reflect_expected_view where
  "tx_query_reflect_expected_view cl cf st sv args es t p =
     map_option (\<lambda>sql. tx_query_reflect_expected_sql cl cf st sql args es t p) (view_sql_args cl sv args)"

definition tx_query_reflect_expected_one_view where
  "tx_query_reflect_expected_one_view cl cf st sv args es t p =
     map_option (\<lambda>sql. tx_query_reflect_expected_one_sql cl cf st sql args es t p) (view_sql_args cl sv args)"

text \<open>\<^verbatim>\<open>PgTransaction::stream_reflect\<close>, both overloads.\<close>

definition tx_stream_reflect where
  "tx_stream_reflect cl st sql batch_size ws t p = map_async (stream_reflect st) (tx_stream (cl_libpq cl) sql batch_size ws t p)"

definition tx_stream_reflect_params where
  "tx_stream_reflect_params cl st sql batch_size args ws t p =
     map_async (stream_reflect st)
       (tx_stream_params (cl_libpq cl) (cl_send_params cl) (cl_le cl) (cl_printers cl) (cl_dump cl) sql batch_size args ws t p)"

section \<open>Calls in a savepoint\<close>

text \<open>The calls of \<^verbatim>\<open>PgSubtransaction\<close> go to the parent, whatever the state \<open>sp\<close> of the savepoint is.\<close>

definition sub_query where
  "sub_query cl cf (sp :: subtx) sql args es t p = tx_query_sql cl cf sql args es t p"

definition sub_query_reflect_obj where
  "sub_query_reflect_obj cl (sp :: subtx) sql obj e t p = tx_query_reflect_obj cl sql obj e t p"

definition sub_exec_reflect where
  "sub_exec_reflect cl (sp :: subtx) sql obj e t p = tx_exec_reflect cl sql obj e t p"

definition sub_query_reflect_rows where
  "sub_query_reflect_rows cl st (sp :: subtx) sql e t p = tx_query_reflect_rows cl st sql e t p"

definition sub_query_reflect_one where
  "sub_query_reflect_one cl st (sp :: subtx) sql e t p = tx_query_reflect_one cl st sql e t p"

definition sub_query_reflect_expected where
  "sub_query_reflect_expected cl cf st (sp :: subtx) sql args es t p =
     tx_query_reflect_expected_sql cl cf st sql args es t p"

definition sub_query_reflect_expected_one where
  "sub_query_reflect_expected_one cl cf st (sp :: subtx) sql args es t p =
     tx_query_reflect_expected_one_sql cl cf st sql args es t p"

definition sub_query_reflect_expected_obj where
  "sub_query_reflect_expected_obj cl cf st (sp :: subtx) sql obj es t p =
     tx_query_reflect_expected_obj cl cf st sql obj es t p"

definition sub_query_reflect_expected_one_obj where
  "sub_query_reflect_expected_one_obj cl cf st (sp :: subtx) sql obj es t p =
     tx_query_reflect_expected_one_obj cl cf st sql obj es t p"

definition sub_query_view where
  "sub_query_view cl cf (sp :: subtx) sv args es t p =
     map_option (\<lambda>sql. sub_query cl cf sp sql args es t p) (view_sql cl sv args)"

definition sub_query_reflect_obj_view where
  "sub_query_reflect_obj_view cl (sp :: subtx) sv obj e t p = Some (sub_query_reflect_obj cl sp sv obj e t p)"

definition sub_exec_reflect_view where
  "sub_exec_reflect_view cl (sp :: subtx) sv obj e t p = Some (sub_exec_reflect cl sp sv obj e t p)"

definition sub_query_reflect_rows_view where
  "sub_query_reflect_rows_view cl st (sp :: subtx) sv e t p = Some (sub_query_reflect_rows cl st sp sv e t p)"

definition sub_query_reflect_one_view where
  "sub_query_reflect_one_view cl st (sp :: subtx) sv e t p = Some (sub_query_reflect_one cl st sp sv e t p)"

definition sub_query_reflect_expected_obj_view where
  "sub_query_reflect_expected_obj_view cl cf st (sp :: subtx) sv obj es t p =
     Some (sub_query_reflect_expected_obj cl cf st sp sv obj es t p)"

definition sub_query_reflect_expected_one_obj_view where
  "sub_query_reflect_expected_one_obj_view cl cf st (sp :: subtx) sv obj es t p =
     Some (sub_query_reflect_expected_one_obj cl cf st sp sv obj es t p)"

definition sub_query_reflect_expected_view where
  "sub_query_reflect_expected_view cl cf st (sp :: subtx) sv args es t p =
     map_option (\<lambda>sql. sub_query_reflect_expected cl cf st sp sql args es t p) (view_sql_args cl sv args)"

definition sub_query_reflect_expected_one_view where
  "sub_query_reflect_expected_one_view cl cf st (sp :: subtx) sv args es t p =
     map_option (\<lambda>sql. sub_query_reflect_expected_one cl cf st sp sql args es t p) (view_sql_args cl sv args)"

section \<open>Typed calls\<close>

lemma map_async_Finished: "map_async f r = Finished (x, s) \<longleftrightarrow> (\<exists>q. r = Finished (q, s) \<and> x = f q)"
  by (auto simp: map_async_def split: async.splits)

lemma map_async_id [simp]: "map_async (\<lambda>q. q) r = r"
  by (auto simp: map_async_def split: async.splits)

lemma map_async_guard:
  "map_async f (guard_send usable run send) = guard_send usable (\<lambda>g. map_async f (run g)) send"
  by (auto simp: guard_send_def map_async_def split: option.splits)

lemma guard_send_cases:
  "guard_send usable run send = Finished x \<Longrightarrow> \<exists>f. run f = Finished x"
  by (auto simp: guard_send_def split: option.splits if_splits)

text \<open>
  An interface to statements: the untyped call, and the call with a conversion of the result. Its clients may reason about
  the results and effects of the untyped call only.
\<close>

locale statement_calls =
  fixes plain :: "string \<Rightarrow> 'a list \<Rightarrow> (QueryResult \<times> 's) async"
    and typed :: "(QueryResult \<Rightarrow> 'r) \<Rightarrow> string \<Rightarrow> 'a list \<Rightarrow> ('r \<times> 's) async"
  assumes typed_converts: "typed f sql args = map_async f (plain sql args)"
    and plain_wf: "plain sql args = Finished (q, s) \<Longrightarrow> result_wf q"
begin

lemma typed_Finished:
  "typed f sql args = Finished (x, s) \<longleftrightarrow> (\<exists>q. plain sql args = Finished (q, s) \<and> result_wf q \<and> x = f q)"
  by (auto simp: typed_converts map_async_Finished dest: plain_wf)

lemma typed_same_effect:
  "typed f sql args = Finished (x, s) \<Longrightarrow> typed g sql args = Finished (y, s') \<Longrightarrow> s' = s"
  by (auto simp: typed_Finished)

end

lemma run_on_wf: "run_on L (\<lambda>q. q) f ws conn p = Finished (q, p') \<Longrightarrow> result_wf q"
  by (auto simp: run_on_def closed_result_def result_wf_def empty_result_def
      split: option.splits if_splits async.splits prod.splits dest!: run_query_wf)

lemma tx_run_wf: "tx_run L cf pre f es attempt t p = Finished (q, t', p') \<Longrightarrow> result_wf q"
proof (induction es arbitrary: attempt t p)
  case (Cons e es)
  have na: "result_wf not_active_result" by (simp add: not_active_result_def result_wf_def empty_result_def)
  have cl: "result_wf (closed_result w)" for w by (simp add: closed_result_def result_wf_def empty_result_def)
  from Cons.prems show ?case
    by (auto simp: na cl bind_eq_Finished Let_def split: option.splits if_splits prod.splits
        dest!: run_query_wf dest: Cons.IH)
qed simp

interpretation pooled: statement_calls
  "\<lambda>sql args. query_awaitable_sql cl cf opts sql args now es p"
  "\<lambda>f sql args. pool_call (cl_libpq cl) cf opts f (make_send_of cl sql args) now es p"
  by unfold_locales
    (auto simp: query_awaitable_sql_def query_awaitable_def pool_call_def map_async_Finished split: option.splits
      dest: pool_run_wf, simp add: map_async_def)

interpretation held: statement_calls
  "\<lambda>sql args. query_on cl sql args ws conn p" "\<lambda>f sql args. call_on cl f sql args ws conn p"
proof
  have e: "(\<lambda>g. run_on L f g ws conn p) = (\<lambda>g. map_async f (run_on L (\<lambda>q. q) g ws conn p))"
    for L and f :: "QueryResult \<Rightarrow> 'r"
    by (auto simp: run_on_def map_async_def split: option.splits async.splits)
  show "call_on cl f sql args ws conn p = map_async f (query_on cl sql args ws conn p)"
    for sql args and f :: "QueryResult \<Rightarrow> 'r"
    unfolding call_on_def query_on_def map_async_guard by (subst e) (rule refl)
  show "result_wf q" if "query_on cl sql args ws conn p = Finished (q, s)" for sql args q s
    using guard_send_cases [OF that [unfolded query_on_def call_on_def]] run_on_wf by blast
qed

interpretation in_tx: statement_calls
  "\<lambda>sql args. tx_call cl cf pre (\<lambda>q. q) sql args es t p" "\<lambda>f sql args. tx_call cl cf pre f sql args es t p"
proof
  show "tx_call cl cf pre f sql args es t p = map_async f (tx_call cl cf pre (\<lambda>q. q) sql args es t p)"
    for sql args and f :: "QueryResult \<Rightarrow> 'r"
    by (simp add: tx_call_def map_async_guard)
  show "result_wf q" if "tx_call cl cf pre (\<lambda>q. q) sql args es t p = Finished (q, s)" for sql args q s
    using guard_send_cases [OF that [unfolded tx_call_def]] by (cases s) (auto dest: tx_run_wf)
qed

text \<open>
  A dollar sign in a comment or a quoted text counts as a placeholder: with assertions such a statement is stopped by the
  overloads that check, and runs through the ones that take no arguments.
\<close>

lemma commented_dollar_counts:
  assumes "cl_asserts cl"
  shows "query_awaitable_view cl cf opts ''select 1 -- $5'' [] now es p = None"
    and "query_reflect_view cl cf st ''select 1 -- $5'' [] now es p \<noteq> None"
proof -
  have "count_pg_params ''select 1 -- $5'' = 5" by code_simp
  with assms show "query_awaitable_view cl cf opts ''select 1 -- $5'' [] now es p = None"
    by (simp add: query_awaitable_view_def view_sql_def assert_param_count_def count_total_params_def)
qed (simp add: query_reflect_view_def view_sql_args_def)

lemma flat_send:
  assumes "list_all flat_param args"
  shows "\<exists>slots. make_param_send cl sql args = Some (cl_send_params cl sql (count_total_params (map type_of_param args), slots))"
  using send_query_params_cases [of args "cl_le cl" "cl_printers cl" "cl_dump cl"] flat_args_slots [OF assms]
  by (auto simp: make_param_send_def split: option.splits)

section \<open>Statements of a transaction\<close>

lemma connected_deadline [simp]:
  "connected L (conn_at (set_conn cid (set_io_deadline_ms ms (conn_at p cid)) p) cid) = connected L (conn_at p cid)"
  by (cases "cid < length (pl_conns p)")
    (simp_all add: conn_at_def set_conn_def set_io_deadline_ms_def connected_def not_less list_update_beyond split: option.split)

lemma reacquired_usable:
  "reacquire_for_transient_retry L cf e k sqlstate t p = Finished (True, t', p') \<Longrightarrow> tx_active t
   \<Longrightarrow> tx_active t' \<and> tx_connected L t' p'"
  by (auto simp: reacquire_for_transient_retry_def tx_connected_def bind_eq_Finished Let_def
      split: if_splits option.splits prod.splits sum.splits)

lemma tx_run_precheck:
  "tx_active t \<Longrightarrow> tx_connected L t p \<Longrightarrow> tx_run L cf KeepState f es k t p = tx_run L cf DropDeadConnection f es k t p"
proof (induction es arbitrary: k t p)
  case (Cons e es)
  obtain cid where cid: "tx_conn t = Some cid" "connected L (conn_at p cid)"
    using Cons.prems(2) by (auto simp: tx_connected_def split: option.splits)
  have again: "tx_run L cf KeepState f es (Suc k) t2 p2 = tx_run L cf DropDeadConnection f es (Suc k) t2 p2"
    if "reacquire_for_transient_retry L cf e k sqlstate t p1 = Finished (True, t2, p2)" for sqlstate p1 t2 p2
    using reacquired_usable [OF that Cons.prems(1)] Cons.IH by blast
  have bind: "bind_async r g = bind_async r h" if "\<And>x. r = Finished x \<Longrightarrow> g x = h x" for r :: "'z async" and g h
    using that by (cases r) (auto simp: bind_async_def)
  show ?case using Cons.prems(1) cid
    by (auto simp: Let_def intro!: bind again split: prod.splits)
qed simp


definition sample_client :: "(pg_result list, string, string) client" where
  "sample_client = \<lparr>cl_libpq = list_libpq, cl_send_params = (\<lambda>_ _ p. (False, p)), cl_le = True, cl_printers = text_printers,
     cl_dump = (\<lambda>s. s), cl_externs = text_externs, cl_asserts = True\<rparr>"

definition sample_tx :: tx where
  "sample_tx = (new_tx \<lparr>tc_isolation = IsoDefault, tc_read_only = False, tc_deferrable = False, tc_force_real_begin = False\<rparr>)
     \<lparr>tx_conn := Some 0, tx_active := True\<rparr>"

definition sample_pool :: "pg_result list pool" where
  "sample_pool = (new_pool 1 1)\<lparr>pl_conns := [open_conn []]\<rparr>"




end
