(* ===== verification/Pg_Routing.thy ===== *)
theory Pg_Routing
  imports Pg_Transaction
begin

text \<open>
  The connector (\<^verbatim>\<open>PgConnector\<close>): a set of nodes with a pool each, the choice of a node for a statement or a
  transaction, the health probes and the circuit breaker behind them, and the builder that checks a configuration.
  Nodes are named by their index in \<^verbatim>\<open>nodes_\<close>. Durations are integers, in milliseconds; the instants of the steady
  clock are integers in nanoseconds. \<open>mk\<close> stands for the construction of a pool's queue: its capacity, or nothing
  when the constructor of \<^verbatim>\<open>PgPool\<close> throws.
\<close>

section \<open>Configuration\<close>

datatype NodeRole = Primary | SyncReplica | AsyncReplica | Analytics | Archive | Maintenance

datatype Consistency = Strong | BoundedStaleness | Eventual

datatype QueryKind = Read | Write | DDL | LongRead

record BoundedStalenessCfg =
  max_staleness :: int
  max_lsn_lag :: u64

record RouteHint =
  rh_kind :: QueryKind
  rh_consistency :: Consistency
  rh_staleness :: BoundedStalenessCfg
  rh_read_my_writes :: bool

record PgEndpoint =
  ep_name :: string
  ep_host :: string
  ep_port :: string
  ep_user :: string
  ep_db :: string
  ep_password :: string
  ep_max_pool :: u64
  ep_role :: NodeRole
  ep_weight :: byte

record NodeStats =
  ns_healthy :: bool
  ns_is_primary :: bool
  ns_rtt :: int
  ns_replay_lag :: int
  ns_lsn_lag :: u64
  ns_open_conns :: u32
  ns_busy_conns :: u32

definition no_node_stats :: NodeStats where
  "no_node_stats = \<lparr>ns_healthy = False, ns_is_primary = False, ns_rtt = 0, ns_replay_lag = 0, ns_lsn_lag = 0,
     ns_open_conns = 0, ns_busy_conns = 0\<rparr>"

record PoolLimits =
  default_max_conns :: u32
  analytics_max_conns :: u32

record TimeoutsMs =
  tm_connect :: u32
  tm_query_read :: u32
  tm_query_write :: u32

record HealthCfg =
  hc_interval_ms :: u32
  hc_lag_threshold_ms :: u32
  hc_rtt_probe_sql :: string
  hc_cb_quiet_ms :: u32
  hc_cb_backoff_ms :: u32
  hc_cb_max_ms :: u32
  hc_auto_detect_leader :: bool
  hc_leader_probe_sql :: string

record RoutingCfg =
  rc_default_consistency :: Consistency
  rc_bounded_staleness :: BoundedStalenessCfg
  rc_read_my_writes_ttl_ms :: u32

record Config =
  cg_nodes :: "PgEndpoint list"
  cg_primary_failover :: "string list"
  cg_routing :: RoutingCfg
  cg_limits :: PoolLimits
  cg_timeouts :: TimeoutsMs
  cg_health :: HealthCfg
  cg_connect_retries :: u32
  cg_ssl_config :: SSLConfig
  cg_keepalive_config :: TCPKeepaliveConfig

definition default_health :: HealthCfg where
  "default_health = \<lparr>hc_interval_ms = 500, hc_lag_threshold_ms = 120, hc_rtt_probe_sql = ''SELECT 1'',
     hc_cb_quiet_ms = 500, hc_cb_backoff_ms = 1000, hc_cb_max_ms = 1500, hc_auto_detect_leader = True,
     hc_leader_probe_sql = ''SELECT NOT pg_is_in_recovery()''\<rparr>"

definition default_routing :: RoutingCfg where
  "default_routing = \<lparr>rc_default_consistency = Eventual,
     rc_bounded_staleness = \<lparr>max_staleness = 150, max_lsn_lag = 0\<rparr>, rc_read_my_writes_ttl_ms = 500\<rparr>"

definition default_Config :: "SSLConfig \<Rightarrow> TCPKeepaliveConfig \<Rightarrow> Config" where
  "default_Config ssl keepalive = \<lparr>cg_nodes = [], cg_primary_failover = [], cg_routing = default_routing,
     cg_limits = \<lparr>default_max_conns = 64, analytics_max_conns = 16\<rparr>,
     cg_timeouts = \<lparr>tm_connect = 1500, tm_query_read = 3000, tm_query_write = 2000\<rparr>,
     cg_health = default_health, cg_connect_retries = 20, cg_ssl_config = ssl, cg_keepalive_config = keepalive\<rparr>"

section \<open>State\<close>

text \<open>\<open>nd_cb_state\<close>: 0 closed, 1 half-open, 2 open.\<close>

record 'c node =
  nd_ep :: PgEndpoint
  nd_pool :: "'c pool option"
  nd_stats :: NodeStats
  nd_cb_state :: byte
  nd_cb_until :: int

record 'c connector =
  ct_cfg :: Config
  ct_nodes :: "'c node list"
  ct_failover :: "nat list"           \<comment> \<open>\<^verbatim>\<open>primary_failover_idx_\<close>\<close>

definition pool_cap_for :: "NodeRole \<Rightarrow> PoolLimits \<Rightarrow> u64" where
  "pool_cap_for role lim = ucast (if role = Analytics then analytics_max_conns lim else default_max_conns lim)"

definition is_replica :: "NodeRole \<Rightarrow> bool" where
  "is_replica r \<longleftrightarrow> r = SyncReplica \<or> r = AsyncReplica \<or> r = Analytics"

definition is_usable :: "NodeRole \<Rightarrow> bool" where
  "is_usable r \<longleftrightarrow> r \<noteq> Archive \<and> r \<noteq> Maintenance"

text \<open>\<^verbatim>\<open>std::make_unique<PgPool>(...)\<close> of a node.\<close>

definition make_node_pool :: "(PgEndpoint \<Rightarrow> nat option) \<Rightarrow> Config \<Rightarrow> PgEndpoint \<Rightarrow> 'c pool option" where
  "make_node_pool mk cfg ep =
     map_option (new_pool (if ep_max_pool ep \<noteq> 0 then ep_max_pool ep else pool_cap_for (ep_role ep) (cg_limits cfg)))
       (mk ep)"

definition new_node :: "(PgEndpoint \<Rightarrow> nat option) \<Rightarrow> Config \<Rightarrow> PgEndpoint \<Rightarrow> 'c node" where
  "new_node mk cfg ep = \<lparr>nd_ep = ep, nd_pool = make_node_pool mk cfg ep, nd_stats = no_node_stats,
     nd_cb_state = 0, nd_cb_until = 0\<rparr>"

fun indices_from :: "nat \<Rightarrow> ('a \<Rightarrow> bool) \<Rightarrow> 'a list \<Rightarrow> nat list" where
  "indices_from i P [] = []"
| "indices_from i P (x # xs) = (if P x then i # indices_from (Suc i) P xs else indices_from (Suc i) P xs)"

definition first_index :: "('a \<Rightarrow> bool) \<Rightarrow> 'a list \<Rightarrow> nat option" where
  "first_index P xs = (case indices_from 0 P xs of [] \<Rightarrow> None | i # _ \<Rightarrow> Some i)"

definition failover_indices :: "Config \<Rightarrow> 'c node list \<Rightarrow> nat list" where
  "failover_indices cfg nodes =
     (let named = List.map_filter (\<lambda>name. first_index (\<lambda>n. ep_name (nd_ep n) = name) nodes) (cg_primary_failover cfg)
      in if named = []
         then indices_from 0 (\<lambda>n. ep_role (nd_ep n) = Primary) nodes
            @ indices_from 0 (\<lambda>n. ep_role (nd_ep n) = SyncReplica) nodes
            @ indices_from 0 (\<lambda>n. ep_role (nd_ep n) = AsyncReplica) nodes
         else named)"

definition new_connector :: "(PgEndpoint \<Rightarrow> nat option) \<Rightarrow> Config \<Rightarrow> 'c connector" where
  "new_connector mk cfg =
     (let nodes = map (new_node mk cfg) (cg_nodes cfg)
      in \<lparr>ct_cfg = cfg, ct_nodes = nodes, ct_failover = failover_indices cfg nodes\<rparr>)"

definition node_at :: "'c connector \<Rightarrow> nat \<Rightarrow> 'c node" where
  "node_at ct i = ct_nodes ct ! i"

definition set_node :: "nat \<Rightarrow> 'c node \<Rightarrow> 'c connector \<Rightarrow> 'c connector" where
  "set_node i n ct = ct\<lparr>ct_nodes := (ct_nodes ct)[i := n]\<rparr>"

definition ensure_pool :: "(PgEndpoint \<Rightarrow> nat option) \<Rightarrow> Config \<Rightarrow> 'c node \<Rightarrow> bool \<times> 'c node" where
  "ensure_pool mk cfg n =
     (if nd_pool n \<noteq> None then (True, n)
      else case make_node_pool mk cfg (nd_ep n) of
          Some p \<Rightarrow> (True, n\<lparr>nd_pool := Some p\<rparr>)
        | None \<Rightarrow> (False, n\<lparr>nd_pool := None\<rparr>))"

section \<open>Choosing a node\<close>

definition all_idx :: "'c connector \<Rightarrow> nat list" where
  "all_idx ct = [0..<length (ct_nodes ct)]"

text \<open>The conditions the loops share: usable role, breaker not open, pool there.\<close>

definition admitted :: "'c node \<Rightarrow> bool" where
  "admitted n \<longleftrightarrow> is_usable (ep_role (nd_ep n)) \<and> nd_cb_state n \<noteq> 2 \<and> nd_pool n \<noteq> None"

definition leads :: "bool \<Rightarrow> 'c node \<Rightarrow> bool" where
  "leads need_healthy n \<longleftrightarrow> ns_is_primary (nd_stats n) \<and> admitted n \<and> (need_healthy \<longrightarrow> ns_healthy (nd_stats n))"

definition configured_primary :: "bool \<Rightarrow> 'c node \<Rightarrow> bool" where
  "configured_primary need_healthy n \<longleftrightarrow>
     ep_role (nd_ep n) = Primary \<and> admitted n \<and> (need_healthy \<longrightarrow> ns_healthy (nd_stats n))"

fun first_of :: "'a option list \<Rightarrow> 'a option" where
  "first_of [] = None"
| "first_of (None # xs) = first_of xs"
| "first_of (Some x # xs) = Some x"

definition pick_primary :: "'c connector \<Rightarrow> nat option" where
  "pick_primary ct =
     first_of
       ((if hc_auto_detect_leader (cg_health (ct_cfg ct))
         then [find (\<lambda>i. leads True (node_at ct i)) (ct_failover ct),
               find (\<lambda>i. leads True (node_at ct i)) (all_idx ct),
               find (\<lambda>i. leads False (node_at ct i)) (all_idx ct)]
         else [])
        @ [find (\<lambda>i. configured_primary True (node_at ct i)) (ct_failover ct),
           find (\<lambda>i. configured_primary False (node_at ct i)) (all_idx ct)])"

definition ok_stale :: "RouteHint \<Rightarrow> 'c node \<Rightarrow> bool" where
  "ok_stale hint n \<longleftrightarrow>
     rh_consistency hint \<noteq> BoundedStaleness
     \<or> (ns_replay_lag (nd_stats n) \<le> max_staleness (rh_staleness hint)
        \<and> (max_lsn_lag (rh_staleness hint) = 0 \<or> ns_lsn_lag (nd_stats n) \<le> max_lsn_lag (rh_staleness hint)))"

definition better :: "'c node \<Rightarrow> 'c node \<Rightarrow> bool" where
  "better a b =
     (if ns_rtt (nd_stats a) \<noteq> ns_rtt (nd_stats b) then ns_rtt (nd_stats a) < ns_rtt (nd_stats b)
      else ep_weight (nd_ep a) > ep_weight (nd_ep b))"

definition replica_candidate :: "RouteHint \<Rightarrow> 'c node \<Rightarrow> bool" where
  "replica_candidate hint n \<longleftrightarrow>
     is_replica (ep_role (nd_ep n)) \<and> admitted n \<and> ns_healthy (nd_stats n) \<and> ok_stale hint n"

text \<open>The loop \<^verbatim>\<open>if (!best || better(&n, best)) best = &n\<close> over the candidates.\<close>

fun best_loop :: "('c node \<Rightarrow> bool) \<Rightarrow> ('c node \<Rightarrow> 'c node \<Rightarrow> bool) \<Rightarrow> 'c connector \<Rightarrow> nat list \<Rightarrow> nat option \<Rightarrow> nat option" where
  "best_loop cand bet ct [] best = best"
| "best_loop cand bet ct (i # is) best =
     best_loop cand bet ct is
       (if \<not> cand (node_at ct i) then best
        else case best of
            None \<Rightarrow> Some i
          | Some b \<Rightarrow> if bet (node_at ct i) (node_at ct b) then Some i else Some b)"

definition pick_best_replica :: "RouteHint \<Rightarrow> 'c connector \<Rightarrow> nat option" where
  "pick_best_replica hint ct = best_loop (replica_candidate hint) better ct (all_idx ct) None"

text \<open>The loop of \<^verbatim>\<open>route_for_tx\<close> for deferrable transactions.\<close>

definition pick_sync_replica :: "'c connector \<Rightarrow> nat option" where
  "pick_sync_replica ct =
     best_loop (\<lambda>n. ep_role (nd_ep n) = SyncReplica \<and> admitted n \<and> ns_healthy (nd_stats n))
       (\<lambda>a b. ns_replay_lag (nd_stats a) < ns_replay_lag (nd_stats b)) ct (all_idx ct) None"

text \<open>\<open>any_loop\<close> collects \<^verbatim>\<open>detected\<close>, \<^verbatim>\<open>configured\<close> and \<^verbatim>\<open>any_replica\<close>.\<close>

definition or_first :: "bool \<Rightarrow> nat \<Rightarrow> nat option \<Rightarrow> nat option" where
  "or_first c i cur = (if c \<and> cur = None then Some i else cur)"

fun any_loop ::
  "(PgEndpoint \<Rightarrow> nat option) \<Rightarrow> nat list \<Rightarrow> nat option \<times> nat option \<times> nat option \<Rightarrow> 'c connector
    \<Rightarrow> (nat option \<times> nat option \<times> nat option) \<times> 'c connector" where
  "any_loop mk [] acc ct = (acc, ct)"
| "any_loop mk (i # is) (detected, configured, any_replica) ct =
     (if \<not> is_usable (ep_role (nd_ep (node_at ct i))) then any_loop mk is (detected, configured, any_replica) ct
      else case ensure_pool mk (ct_cfg ct) (node_at ct i) of (ok, n) \<Rightarrow>
        if \<not> ok then any_loop mk is (detected, configured, any_replica) (set_node i n ct)
        else any_loop mk is
               (or_first (ns_is_primary (nd_stats n)) i detected,
                or_first (ep_role (nd_ep n) = Primary) i configured,
                or_first (is_replica (ep_role (nd_ep n))) i any_replica) (set_node i n ct))"

definition pick_any :: "(PgEndpoint \<Rightarrow> nat option) \<Rightarrow> bool \<Rightarrow> 'c connector \<Rightarrow> nat option \<times> 'c connector" where
  "pick_any mk prefer_primary ct =
     (case any_loop mk (all_idx ct) (None, None, None) ct of ((detected, configured, any_replica), ct') \<Rightarrow>
        let primary = (if hc_auto_detect_leader (cg_health (ct_cfg ct)) \<and> detected \<noteq> None then detected else configured)
        in (if prefer_primary then first_of [primary, any_replica] else first_of [any_replica, primary], ct'))"

text \<open>\<^verbatim>\<open>if (auto *p = pick) if (ensure_pool(*p)) return p->pool.get();\<close>, then the rest of the function.\<close>

definition pick_then ::
  "(PgEndpoint \<Rightarrow> nat option) \<Rightarrow> nat option \<Rightarrow> ('c connector \<Rightarrow> nat option \<times> 'c connector) \<Rightarrow> 'c connector
    \<Rightarrow> nat option \<times> 'c connector" where
  "pick_then mk pick rest ct =
     (case pick of
        None \<Rightarrow> rest ct
      | Some i \<Rightarrow>
          (case ensure_pool mk (ct_cfg ct) (node_at ct i) of (ok, n) \<Rightarrow>
             if ok then (Some i, set_node i n ct) else rest (set_node i n ct)))"

definition route_primary :: "(PgEndpoint \<Rightarrow> nat option) \<Rightarrow> bool \<Rightarrow> 'c connector \<Rightarrow> nat option \<times> 'c connector" where
  "route_primary mk prefer ct = pick_then mk (pick_primary ct) (pick_any mk prefer) ct"

definition route :: "(PgEndpoint \<Rightarrow> nat option) \<Rightarrow> RouteHint \<Rightarrow> 'c connector \<Rightarrow> nat option \<times> 'c connector" where
  "route mk hint ct =
     (if rh_kind hint = Write \<or> rh_kind hint = DDL \<or> rh_consistency hint = Strong \<or> rh_read_my_writes hint
      then route_primary mk True ct
      else pick_then mk (pick_best_replica hint ct) (route_primary mk False) ct)"

definition route_for_tx ::
  "(PgEndpoint \<Rightarrow> nat option) \<Rightarrow> PgTransactionConfig \<Rightarrow> 'c connector \<Rightarrow> nat option \<times> 'c connector" where
  "route_for_tx mk tc ct =
     (let eff = (if tc_isolation tc = Serializable then Strong else rc_default_consistency (cg_routing (ct_cfg ct)))
      in if \<not> tc_read_only tc \<or> eff = Strong then route_primary mk True ct
         else if tc_deferrable tc then pick_then mk (pick_sync_replica ct) (route_primary mk True) ct
         else pick_then mk
                (pick_best_replica \<lparr>rh_kind = Read, rh_consistency = eff,
                   rh_staleness = rc_bounded_staleness (cg_routing (ct_cfg ct)), rh_read_my_writes = False\<rparr> ct)
                (route_primary mk False) ct)"

definition pin :: "(PgEndpoint \<Rightarrow> nat option) \<Rightarrow> string \<Rightarrow> 'c connector \<Rightarrow> nat option \<times> 'c connector" where
  "pin mk node_name ct =
     (case first_index (\<lambda>n. ep_name (nd_ep n) = node_name) (ct_nodes ct) of
        None \<Rightarrow> (None, ct)
      | Some i \<Rightarrow>
          if \<not> is_usable (ep_role (nd_ep (node_at ct i))) \<or> nd_cb_state (node_at ct i) = 2 then (None, ct)
          else (case ensure_pool mk (ct_cfg ct) (node_at ct i) of (ok, n) \<Rightarrow>
              (if \<not> ok \<or> \<not> ns_healthy (nd_stats n) then None else Some i, set_node i n ct)))"


section \<open>Circuit breaker\<close>

definition ns_of_ms :: "u32 \<Rightarrow> int" where
  "ns_of_ms ms = uint ms * 1000000"

definition apply_circuit_breaker :: "HealthCfg \<Rightarrow> int \<Rightarrow> bool \<Rightarrow> 'c node \<Rightarrow> 'c node" where
  "apply_circuit_breaker hc now ok n =
     (if ok
      then (let n = (if nd_cb_state n = 1 \<and> now \<ge> nd_cb_until n then n\<lparr>nd_cb_state := 0\<rparr> else n);
                n = (if nd_cb_state n = 2 \<and> now \<ge> nd_cb_until n then n\<lparr>nd_cb_state := 1\<rparr> else n)
            in n)
      else if nd_cb_state n = 0 then n\<lparr>nd_cb_state := 2, nd_cb_until := now + ns_of_ms (hc_cb_quiet_ms hc)\<rparr>
      else if nd_cb_state n = 1 then n\<lparr>nd_cb_state := 2, nd_cb_until := now + ns_of_ms (hc_cb_backoff_ms hc)\<rparr>
      else n\<lparr>nd_cb_until := now + ns_of_ms (hc_cb_max_ms hc)\<rparr>)"

section \<open>Probes\<close>

text \<open>
  The environment of one node's probes: the retry clock and the tries of each of the four queries, the steady clock
  around the third, and at the breaker.
\<close>

record 'c probe_env =
  pb_healthy :: "u64 \<times> 'c try_env list"
  pb_leader :: "u64 \<times> 'c try_env list"
  pb_rtt :: "u64 \<times> 'c try_env list"
  pb_lag :: "u64 \<times> 'c try_env list"
  pb_t0 :: int
  pb_t1 :: int
  pb_now :: int

definition node_pool_config :: "(string \<Rightarrow> bool) \<Rightarrow> (string \<Rightarrow> bool) \<Rightarrow> Config \<Rightarrow> PgEndpoint \<Rightarrow> PoolConfig" where
  "node_pool_config ip4 ip6 cfg ep = \<lparr>cf_host = ep_host ep, cf_port = ep_port ep, cf_user = ep_user ep, cf_db = ep_db ep,
     cf_password = ep_password ep, cf_retries = sint (cg_connect_retries cfg), cf_ssl = cg_ssl_config cfg,
     cf_keepalive = cg_keepalive_config cfg, cf_policy = default_policy, cf_ip4 = ip4, cf_ip6 = ip6\<rparr>"

definition probe_query ::
  "'c libpq \<Rightarrow> PoolConfig \<Rightarrow> string \<Rightarrow> u64 \<times> 'c try_env list \<Rightarrow> 'c pool \<Rightarrow> (QueryResult \<times> 'c pool) async" where
  "probe_query L pcf sql e p = query_awaitable L pcf default_opts (Some (pq_send_query L sql)) (fst e) (snd e) p"

definition probe_healthy :: "'c libpq \<Rightarrow> PoolConfig \<Rightarrow> u64 \<times> 'c try_env list \<Rightarrow> 'c pool \<Rightarrow> (bool \<times> 'c pool) async" where
  "probe_healthy L pcf e p = map_async qr_ok (probe_query L pcf ''SELECT 1'' e p)"

definition leader_answer :: "QueryResult \<Rightarrow> bool" where
  "leader_answer qr =
     (if \<not> qr_ok qr then False
      else case qr_rows qr of
          [] \<Rightarrow> False
        | r # _ \<Rightarrow> (case cols r of [] \<Rightarrow> False | v # _ \<Rightarrow> v = ''t'' \<or> v = ''true'' \<or> v = ''1''))"

definition probe_is_primary ::
  "'c libpq \<Rightarrow> PoolConfig \<Rightarrow> HealthCfg \<Rightarrow> u64 \<times> 'c try_env list \<Rightarrow> 'c pool \<Rightarrow> (bool \<times> 'c pool) async" where
  "probe_is_primary L pcf hc e p = map_async leader_answer (probe_query L pcf (hc_leader_probe_sql hc) e p)"

text \<open>\<^verbatim>\<open>duration_cast<milliseconds>\<close> truncates; the clock is steady, so the difference is not negative.\<close>

definition probe_rtt ::
  "'c libpq \<Rightarrow> PoolConfig \<Rightarrow> string \<Rightarrow> int \<Rightarrow> int \<Rightarrow> u64 \<times> 'c try_env list \<Rightarrow> 'c pool \<Rightarrow> (int \<times> 'c pool) async" where
  "probe_rtt L pcf sql t0 t1 e p =
     map_async (\<lambda>qr. if \<not> qr_ok qr then 9999 else (t1 - t0) div 1000000) (probe_query L pcf sql e p)"

definition NL :: string where
  "NL = [CHR 0x0A]"

definition lag_sql :: string where
  "lag_sql = NL @ ''        SELECT'' @ NL
     @ ''          COALESCE( (EXTRACT(EPOCH FROM (now() - pg_last_xact_replay_timestamp())) * 1000)::bigint, 0 ) AS lag_ms,'' @ NL
     @ ''          COALESCE( pg_wal_lsn_diff(pg_last_wal_receive_lsn(), pg_last_wal_replay_lsn())::bigint, 0 ) AS lsn_lag'' @ NL
     @ ''    ''"

text \<open>The struct \<^verbatim>\<open>Row\<close> of \<^verbatim>\<open>PgRouting.h\<close>.\<close>

definition lag_struct :: struct_info where
  "lag_struct = \<lparr>si_aggregate = True,
     si_fields = [\<lparr>fi_name = ''lag_ms'', fi_type = TInt True 64, fi_type_name = ''long''\<rparr>,
                  \<lparr>fi_name = ''lsn_lag'', fi_type = TInt True 64, fi_type_name = ''long''\<rparr>]\<rparr>"

text \<open>The exception of a row that does not decode, or the pair of lags.\<close>

definition lag_answer :: "string + (PgOpError + 'x cpp_val list) \<Rightarrow> string + int \<times> u64" where
  "lag_answer r =
     (case r of
        Inl e \<Rightarrow> Inl e
      | Inr (Inl _) \<Rightarrow> Inr (0, 0)
      | Inr (Inr vs) \<Rightarrow> (case vs of [VInt lag, VInt lsn] \<Rightarrow> Inr (lag, word_of_int lsn) | _ \<Rightarrow> Inr (0, 0)))"

definition probe_replication_lag ::
  "'c libpq \<Rightarrow> PoolConfig \<Rightarrow> 'x externs \<Rightarrow> u64 \<times> 'c try_env list \<Rightarrow> 'c pool \<Rightarrow> ((string + int \<times> u64) \<times> 'c pool) async" where
  "probe_replication_lag L pcf X e p =
     map_async lag_answer
       (query_reflect_expected_one L pcf X lag_struct default_opts (Some (pq_send_query L lag_sql)) (fst e) (snd e) p)"

section \<open>Health tick\<close>

text \<open>What the tick writes into the statistics, and the breaker behind it.\<close>

definition tick_stats :: "Config \<Rightarrow> NodeRole \<Rightarrow> bool \<Rightarrow> bool \<Rightarrow> int \<Rightarrow> int \<Rightarrow> u64 \<Rightarrow> NodeStats \<Rightarrow> NodeStats" where
  "tick_stats cfg role ok is_primary rtt lag_ms lsn_lag st =
     (let lag_thr = uint (hc_lag_threshold_ms (cg_health cfg));
          st = st\<lparr>ns_healthy := ok, ns_is_primary := is_primary, ns_rtt := rtt, ns_replay_lag := lag_ms,
                  ns_lsn_lag := lsn_lag\<rparr>;
          st = (if \<not> is_primary \<and> ns_replay_lag st > lag_thr then st\<lparr>ns_healthy := False\<rparr> else st);
          st = (if \<not> hc_auto_detect_leader (cg_health cfg) \<and> role = Primary \<and> ns_replay_lag st > 0
                then st\<lparr>ns_healthy := False\<rparr> else st)
      in st)"

text \<open>What follows the last probe: the exception it raised, or the new statistics and the breaker.\<close>

definition tick_finish :: "Config \<Rightarrow> int \<Rightarrow> bool \<Rightarrow> bool \<Rightarrow> int \<Rightarrow> string + int \<times> u64 \<Rightarrow> 'c node \<Rightarrow> string option \<times> 'c node" where
  "tick_finish cfg now ok is_primary rtt lag n =
     (case lag of
        Inl exn \<Rightarrow> (Some exn, n)
      | Inr (lag_ms, lsn_lag) \<Rightarrow>
          let st = tick_stats cfg (ep_role (nd_ep n)) ok is_primary rtt lag_ms lsn_lag (nd_stats n)
          in (None, apply_circuit_breaker (cg_health cfg) now (ns_healthy st) (n\<lparr>nd_stats := st\<rparr>)))"

text \<open>The body of the loop for a usable node: the exception that left it, and the node.\<close>

definition node_tick ::
  "'c libpq \<Rightarrow> (string \<Rightarrow> bool) \<Rightarrow> (string \<Rightarrow> bool) \<Rightarrow> 'x externs \<Rightarrow> (PgEndpoint \<Rightarrow> nat option) \<Rightarrow> Config \<Rightarrow> 'c probe_env
    \<Rightarrow> 'c node \<Rightarrow> (string option \<times> 'c node) async" where
  "node_tick L ip4 ip6 X mk cfg e n =
     (let hc = cg_health cfg; pcf = node_pool_config ip4 ip6 cfg (nd_ep n) in
      case ensure_pool mk cfg n of (_, n1) \<Rightarrow>
        (case nd_pool n1 of
           None \<Rightarrow> Finished (None, apply_circuit_breaker hc (pb_now e) False
                      (n1\<lparr>nd_stats := (nd_stats n1)\<lparr>ns_healthy := False\<rparr>\<rparr>))
         | Some p \<Rightarrow>
             bind_async (probe_healthy L pcf (pb_healthy e) p) (\<lambda>(ok, p1).
             bind_async (if ok \<and> hc_auto_detect_leader hc then probe_is_primary L pcf hc (pb_leader e) p1
                         else Finished (ep_role (nd_ep n1) = Primary, p1)) (\<lambda>(is_primary, p2).
             bind_async (probe_rtt L pcf (hc_rtt_probe_sql hc) (pb_t0 e) (pb_t1 e) (pb_rtt e) p2) (\<lambda>(rtt, p3).
             bind_async (probe_replication_lag L pcf X (pb_lag e) p3) (\<lambda>(lag, p4).
               Finished (tick_finish cfg (pb_now e) ok is_primary rtt lag (n1\<lparr>nd_pool := Some p4\<rparr>))))))))"

fun tick_loop ::
  "'c libpq \<Rightarrow> (string \<Rightarrow> bool) \<Rightarrow> (string \<Rightarrow> bool) \<Rightarrow> 'x externs \<Rightarrow> (PgEndpoint \<Rightarrow> nat option) \<Rightarrow> (nat \<Rightarrow> 'c probe_env)
    \<Rightarrow> nat list \<Rightarrow> 'c connector \<Rightarrow> (string option \<times> 'c connector) async" where
  "tick_loop L ip4 ip6 X mk env [] ct = Finished (None, ct)"
| "tick_loop L ip4 ip6 X mk env (i # is) ct =
     (if \<not> is_usable (ep_role (nd_ep (node_at ct i))) then tick_loop L ip4 ip6 X mk env is ct
      else bind_async (node_tick L ip4 ip6 X mk (ct_cfg ct) (env i) (node_at ct i)) (\<lambda>(exn, n).
        if exn = None then tick_loop L ip4 ip6 X mk env is (set_node i n ct) else Finished (exn, set_node i n ct)))"

definition health_tick where
  "health_tick L ip4 ip6 X mk env ct = tick_loop L ip4 ip6 X mk env (all_idx ct) ct"

text \<open>\<^verbatim>\<open>start_health_loop\<close>: one environment per round, with whether its sleep ended normally.\<close>

definition health_interval :: "HealthCfg \<Rightarrow> u32" where
  "health_interval hc = (if hc_interval_ms hc \<noteq> 0 then hc_interval_ms hc else 500)"

fun start_health_loop ::
  "'c libpq \<Rightarrow> (string \<Rightarrow> bool) \<Rightarrow> (string \<Rightarrow> bool) \<Rightarrow> 'x externs \<Rightarrow> (PgEndpoint \<Rightarrow> nat option)
    \<Rightarrow> ((nat \<Rightarrow> 'c probe_env) \<times> bool) list \<Rightarrow> 'c connector \<Rightarrow> (string option \<times> 'c connector) async" where
  "start_health_loop L ip4 ip6 X mk [] ct = Parked"
| "start_health_loop L ip4 ip6 X mk ((env, slept) # rounds) ct =
     bind_async (health_tick L ip4 ip6 X mk env ct) (\<lambda>(exn, ct').
       if exn \<noteq> None \<or> \<not> slept then Finished (exn, ct') else start_health_loop L ip4 ip6 X mk rounds ct')"

section \<open>Builder\<close>

definition builder_node where
  "builder_node name host port user db password role weight max_pool cfg =
     cfg\<lparr>cg_nodes := cg_nodes cfg @ [\<lparr>ep_name = name, ep_host = host, ep_port = port, ep_user = user, ep_db = db,
       ep_password = password, ep_max_pool = max_pool, ep_role = role, ep_weight = weight\<rparr>]\<rparr>"

definition builder_primary_failover where
  "builder_primary_failover order cfg = cfg\<lparr>cg_primary_failover := order\<rparr>"

definition builder_default_consistency where
  "builder_default_consistency c cfg = cfg\<lparr>cg_routing := (cg_routing cfg)\<lparr>rc_default_consistency := c\<rparr>\<rparr>"

definition builder_bounded_staleness where
  "builder_bounded_staleness ms lsn cfg =
     cfg\<lparr>cg_routing := (cg_routing cfg)\<lparr>rc_bounded_staleness := \<lparr>max_staleness = ms, max_lsn_lag = lsn\<rparr>\<rparr>\<rparr>"

definition builder_read_my_writes_ttl where
  "builder_read_my_writes_ttl ttl cfg =
     cfg\<lparr>cg_routing := (cg_routing cfg)\<lparr>rc_read_my_writes_ttl_ms := word_of_int ttl\<rparr>\<rparr>"

definition builder_pool_limits where
  "builder_pool_limits def_max olap_max cfg =
     cfg\<lparr>cg_limits := \<lparr>default_max_conns = def_max, analytics_max_conns = olap_max\<rparr>\<rparr>"

definition builder_timeouts where
  "builder_timeouts connect qread qwrite cfg =
     cfg\<lparr>cg_timeouts := \<lparr>tm_connect = connect, tm_query_read = qread, tm_query_write = qwrite\<rparr>\<rparr>"

definition builder_health where
  "builder_health interval_ms lag_thr_ms probe_sql cfg =
     cfg\<lparr>cg_health := (cg_health cfg)\<lparr>hc_interval_ms := interval_ms, hc_lag_threshold_ms := lag_thr_ms,
       hc_rtt_probe_sql := probe_sql\<rparr>\<rparr>"

definition builder_auto_detect_leader where
  "builder_auto_detect_leader b cfg = cfg\<lparr>cg_health := (cg_health cfg)\<lparr>hc_auto_detect_leader := b\<rparr>\<rparr>"

definition builder_leader_probe_sql where
  "builder_leader_probe_sql sql cfg = cfg\<lparr>cg_health := (cg_health cfg)\<lparr>hc_leader_probe_sql := sql\<rparr>\<rparr>"

definition builder_ssl_config where
  "builder_ssl_config ssl cfg = cfg\<lparr>cg_ssl_config := ssl\<rparr>"

definition builder_keepalive_config where
  "builder_keepalive_config k cfg = cfg\<lparr>cg_keepalive_config := k\<rparr>"

text \<open>\<^verbatim>\<open>validate\<close>: the loop over the nodes with the names so far, then the two checks behind it.\<close>

fun validate_nodes :: "PgEndpoint list \<Rightarrow> string list \<Rightarrow> bool \<Rightarrow> string + string list \<times> bool" where
  "validate_nodes [] names has_primary = Inr (names, has_primary)"
| "validate_nodes (n # ns) names has_primary =
     (if ep_name n \<in> set names then Inl (''duplicate node: '' @ ep_name n)
      else if ep_weight n = 0 then Inl (''weight must be >0 for node: '' @ ep_name n)
      else validate_nodes ns (ep_name n # names) (has_primary \<or> ep_role n = Primary))"

definition validate :: "Config \<Rightarrow> string option" where
  "validate cfg =
     (case validate_nodes (cg_nodes cfg) [] False of
        Inl e \<Rightarrow> Some e
      | Inr (names, has_primary) \<Rightarrow>
          if \<not> has_primary then Some ''no Primary node''
          else map_option (\<lambda>pf. ''primary_failover references unknown node: '' @ pf)
                 (find (\<lambda>pf. pf \<notin> set names) (cg_primary_failover cfg)))"

definition build :: "(PgEndpoint \<Rightarrow> nat option) \<Rightarrow> Config \<Rightarrow> string + 'c connector" where
  "build mk cfg = (case validate cfg of Some e \<Rightarrow> Inl e | None \<Rightarrow> Inr (new_connector mk cfg))"


section \<open>Choosing the best of a list\<close>

text \<open>The order in which \<^verbatim>\<open>better\<close> prefers replicas: shorter round trip, then larger weight.\<close>

datatype replica_key = Key (key_rtt: int) (key_weight: byte)

instantiation replica_key :: linorder
begin

definition less_eq_replica_key :: "replica_key \<Rightarrow> replica_key \<Rightarrow> bool" where
  "less_eq_replica_key a b \<longleftrightarrow> key_rtt a < key_rtt b \<or> key_rtt a = key_rtt b \<and> key_weight b \<le> key_weight a"

definition less_replica_key :: "replica_key \<Rightarrow> replica_key \<Rightarrow> bool" where
  "less_replica_key a b \<longleftrightarrow> key_rtt a < key_rtt b \<or> key_rtt a = key_rtt b \<and> key_weight b < key_weight a"

instance
  by standard (auto simp: less_eq_replica_key_def less_replica_key_def intro: replica_key.expand)

end

definition node_key :: "'c node \<Rightarrow> replica_key" where
  "node_key n = Key (ns_rtt (nd_stats n)) (ep_weight (nd_ep n))"

text \<open>A loop that keeps the best candidate so far ends at the first of the smallest ones.\<close>

locale ranking =
  fixes bet :: "'c node \<Rightarrow> 'c node \<Rightarrow> bool"
    and key :: "'c node \<Rightarrow> 'k :: linorder"
  assumes bet_key: "bet a b \<longleftrightarrow> key a < key b"
begin

definition first_min :: "('c node \<Rightarrow> bool) \<Rightarrow> 'c connector \<Rightarrow> nat \<Rightarrow> nat \<Rightarrow> bool" where
  "first_min cand ct k i \<longleftrightarrow> i < k \<and> cand (node_at ct i)
     \<and> (\<forall>j < k. cand (node_at ct j) \<longrightarrow> key (node_at ct i) \<le> key (node_at ct j))
     \<and> (\<forall>j < i. cand (node_at ct j) \<longrightarrow> key (node_at ct i) < key (node_at ct j))"

definition best_so_far :: "('c node \<Rightarrow> bool) \<Rightarrow> 'c connector \<Rightarrow> nat \<Rightarrow> nat option \<Rightarrow> bool" where
  "best_so_far cand ct k best \<longleftrightarrow>
     (case best of None \<Rightarrow> \<forall>j < k. \<not> cand (node_at ct j) | Some i \<Rightarrow> first_min cand ct k i)"

lemma best_so_far_step:
  assumes "best_so_far cand ct k best"
  shows "best_so_far cand ct (Suc k)
    (if \<not> cand (node_at ct k) then best
     else case best of None \<Rightarrow> Some k | Some b \<Rightarrow> if bet (node_at ct k) (node_at ct b) then Some k else Some b)"
  using assms
  by (cases best) (fastforce simp: best_so_far_def first_min_def bet_key less_Suc_eq not_less)+

lemma best_loop_so_far:
  "best_so_far cand ct k best \<Longrightarrow> k \<le> m \<Longrightarrow> best_so_far cand ct m (best_loop cand bet ct [k..<m] best)"
proof (induction "m - k" arbitrary: k best)
  case (Suc d)
  then have "[k..<m] = k # [Suc k..<m]" by (simp add: upt_rec)
  with Suc best_so_far_step [OF Suc.prems(1)] show ?case by simp
qed simp

lemma first_min_unique: "first_min cand ct k i \<Longrightarrow> first_min cand ct k j \<Longrightarrow> i = j"
  by (metis first_min_def leD linorder_neqE_nat)

lemma best_loop_iff: "best_loop cand bet ct (all_idx ct) None = Some i \<longleftrightarrow> first_min cand ct (length (ct_nodes ct)) i"
proof -
  have b: "best_so_far cand ct (length (ct_nodes ct)) (best_loop cand bet ct (all_idx ct) None)"
    unfolding all_idx_def by (rule best_loop_so_far) (simp_all add: best_so_far_def)
  show ?thesis
  proof (cases "best_loop cand bet ct (all_idx ct) None")
    case None
    with b show ?thesis by (auto simp: best_so_far_def first_min_def)
  next
    case (Some j)
    with b first_min_unique show ?thesis by (auto simp: best_so_far_def)
  qed
qed

end

interpretation by_speed: ranking better node_key
  by unfold_locales (auto simp: better_def node_key_def less_replica_key_def)

interpretation by_lag: ranking "\<lambda>a b. ns_replay_lag (nd_stats a) < ns_replay_lag (nd_stats b)" "\<lambda>n. ns_replay_lag (nd_stats n)"
  by unfold_locales simp

section \<open>Facts\<close>

definition ct_wf :: "'c connector \<Rightarrow> bool" where
  "ct_wf ct \<longleftrightarrow> (\<forall>i \<in> set (ct_failover ct). i < length (ct_nodes ct))"

lemma indices_from_set: "i \<in> set (indices_from k P xs) \<longleftrightarrow> k \<le> i \<and> i < k + length xs \<and> P (xs ! (i - k))"
proof (induction xs arbitrary: k i)
  case (Cons x xs)
  show ?case
    by (cases "i = k") (auto simp: Cons nth_Cons' Suc_diff_le not_less_eq_eq)
qed simp

lemma first_index_Some: "first_index P xs = Some i \<Longrightarrow> i < length xs \<and> P (xs ! i)"
  using indices_from_set [of i 0 P xs] by (auto simp: first_index_def split: list.splits)

lemma in_map_filter: "y \<in> set (List.map_filter f xs) \<longleftrightarrow> (\<exists>x \<in> set xs. f x = Some y)"
  by (force simp: map_filter_def)

lemma new_connector_wf: "ct_wf (new_connector mk cfg)"
  by (auto simp: ct_wf_def new_connector_def Let_def failover_indices_def in_map_filter indices_from_set
      split: if_splits dest!: first_index_Some)

lemma first_of_Some: "first_of xs = Some x \<Longrightarrow> Some x \<in> set xs"
  by (induction xs rule: first_of.induct) auto

lemma first_of_None: "first_of xs = None \<longleftrightarrow> set xs \<subseteq> {None}"
  by (induction xs rule: first_of.induct) auto

lemma pick_primary_admitted: "pick_primary ct = Some i \<Longrightarrow> admitted (node_at ct i)"
  by (auto simp: pick_primary_def find_Some_iff2 leads_def configured_primary_def dest!: first_of_Some split: if_splits)

lemma pick_primary_range: "ct_wf ct \<Longrightarrow> pick_primary ct = Some i \<Longrightarrow> i < length (ct_nodes ct)"
  by (auto simp: pick_primary_def find_Some_iff2 ct_wf_def all_idx_def dest!: first_of_Some split: if_splits)

lemma ensure_pool_present: "nd_pool n \<noteq> None \<Longrightarrow> ensure_pool mk cfg n = (True, n)"
  by (simp add: ensure_pool_def)

lemma set_node_same [simp]: "set_node i (node_at ct i) ct = ct"
  by (simp add: set_node_def node_at_def)

lemma pick_then_admitted: "admitted (node_at ct i) \<Longrightarrow> pick_then mk (Some i) rest ct = (Some i, ct)"
  by (auto simp: pick_then_def admitted_def ensure_pool_present)


lemma ensure_pool_ep [simp]: "nd_ep (snd (ensure_pool mk cfg n)) = nd_ep n"
  by (auto simp: ensure_pool_def split: option.splits)

lemma ensure_pool_fst: "fst (ensure_pool mk cfg n) \<longleftrightarrow> nd_pool (snd (ensure_pool mk cfg n)) \<noteq> None"
  by (auto simp: ensure_pool_def split: option.splits)

lemma node_at_set_node: "node_at (set_node j n ct) i = (if i = j \<and> j < length (ct_nodes ct) then n else node_at ct i)"
  by (auto simp: node_at_def set_node_def nth_list_update) (simp add: list_update_beyond)

lemma set_node_ep: "nd_ep n = nd_ep (node_at ct j) \<Longrightarrow> nd_ep (node_at (set_node j n ct) i) = nd_ep (node_at ct i)"
  by (auto simp: node_at_set_node)

lemma set_node_frame [simp]: "ct_cfg (set_node j n ct) = ct_cfg ct" "length (ct_nodes (set_node j n ct)) = length (ct_nodes ct)"
  "ct_failover (set_node j n ct) = ct_failover ct"
  by (simp_all add: set_node_def)

text \<open>The nodes \<^verbatim>\<open>pick_any\<close> looks at are usable ones, and it finds a configured primary that has a pool.\<close>

definition seen_usable :: "nat list \<Rightarrow> 'c connector \<Rightarrow> nat option \<Rightarrow> bool" where
  "seen_usable is ct x \<longleftrightarrow> (case x of None \<Rightarrow> True | Some i \<Rightarrow> i \<in> set is \<and> is_usable (ep_role (nd_ep (node_at ct i))))"

lemma any_loop_usable:
  assumes "any_loop mk is (d, c, r) ct = ((d', c', r'), ct')" "set is \<subseteq> set js"
    and "seen_usable js ct d" "seen_usable js ct c" "seen_usable js ct r"
  shows "seen_usable js ct d' \<and> seen_usable js ct c' \<and> seen_usable js ct r'"
  using assms
proof (induction "is" arbitrary: d c r ct)
  case (Cons i "is")
  obtain ok n where e: "ensure_pool mk (ct_cfg ct) (node_at ct i) = (ok, n)" by fastforce
  then have ep: "nd_ep n = nd_ep (node_at ct i)" using ensure_pool_ep [of mk "ct_cfg ct" "node_at ct i"] by simp
  then have same: "seen_usable js (set_node i n ct) x = seen_usable js ct x" for x
    by (simp add: seen_usable_def set_node_ep split: option.split)
  have "seen_usable js ct (or_first b i x)" if "is_usable (ep_role (nd_ep (node_at ct i)))" "seen_usable js ct x" for b x
    using that Cons.prems(2) by (simp add: or_first_def seen_usable_def split: option.splits)
  with Cons.prems Cons.IH [of _ _ _ ct] Cons.IH [of _ _ _ "set_node i n ct"] e same show ?case
    by (auto split: if_splits)
qed simp

definition has_primary_pool :: "'c connector \<Rightarrow> nat \<Rightarrow> bool" where
  "has_primary_pool ct i \<longleftrightarrow> i < length (ct_nodes ct) \<and> ep_role (nd_ep (node_at ct i)) = Primary \<and> nd_pool (node_at ct i) \<noteq> None"

lemma has_primary_pool_ensure:
  assumes "has_primary_pool ct i" "ensure_pool mk (ct_cfg ct) (node_at ct j) = (ok, n)"
  shows "has_primary_pool (set_node j n ct) i"
  using assms ensure_pool_ep [of mk "ct_cfg ct" "node_at ct j"] ensure_pool_present [of "node_at ct j" mk "ct_cfg ct"]
  by (auto simp: has_primary_pool_def node_at_set_node)

lemma any_loop_configured:
  assumes "any_loop mk is (d, c, r) ct = ((d', c', r'), ct')" "has_primary_pool ct i" "i \<in> set is \<or> c \<noteq> None"
  shows "c' \<noteq> None"
  using assms
proof (induction "is" arbitrary: d c r ct)
  case (Cons j "is")
  obtain ok n where e: "ensure_pool mk (ct_cfg ct) (node_at ct j) = (ok, n)" by fastforce
  note hp = has_primary_pool_ensure [OF Cons.prems(2) e]
  show ?case
  proof (cases "j = i")
    case True
    with Cons.prems(2) e ensure_pool_present [of "node_at ct i" mk "ct_cfg ct"] have "ok" "n = node_at ct i"
      by (auto simp: has_primary_pool_def)
    with Cons.prems e True Cons.IH [OF _ hp, of "or_first (ns_is_primary (nd_stats n)) j d" "or_first True j c"
        "or_first (is_replica Primary) j r"] show ?thesis
      by (auto simp: has_primary_pool_def is_usable_def or_first_def split: if_splits)
  next
    case False
    have keep: "c \<noteq> None \<Longrightarrow> or_first b j c \<noteq> None" for b by (simp add: or_first_def)
    with Cons.prems False e Cons.IH [OF _ Cons.prems(2)] Cons.IH [OF _ hp] show ?thesis
      by (auto split: if_splits)
  qed
qed simp

lemma pick_any_total:
  assumes "has_primary_pool ct i"
  shows "fst (pick_any mk b ct) \<noteq> None"
proof -
  obtain d c r ct' where a: "any_loop mk (all_idx ct) (None, None, None) ct = ((d, c, r), ct')" by (metis prod.collapse)
  have "c \<noteq> None"
    using any_loop_configured [OF a assms] assms by (auto simp: has_primary_pool_def all_idx_def)
  with a show ?thesis by (cases r) (auto simp: pick_any_def Let_def)
qed

lemma pick_any_usable:
  assumes "pick_any mk b ct = (Some i, ct')"
  shows "i < length (ct_nodes ct) \<and> is_usable (ep_role (nd_ep (node_at ct i)))"
proof -
  obtain d c r ct2 where a: "any_loop mk (all_idx ct) (None, None, None) ct = ((d, c, r), ct2)" by (metis prod.collapse)
  have "seen_usable (all_idx ct) ct d \<and> seen_usable (all_idx ct) ct c \<and> seen_usable (all_idx ct) ct r"
    by (rule any_loop_usable [OF a]) (simp_all add: seen_usable_def)
  with a assms show ?thesis
    by (auto simp: pick_any_def Let_def seen_usable_def all_idx_def split: if_splits dest!: first_of_Some)
qed


lemma pick_primary_leader:
  assumes "hc_auto_detect_leader (cg_health (ct_cfg ct))" "j < length (ct_nodes ct)" "leads True (node_at ct j)"
  shows "\<exists>i. pick_primary ct = Some i \<and> leads True (node_at ct i)"
proof (cases "find (\<lambda>i. leads True (node_at ct i)) (ct_failover ct)")
  case (Some i)
  then have "leads True (node_at ct i)" by (auto simp: find_Some_iff)
  with Some assms(1) show ?thesis by (simp add: pick_primary_def)
next
  case none: None
  show ?thesis
  proof (cases "find (\<lambda>i. leads True (node_at ct i)) (all_idx ct)")
    case None
    with assms show ?thesis by (auto simp: find_None_iff all_idx_def)
  next
    case (Some i)
    then have "leads True (node_at ct i)" by (auto simp: find_Some_iff)
    with Some none assms(1) show ?thesis by (simp add: pick_primary_def)
  qed
qed

lemma route_primary_leader:
  assumes "hc_auto_detect_leader (cg_health (ct_cfg ct))" "j < length (ct_nodes ct)" "leads True (node_at ct j)"
  shows "\<exists>i. route_primary mk b ct = (Some i, ct) \<and> leads True (node_at ct i)"
  using pick_primary_leader [OF assms] by (auto simp: route_primary_def leads_def pick_then_admitted)

lemma route_primary_total:
  assumes "ct_wf ct" "has_primary_pool ct k"
  shows "\<exists>i ct'. route_primary mk b ct = (Some i, ct') \<and> i < length (ct_nodes ct) \<and> is_usable (ep_role (nd_ep (node_at ct i)))"
proof (cases "pick_primary ct")
  case None
  with pick_any_total [OF assms(2), of mk b] pick_any_usable [of mk b ct] show ?thesis
    by (cases "pick_any mk b ct") (auto simp: route_primary_def pick_then_def)
next
  case (Some i)
  with pick_primary_admitted [OF Some] pick_primary_range [OF assms(1) Some] show ?thesis
    by (auto simp: route_primary_def pick_then_admitted admitted_def)
qed

lemma pick_replica_admitted:
  "pick_best_replica hint ct = Some i \<Longrightarrow> admitted (node_at ct i) \<and> i < length (ct_nodes ct) \<and> replica_candidate hint (node_at ct i)"
  "pick_sync_replica ct = Some i \<Longrightarrow> admitted (node_at ct i) \<and> i < length (ct_nodes ct)"
  by (auto simp: pick_best_replica_def pick_sync_replica_def by_speed.best_loop_iff by_lag.best_loop_iff
      by_speed.first_min_def by_lag.first_min_def replica_candidate_def)

lemma pick_then_total:
  assumes "\<And>i. pick = Some i \<Longrightarrow> admitted (node_at ct i) \<and> i < length (ct_nodes ct)" "ct_wf ct" "has_primary_pool ct k"
  shows "\<exists>i ct'. pick_then mk pick (route_primary mk b) ct = (Some i, ct') \<and> i < length (ct_nodes ct)
    \<and> is_usable (ep_role (nd_ep (node_at ct i)))"
  using assms(1) route_primary_total [OF assms(2,3), of mk b]
  by (cases pick) (auto simp: pick_then_admitted admitted_def, auto simp: pick_then_def)

lemma route_total:
  assumes "ct_wf ct" "has_primary_pool ct k"
  shows "\<exists>i ct'. route mk hint ct = (Some i, ct') \<and> i < length (ct_nodes ct) \<and> is_usable (ep_role (nd_ep (node_at ct i)))"
  using route_primary_total [OF assms, of mk True] pick_then_total [OF _ assms, of "pick_best_replica hint ct" mk False]
    pick_replica_admitted(1) [of hint ct]
  unfolding route_def by presburger

lemma route_for_tx_total:
  assumes "ct_wf ct" "has_primary_pool ct k"
  shows "\<exists>i ct'. route_for_tx mk tc ct = (Some i, ct') \<and> i < length (ct_nodes ct) \<and> is_usable (ep_role (nd_ep (node_at ct i)))"
proof -
  note best = pick_then_total [OF _ assms, of "pick_best_replica h ct" mk False for h]
  have "\<exists>i ct'. pick_then mk (pick_best_replica h ct) (route_primary mk False) ct = (Some i, ct')
      \<and> i < length (ct_nodes ct) \<and> is_usable (ep_role (nd_ep (node_at ct i)))" for h
    using best [of h] pick_replica_admitted(1) [of h ct] by blast
  moreover have "\<exists>i ct'. pick_then mk (pick_sync_replica ct) (route_primary mk True) ct = (Some i, ct')
      \<and> i < length (ct_nodes ct) \<and> is_usable (ep_role (nd_ep (node_at ct i)))"
    using pick_then_total [OF _ assms, of "pick_sync_replica ct" mk True] pick_replica_admitted(2) [of ct] by blast
  ultimately show ?thesis
    using route_primary_total [OF assms, of mk True] unfolding route_for_tx_def Let_def by presburger
qed

lemma validate_nodes_Inr:
  "validate_nodes ns names hp = Inr (names', hp') \<longleftrightarrow>
     distinct (map ep_name ns) \<and> (\<forall>n \<in> set ns. ep_name n \<notin> set names \<and> ep_weight n \<noteq> 0)
     \<and> names' = rev (map ep_name ns) @ names \<and> hp' = (hp \<or> (\<exists>n \<in> set ns. ep_role n = Primary))"
  by (induction ns arbitrary: names hp) (auto simp: image_iff)

lemma validate_iff:
  "validate cfg = None \<longleftrightarrow> distinct (map ep_name (cg_nodes cfg)) \<and> (\<forall>n \<in> set (cg_nodes cfg). ep_weight n \<noteq> 0)
     \<and> (\<exists>n \<in> set (cg_nodes cfg). ep_role n = Primary) \<and> set (cg_primary_failover cfg) \<subseteq> ep_name ` set (cg_nodes cfg)"
proof (cases "validate_nodes (cg_nodes cfg) [] False")
  case (Inl e)
  then have "\<not> (distinct (map ep_name (cg_nodes cfg)) \<and> (\<forall>n \<in> set (cg_nodes cfg). ep_weight n \<noteq> 0))"
    using validate_nodes_Inr [of "cg_nodes cfg" "[]" False "rev (map ep_name (cg_nodes cfg))"
        "\<exists>n \<in> set (cg_nodes cfg). ep_role n = Primary"] by auto
  with Inl show ?thesis by (auto simp: validate_def)
next
  case (Inr r)
  obtain names hp where r: "r = (names, hp)" by (cases r)
  with Inr validate_nodes_Inr [of "cg_nodes cfg" "[]" False names hp] show ?thesis
    by (auto simp: validate_def find_None_iff)
qed

lemma breaker_closes_slowly:
  assumes "nd_cb_state n = 2"
  shows "let s = nd_cb_state (fold (\<lambda>(now, ok). apply_circuit_breaker hc now ok) evs n);
             k = length (takeWhile snd (rev evs))
         in s = 2 \<or> s = 1 \<and> 1 \<le> k \<or> s = 0 \<and> 2 \<le> k"
proof (induction evs rule: rev_induct)
  case (snoc ev evs)
  obtain now ok where "ev = (now, ok)" by (cases ev)
  with snoc show ?case by (auto simp: apply_circuit_breaker_def Let_def)
qed (simp add: assms)

lemma open_breaker_not_picked:
  assumes "nd_cb_state (node_at ct i) = 2"
  shows "pick_primary ct \<noteq> Some i \<and> pick_best_replica hint ct \<noteq> Some i \<and> pick_sync_replica ct \<noteq> Some i
    \<and> fst (pin mk name ct) \<noteq> Some i"
proof (intro conjI)
  have "\<not> admitted (node_at ct i)" using assms by (simp add: admitted_def)
  with pick_primary_admitted pick_replica_admitted
  show "pick_primary ct \<noteq> Some i" "pick_best_replica hint ct \<noteq> Some i" "pick_sync_replica ct \<noteq> Some i" by blast+
  show "fst (pin mk name ct) \<noteq> Some i" using assms by (auto simp: pin_def split: option.split prod.split)
qed

lemma failed_tick_opens:
  assumes "node_tick L ip4 ip6 X mk cfg e n = Finished (None, n')" "\<not> ns_healthy (nd_stats n')" "nd_cb_state n \<le> 2"
  shows "nd_cb_state n' = 2 \<and> pb_now e \<le> nd_cb_until n'"
proof -
  have three: "nd_cb_state n = 0 \<or> nd_cb_state n = 1 \<or> nd_cb_state n = 2" using assms(3) by (simp add: word_le_nat_alt) unat_arith
  have st: "nd_cb_state (snd (ensure_pool mk cfg n)) = nd_cb_state n"
    by (auto simp: ensure_pool_def split: option.split)
  have br: "nd_cb_state (apply_circuit_breaker hc now False m) = 2 \<and> now \<le> nd_cb_until (apply_circuit_breaker hc now False m)"
    if "nd_cb_state m = nd_cb_state n" for m :: "'a node" and hc now
    using three that by (auto simp: apply_circuit_breaker_def ns_of_ms_def)
  have keep: "nd_stats (apply_circuit_breaker hc now b m) = nd_stats m" for hc now b and m :: "'a node"
    by (auto simp: apply_circuit_breaker_def Let_def)
  have fin: "nd_cb_state n' = 2 \<and> now \<le> nd_cb_until n'"
    if "tick_finish cfg now ok ip rtt lag m = (None, n')" "nd_cb_state m = nd_cb_state n" for now ok ip rtt lag m
    using that assms(2) br [of "m\<lparr>nd_stats := st\<rparr>" for st] by (auto simp: tick_finish_def Let_def keep split: sum.splits)
  show ?thesis
  proof (cases "nd_pool (snd (ensure_pool mk cfg n))")
    case None
    with assms(1) st br show ?thesis by (auto simp: node_tick_def Let_def case_prod_beta)
  next
    case (Some p)
    with assms(1) st show ?thesis
      by (auto simp: node_tick_def Let_def bind_eq_Finished case_prod_beta dest!: fin)
  qed
qed

text \<open>A routed node has a pool.\<close>

definition pooled :: "'c connector \<Rightarrow> nat option \<Rightarrow> bool" where
  "pooled ct x \<longleftrightarrow> (case x of None \<Rightarrow> True | Some i \<Rightarrow> nd_pool (node_at ct i) \<noteq> None)"

lemma pooled_ensure:
  assumes "ensure_pool mk (ct_cfg ct) (node_at ct j) = (ok, n)" "pooled ct x"
  shows "pooled (set_node j n ct) x"
  using assms ensure_pool_present [of "node_at ct j" mk "ct_cfg ct"]
  by (auto simp: pooled_def node_at_set_node split: option.splits)

lemma any_loop_pooled:
  assumes "any_loop mk is (d, c, r) ct = ((d', c', r'), ct')" "\<forall>i \<in> set is. i < length (ct_nodes ct)"
    and "pooled ct d" "pooled ct c" "pooled ct r"
  shows "pooled ct' d' \<and> pooled ct' c' \<and> pooled ct' r'"
  using assms
proof (induction "is" arbitrary: d c r ct)
  case (Cons i "is")
  obtain ok n where e: "ensure_pool mk (ct_cfg ct) (node_at ct i) = (ok, n)" by fastforce
  have new: "pooled (set_node i n ct) (or_first b i x)" if ok "pooled ct x" for b x
    using that pooled_ensure [OF e] ensure_pool_fst [of mk "ct_cfg ct" "node_at ct i"] Cons.prems(2) e
    by (auto simp: or_first_def pooled_def node_at_set_node split: option.splits)
  show ?case
  proof (cases "is_usable (ep_role (nd_ep (node_at ct i)))")
    case True
    with Cons.prems e new pooled_ensure [OF e] Cons.IH [of _ _ _ "set_node i n ct"] show ?thesis
      by (auto split: if_splits)
  qed (use Cons in auto)
qed simp

lemma pick_any_pooled: "pick_any mk b ct = (x, ct') \<Longrightarrow> pooled ct' x"
proof -
  assume x: "pick_any mk b ct = (x, ct')"
  obtain d c r ct2 where a: "any_loop mk (all_idx ct) (None, None, None) ct = ((d, c, r), ct2)" by (metis prod.collapse)
  have "pooled ct2 d \<and> pooled ct2 c \<and> pooled ct2 r"
    by (rule any_loop_pooled [OF a]) (simp_all add: pooled_def all_idx_def)
  with a x show ?thesis by (cases d; cases c; cases r) (auto simp: pick_any_def Let_def pooled_def split: if_splits)
qed

lemma pick_then_pooled:
  assumes "pick_then mk pick rest ct = (x, ct')" "\<And>ct1. rest ct1 = (x, ct') \<Longrightarrow> pooled ct' x"
    and "\<And>i. pick = Some i \<Longrightarrow> i < length (ct_nodes ct)"
  shows "pooled ct' x"
proof (cases pick)
  case (Some i)
  obtain ok n where e: "ensure_pool mk (ct_cfg ct) (node_at ct i) = (ok, n)" by fastforce
  with assms Some ensure_pool_fst [of mk "ct_cfg ct" "node_at ct i"] show ?thesis
    by (auto simp: pick_then_def pooled_def node_at_set_node split: if_splits)
qed (use assms in \<open>auto simp: pick_then_def\<close>)

lemma route_pooled:
  assumes "ct_wf ct" "route mk hint ct = (x, ct')"
  shows "pooled ct' x"
proof -
  have prim: "pooled ct1' y" if "route_primary mk b ct1 = (y, ct1')" "ct_wf ct1" for b ct1 y ct1'
    using that(1) unfolding route_primary_def
    by (rule pick_then_pooled) (auto intro: pick_any_pooled pick_primary_range [OF that(2)])
  show ?thesis
  proof (cases "rh_kind hint = Write \<or> rh_kind hint = DDL \<or> rh_consistency hint = Strong \<or> rh_read_my_writes hint")
    case True
    then show ?thesis using assms prim by (simp add: route_def)
  next
    case False
    obtain r where r: "pick_best_replica hint ct = r" by simp
    show ?thesis
    proof (cases r)
      case None
      with False r assms prim show ?thesis by (simp add: route_def pick_then_def)
    next
      case (Some i)
      with r pick_replica_admitted(1) [of hint ct i] have "admitted (node_at ct i)" by simp
      moreover from this False r Some assms(2) have "x = Some i" "ct' = ct" by (simp_all add: route_def pick_then_admitted)
      ultimately show ?thesis by (simp add: pooled_def admitted_def)
    qed
  qed
qed

lemma built_routes:
  assumes "build mk cfg = Inr ct" "\<forall>ep \<in> set (cg_nodes cfg). ep_role ep = Primary \<longrightarrow> mk ep \<noteq> None"
  shows "\<exists>i ct' p. route mk hint ct = (Some i, ct') \<and> i < length (cg_nodes cfg) \<and> is_usable (ep_role (cg_nodes cfg ! i))
    \<and> nd_pool (node_at ct' i) = Some p"
proof -
  have v: "validate cfg = None" and ct: "ct = new_connector mk cfg" using assms(1) by (auto simp: build_def split: option.splits)
  have wf: "ct_wf ct" unfolding ct by (rule new_connector_wf)
  have at: "node_at ct i = new_node mk cfg (cg_nodes cfg ! i)" if "i < length (cg_nodes cfg)" for i
    using that by (simp add: ct new_connector_def node_at_def Let_def)
  have len: "length (ct_nodes ct) = length (cg_nodes cfg)" by (simp add: ct new_connector_def Let_def)
  from v obtain k where "k < length (cg_nodes cfg)" "ep_role (cg_nodes cfg ! k) = Primary"
    by (auto simp: validate_iff in_set_conv_nth)
  with assms(2) have "has_primary_pool ct k"
    by (auto simp: has_primary_pool_def at len new_node_def make_node_pool_def)
  from route_total [OF wf this, of mk hint] obtain i ct' where r: "route mk hint ct = (Some i, ct')"
    "i < length (cg_nodes cfg)" "is_usable (ep_role (cg_nodes cfg ! i))"
    by (auto simp: len at new_node_def)
  with route_pooled [OF wf r(1)] show ?thesis by (auto simp: pooled_def)
qed

section \<open>Properties\<close>

text \<open>C18: the replica a read goes to is exactly the first, in configuration order, of the best ones: among the healthy
  replicas with a pool, a breaker that is not open and a lag within the hint's bounds it has the shortest round
  trip and among those the largest weight; a replica before it in the configuration is strictly worse.\<close>

theorem replica_choice_optimal:
  "pick_best_replica hint ct = Some i \<longleftrightarrow>
     i < length (ct_nodes ct) \<and> replica_candidate hint (node_at ct i)
     \<and> (\<forall>j < length (ct_nodes ct). replica_candidate hint (node_at ct j) \<longrightarrow>
          (if j < i then better (node_at ct i) (node_at ct j) else \<not> better (node_at ct j) (node_at ct i)))"
  unfolding pick_best_replica_def by_speed.best_loop_iff by_speed.first_min_def by_speed.bet_key
  by (auto simp: not_less less_imp_le)

definition sample_endpoint :: "string \<Rightarrow> NodeRole \<Rightarrow> PgEndpoint" where
  "sample_endpoint name role = \<lparr>ep_name = name, ep_host = ''db'', ep_port = ''5432'', ep_user = ''u'', ep_db = ''d'',
     ep_password = ''p'', ep_max_pool = 4, ep_role = role, ep_weight = 1\<rparr>"

definition sample_cluster :: Config where
  "sample_cluster = (default_Config plain_ssl no_keepalive)
     \<lparr>cg_nodes := [sample_endpoint ''a'' Primary, sample_endpoint ''b'' SyncReplica, sample_endpoint ''c'' AsyncReplica]\<rparr>"

definition sample_node :: "NodeRole \<Rightarrow> bool \<Rightarrow> bool \<Rightarrow> byte \<Rightarrow> int \<Rightarrow> 'c node" where
  "sample_node role healthy primary cb rtt = \<lparr>nd_ep = sample_endpoint ''n'' role, nd_pool = Some (new_pool 4 4),
     nd_stats = no_node_stats\<lparr>ns_healthy := healthy, ns_is_primary := primary, ns_rtt := rtt\<rparr>,
     nd_cb_state = cb, nd_cb_until = 0\<rparr>"

definition sample_connector :: "unit node list \<Rightarrow> unit connector" where
  "sample_connector nodes = \<lparr>ct_cfg = sample_cluster, ct_nodes = nodes, ct_failover = [0, 1, 2]\<rparr>"

definition sample_hint :: "QueryKind \<Rightarrow> RouteHint" where
  "sample_hint kind = \<lparr>rh_kind = kind, rh_consistency = Eventual,
     rh_staleness = \<lparr>max_staleness = 0, max_lsn_lag = 0\<rparr>, rh_read_my_writes = False\<rparr>"

theorem replica_choice_optimal_witness:
  "pick_best_replica (sample_hint Read)
     (sample_connector [sample_node Primary True True 0 1, sample_node SyncReplica True False 0 7,
        sample_node AsyncReplica True False 0 5]) = Some 2"
  unfolding replica_choice_optimal
  by (auto simp: sample_connector_def sample_node_def sample_hint_def sample_endpoint_def node_at_def
      replica_candidate_def is_replica_def admitted_def is_usable_def ok_stale_def better_def no_node_stats_def
      less_Suc_eq numeral_3_eq_3 numeral_2_eq_2)

text \<open>Statements and transactions that need the primary.\<close>

definition needs_primary :: "RouteHint \<Rightarrow> bool" where
  "needs_primary hint \<longleftrightarrow>
     rh_kind hint = Write \<or> rh_kind hint = DDL \<or> rh_consistency hint = Strong \<or> rh_read_my_writes hint"

text \<open>C17: with leader detection on, whenever some healthy node with a pool and a breaker that is not open last answered
  that it is the leader, every write, DDL statement, strong or read-my-writes read and every transaction that may
  write or is serializable is routed to such a node, whatever roles are configured.\<close>

theorem writes_follow_leader:
  assumes "hc_auto_detect_leader (cg_health (ct_cfg ct))" "j < length (ct_nodes ct)" "leads True (node_at ct j)"
  shows "(needs_primary hint \<longrightarrow> (\<exists>i. route mk hint ct = (Some i, ct) \<and> leads True (node_at ct i)))
    \<and> (\<not> tc_read_only tc \<or> tc_isolation tc = Serializable \<longrightarrow>
        (\<exists>i. route_for_tx mk tc ct = (Some i, ct) \<and> leads True (node_at ct i)))"
  using route_primary_leader [OF assms, of mk True] by (auto simp: route_def needs_primary_def route_for_tx_def Let_def)

theorem writes_follow_leader_witness:
  "\<exists>i. route (\<lambda>_. Some 4) (sample_hint Write)
      (sample_connector [sample_node Primary True False 0 1, sample_node SyncReplica True True 0 7])
     = (Some i, sample_connector [sample_node Primary True False 0 1, sample_node SyncReplica True True 0 7])
   \<and> leads True (node_at (sample_connector [sample_node Primary True False 0 1, sample_node SyncReplica True True 0 7]) i)"
  using writes_follow_leader [of "sample_connector [sample_node Primary True False 0 1, sample_node SyncReplica True True 0 7]"
      1 "sample_hint Write" "\<lambda>_. Some 4" plain_tx]
  by (auto simp: sample_connector_def sample_node_def sample_hint_def sample_endpoint_def node_at_def leads_def admitted_def
      is_usable_def no_node_stats_def needs_primary_def sample_cluster_def default_Config_def default_health_def)

text \<open>While the breaker of the leader is open, so that no node that reported to be the leader is admitted, writes go to
  the first healthy node configured as primary, although that node answered that it is not the leader.\<close>

theorem demoted_primary_gets_writes:
  assumes "needs_primary hint" "\<forall>j < length (ct_nodes ct). \<not> leads False (node_at ct j)" "ct_wf ct"
    and "i \<in> set (ct_failover ct)" "configured_primary True (node_at ct i)"
  shows "\<exists>k. route mk hint ct = (Some k, ct) \<and> ep_role (nd_ep (node_at ct k)) = Primary
    \<and> \<not> ns_is_primary (nd_stats (node_at ct k))"
proof -
  have none: "find (\<lambda>j. leads b (node_at ct j)) (all_idx ct) = None"
    "find (\<lambda>j. leads b (node_at ct j)) (ct_failover ct) = None" for b
    using assms(2,3) by (auto simp: find_None_iff all_idx_def ct_wf_def leads_def)
  obtain k where k: "find (\<lambda>j. configured_primary True (node_at ct j)) (ct_failover ct) = Some k"
    using assms(4,5) by (cases "find (\<lambda>j. configured_primary True (node_at ct j)) (ct_failover ct)") (auto simp: find_None_iff)
  then have p: "configured_primary True (node_at ct k)" "k \<in> set (ct_failover ct)" by (auto simp: find_Some_iff)
  have "pick_primary ct = Some k" by (simp add: pick_primary_def none k)
  moreover have "\<not> leads False (node_at ct k)" using assms(2,3) p(2) by (auto simp: ct_wf_def)
  ultimately show ?thesis
    using assms(1) p by (auto simp: route_def needs_primary_def route_primary_def configured_primary_def leads_def
      pick_then_admitted)
qed

theorem demoted_primary_gets_writes_witness:
  "\<exists>k. route (\<lambda>_. Some 4) (sample_hint Write)
      (sample_connector [sample_node Primary True False 0 1, sample_node SyncReplica False True 2 7, sample_node AsyncReplica True False 0 5])
     = (Some k, sample_connector [sample_node Primary True False 0 1, sample_node SyncReplica False True 2 7, sample_node AsyncReplica True False 0 5])
   \<and> ep_role (nd_ep (node_at (sample_connector [sample_node Primary True False 0 1, sample_node SyncReplica False True 2 7, sample_node AsyncReplica True False 0 5]) k)) = Primary
   \<and> \<not> ns_is_primary (nd_stats (node_at (sample_connector [sample_node Primary True False 0 1, sample_node SyncReplica False True 2 7, sample_node AsyncReplica True False 0 5]) k))"
  by (rule demoted_primary_gets_writes [where i = 0])
     (auto simp: sample_connector_def sample_node_def sample_hint_def sample_endpoint_def node_at_def leads_def admitted_def
      is_usable_def no_node_stats_def needs_primary_def configured_primary_def ct_wf_def less_Suc_eq numeral_3_eq_3 numeral_2_eq_2)

text \<open>C19: a node whose health tick fails is quarantined: its breaker opens, so neither the primary and replica choices nor
  \<^verbatim>\<open>pin\<close> return it, and however the later ticks go, its breaker is closed again only behind at least two healthy
  ticks in a row.\<close>

theorem failed_tick_quarantines:
  assumes "node_tick L ip4 ip6 X mk cfg e n = Finished (None, n')" "\<not> ns_healthy (nd_stats n')" "nd_cb_state n \<le> 2"
  shows "nd_cb_state n' = 2
    \<and> (\<forall>ct i. node_at ct i = n' \<longrightarrow> pick_primary ct \<noteq> Some i \<and> pick_best_replica hint ct \<noteq> Some i
         \<and> pick_sync_replica ct \<noteq> Some i \<and> fst (pin mk name ct) \<noteq> Some i)
    \<and> (\<forall>evs. nd_cb_state (fold (\<lambda>(now, ok). apply_circuit_breaker (cg_health cfg) now ok) evs n') = 0
         \<longrightarrow> 2 \<le> length (takeWhile snd (rev evs)))"
proof (intro conjI allI impI)
  show st: "nd_cb_state n' = 2" using failed_tick_opens [OF assms] by simp
  show "2 \<le> length (takeWhile snd (rev evs))"
    if "nd_cb_state (fold (\<lambda>(now, ok). apply_circuit_breaker (cg_health cfg) now ok) evs n') = 0" for evs
    using that breaker_closes_slowly [OF st, of "cg_health cfg" evs] by (simp add: Let_def)
qed (use failed_tick_opens [OF assms] open_breaker_not_picked in \<open>blast+\<close>)

definition sample_probe_env :: "'c probe_env" where
  "sample_probe_env = \<lparr>pb_healthy = (0, []), pb_leader = (0, []), pb_rtt = (0, []), pb_lag = (0, []),
     pb_t0 = 0, pb_t1 = 0, pb_now = 5\<rparr>"

theorem failed_tick_quarantines_witness:
  "\<exists>n'. node_tick list_libpq (\<lambda>_. False) (\<lambda>_. False) text_externs (\<lambda>_. None) sample_cluster sample_probe_env
        ((sample_node Primary False False 0 0)\<lparr>nd_pool := None\<rparr>) = Finished (None, n') \<and> nd_cb_state n' = 2"
proof -
  let ?n = "(sample_node Primary False False 0 0)\<lparr>nd_pool := None\<rparr> :: pg_result list node"
  obtain n' where "node_tick list_libpq (\<lambda>_. False) (\<lambda>_. False) text_externs (\<lambda>_. None) sample_cluster sample_probe_env ?n
      = Finished (None, n')" "\<not> ns_healthy (nd_stats n')"
    by (simp add: node_tick_def ensure_pool_def make_node_pool_def sample_node_def apply_circuit_breaker_def no_node_stats_def Let_def)
  with failed_tick_quarantines [OF this, of "sample_hint Read" "''n''"] show ?thesis by (simp add: sample_node_def)
qed

text \<open>The builder accepts exactly the configurations with distinct node names, positive weights, a primary and known
  names in \<^verbatim>\<open>primary_failover\<close>; and as long as the pool of one configured primary exists, \<^verbatim>\<open>route\<close> and \<^verbatim>\<open>route_for_tx\<close>
  return a node for every hint and transaction, never an archive or maintenance node.\<close>

theorem built_connector_routes:
  assumes "build mk cfg = Inr ct" "\<forall>ep \<in> set (cg_nodes cfg). ep_role ep = Primary \<longrightarrow> mk ep \<noteq> None"
  shows "distinct (map ep_name (cg_nodes cfg)) \<and> (\<forall>n \<in> set (cg_nodes cfg). ep_weight n \<noteq> 0)
    \<and> set (cg_primary_failover cfg) \<subseteq> ep_name ` set (cg_nodes cfg)
    \<and> (\<exists>i ct'. route mk hint ct = (Some i, ct') \<and> i < length (cg_nodes cfg) \<and> is_usable (ep_role (cg_nodes cfg ! i)))
    \<and> (\<exists>i ct'. route_for_tx mk tc ct = (Some i, ct') \<and> i < length (cg_nodes cfg) \<and> is_usable (ep_role (cg_nodes cfg ! i)))"
proof -
  have v: "validate cfg = None" and ct: "ct = new_connector mk cfg" using assms(1) by (auto simp: build_def split: option.splits)
  have at: "node_at ct i = new_node mk cfg (cg_nodes cfg ! i)" if "i < length (cg_nodes cfg)" for i
    using that by (simp add: ct new_connector_def node_at_def Let_def)
  have len: "length (ct_nodes ct) = length (cg_nodes cfg)" by (simp add: ct new_connector_def Let_def)
  from v obtain k where "k < length (cg_nodes cfg)" "ep_role (cg_nodes cfg ! k) = Primary"
    by (auto simp: validate_iff in_set_conv_nth)
  with assms(2) have hp: "has_primary_pool ct k"
    by (auto simp: has_primary_pool_def at len new_node_def make_node_pool_def)
  have wf: "ct_wf ct" unfolding ct by (rule new_connector_wf)
  from route_total [OF wf hp, of mk hint] route_for_tx_total [OF wf hp, of mk tc] v show ?thesis
    by (auto simp: validate_iff len at new_node_def)
qed

theorem built_connector_routes_witness:
  "\<exists>i ct'. route (\<lambda>_. Some 4) (sample_hint LongRead) (new_connector (\<lambda>_. Some 4) sample_cluster :: unit connector) = (Some i, ct')
     \<and> i < 3 \<and> is_usable (ep_role (cg_nodes sample_cluster ! i))"
proof -
  have "validate sample_cluster = None" by code_simp
  then have "build (\<lambda>_. Some 4) sample_cluster = Inr (new_connector (\<lambda>_. Some 4) sample_cluster :: unit connector)"
    by (simp add: build_def)
  moreover have "length (cg_nodes sample_cluster) = 3" by (simp add: sample_cluster_def)
  ultimately show ?thesis
    using built_connector_routes [where mk = "\<lambda>_. Some 4" and cfg = sample_cluster and hint = "sample_hint LongRead"
        and tc = plain_tx and ct = "new_connector (\<lambda>_. Some 4) sample_cluster :: unit connector"] by simp
qed

end
