(* ===== verification/Pg_Notify_Queue.thy ===== *)
theory Pg_Notify_Queue
  imports Upq_Prelude
begin

text \<open>
  The queue of one notification channel (\<^verbatim>\<open>ChannelQueue\<close> of \<^verbatim>\<open>PgNotificationMultiplexer\<close>): notifications with the
  handlers they go to, the handler runs in flight, and the limit on them. Sizes are natural numbers: they count
  objects in memory. The abstract view of a queue is the sequence of notifications it was given.
\<close>

section \<open>Operations\<close>

record notification =
  nt_channel :: string
  nt_payload :: string
  nt_pid :: int

record 'h delivery =
  dl_n :: notification
  dl_handlers :: "'h list"

record 'h chan_queue =
  cq_waiting :: "'h delivery list"
  cq_running :: nat
  cq_limit :: nat                     \<comment> \<open>0: no limit\<close>

definition new_queue :: "nat \<Rightarrow> 'h chan_queue" where
  "new_queue l = \<lparr>cq_waiting = [], cq_running = 0, cq_limit = l\<rparr>"

definition free_slot :: "'h chan_queue \<Rightarrow> bool" where
  "free_slot q \<longleftrightarrow> cq_limit q = 0 \<or> cq_running q < cq_limit q"

text \<open>\<^verbatim>\<open>take_ready_locked\<close>: the deliveries that may start now, and the queue without them.\<close>

fun take_ready_from :: "'h delivery list \<Rightarrow> 'h chan_queue \<Rightarrow> 'h delivery list \<times> 'h chan_queue" where
  "take_ready_from [] q = ([], q\<lparr>cq_waiting := []\<rparr>)"
| "take_ready_from (d # ds) q =
     (if free_slot q
      then (case take_ready_from ds (q\<lparr>cq_running := cq_running q + length (dl_handlers d)\<rparr>) of (ready, q') \<Rightarrow> (d # ready, q'))
      else ([], q\<lparr>cq_waiting := d # ds\<rparr>))"

definition take_ready_locked :: "'h chan_queue \<Rightarrow> 'h delivery list \<times> 'h chan_queue" where
  "take_ready_locked q = take_ready_from (cq_waiting q) q"

text \<open>The section of \<^verbatim>\<open>dispatch\<close> under the queue's lock, and the one of a finished \<^verbatim>\<open>run_handler\<close>.\<close>

definition queue_push :: "'h delivery \<Rightarrow> 'h chan_queue \<Rightarrow> 'h delivery list \<times> 'h chan_queue" where
  "queue_push d q = take_ready_locked (q\<lparr>cq_waiting := cq_waiting q @ [d]\<rparr>)"

definition queue_finish :: "'h chan_queue \<Rightarrow> 'h delivery list \<times> 'h chan_queue" where
  "queue_finish q = take_ready_locked (q\<lparr>cq_running := cq_running q - 1\<rparr>)"

section \<open>History of a queue\<close>

text \<open>
  What happened to a queue: the deliveries that arrived, those started (the runs of a delivery start together), and
  how many runs have finished. A run can finish only while one is in flight.
\<close>

record 'h history =
  hi_queue :: "'h chan_queue"
  hi_arrived :: "'h delivery list"
  hi_started :: "'h delivery list"
  hi_finished :: nat

definition runs_of :: "'h delivery list \<Rightarrow> nat" where
  "runs_of ds = sum_list (map (\<lambda>d. length (dl_handlers d)) ds)"

inductive queue_step :: "'h history \<Rightarrow> 'h history \<Rightarrow> bool" where
  arrive: "dl_handlers d \<noteq> [] \<Longrightarrow> queue_push d (hi_queue h) = (ready, q) \<Longrightarrow>
     queue_step h (h\<lparr>hi_queue := q, hi_arrived := hi_arrived h @ [d], hi_started := hi_started h @ ready\<rparr>)"
| finish: "hi_finished h < runs_of (hi_started h) \<Longrightarrow> queue_finish (hi_queue h) = (ready, q) \<Longrightarrow>
     queue_step h (h\<lparr>hi_queue := q, hi_started := hi_started h @ ready, hi_finished := hi_finished h + 1\<rparr>)"

inductive_cases queue_stepE: "queue_step h h'"

definition new_history :: "nat \<Rightarrow> 'h history" where
  "new_history l = \<lparr>hi_queue = new_queue l, hi_arrived = [], hi_started = [], hi_finished = 0\<rparr>"

text \<open>
  Nothing lost, nothing reordered; the counter is exact; a notification waits only while the limit is reached; and
  the last start at most fills the slots below the limit with the runs of one notification more.
\<close>

definition queue_inv :: "'h history \<Rightarrow> bool" where
  "queue_inv h \<longleftrightarrow>
     hi_arrived h = hi_started h @ cq_waiting (hi_queue h)
     \<and> cq_running (hi_queue h) + hi_finished h = runs_of (hi_started h)
     \<and> (cq_waiting (hi_queue h) \<noteq> [] \<longrightarrow> \<not> free_slot (hi_queue h))
     \<and> (\<forall>d \<in> set (hi_arrived h). dl_handlers d \<noteq> [])
     \<and> (\<forall>b. cq_limit (hi_queue h) \<noteq> 0 \<longrightarrow> (\<forall>d \<in> set (hi_arrived h). length (dl_handlers d) \<le> b) \<longrightarrow>
          cq_running (hi_queue h) \<le> cq_limit (hi_queue h) - 1 + b)"

lemma runs_of_simps [simp]: "runs_of [] = 0" "runs_of (d # ds) = length (dl_handlers d) + runs_of ds"
  "runs_of (ds @ es) = runs_of ds + runs_of es"
  by (simp_all add: runs_of_def)

lemma take_ready_from_spec:
  assumes "take_ready_from ds q = (ready, q')"
  shows "ds = ready @ cq_waiting q' \<and> cq_running q' = cq_running q + runs_of ready \<and> cq_limit q' = cq_limit q
     \<and> (cq_waiting q' \<noteq> [] \<longrightarrow> \<not> free_slot q')"
  using assms
proof (induction ds arbitrary: q ready)
  case (Cons d ds)
  show ?case
  proof (cases "free_slot q")
    case True
    let ?q = "q\<lparr>cq_running := cq_running q + length (dl_handlers d)\<rparr>"
    obtain r where "take_ready_from ds ?q = (r, q')" "ready = d # r"
      using Cons.prems True by (auto split: prod.splits)
    with Cons.IH [of ?q r] show ?thesis by simp
  next
    case False
    with Cons.prems show ?thesis by (auto simp: free_slot_def)
  qed
qed auto

lemma take_ready_from_bound:
  assumes "take_ready_from ds q = (ready, q')" "cq_limit q \<noteq> 0" "\<forall>d \<in> set ds. length (dl_handlers d) \<le> b"
    and "cq_running q \<le> cq_limit q - 1 + b"
  shows "cq_running q' \<le> cq_limit q - 1 + b"
  using assms
proof (induction ds arbitrary: q ready)
  case (Cons d ds)
  show ?case
  proof (cases "free_slot q")
    case True
    let ?q = "q\<lparr>cq_running := cq_running q + length (dl_handlers d)\<rparr>"
    obtain r where "take_ready_from ds ?q = (r, q')" "ready = d # r"
      using Cons.prems(1) True by (auto split: prod.splits)
    moreover have "cq_running ?q \<le> cq_limit ?q - 1 + b" using Cons.prems(2,3) True by (auto simp: free_slot_def)
    ultimately show ?thesis using Cons.IH [of ?q r] Cons.prems(2,3) by simp
  next
    case False
    with Cons.prems show ?thesis by auto
  qed
qed auto

lemma queue_step_inv:
  assumes "queue_step h h'" "queue_inv h"
  shows "queue_inv h'"
  using assms
proof (cases rule: queue_step.cases)
  case (arrive d ready q)
  note t = arrive(3) [unfolded queue_push_def take_ready_locked_def]
  have "cq_running q \<le> cq_limit q - 1 + b"
    if "cq_limit q \<noteq> 0" "\<forall>d \<in> set (hi_arrived h @ [d]). length (dl_handlers d) \<le> b" for b
  proof -
    have lim: "cq_limit (hi_queue h) = cq_limit q" using take_ready_from_spec [OF t] by simp
    have "\<forall>d \<in> set (cq_waiting (hi_queue h) @ [d]). length (dl_handlers d) \<le> b"
      using that(2) assms(2) unfolding queue_inv_def by auto
    moreover have "cq_running (hi_queue h) \<le> cq_limit (hi_queue h) - 1 + b"
      using that assms(2) lim unfolding queue_inv_def by auto
    ultimately show ?thesis using that(1) lim take_ready_from_bound [OF t, of b] by simp
  qed
  moreover have "\<forall>d \<in> set (hi_arrived h @ [d]). dl_handlers d \<noteq> []"
    using assms(2) arrive(2) by (auto simp: queue_inv_def)
  moreover have "hi_arrived h @ [d] = hi_started h @ ready @ cq_waiting q"
    "cq_running q + hi_finished h = runs_of (hi_started h @ ready)"
    using take_ready_from_spec [OF t] assms(2) by (simp_all add: queue_inv_def)
  ultimately show ?thesis using take_ready_from_spec [OF t] unfolding arrive(1) queue_inv_def by simp
next
  case (finish ready q)
  note t = finish(3) [unfolded queue_finish_def take_ready_locked_def]
  have pos: "0 < cq_running (hi_queue h)" using finish(2) assms(2) by (auto simp: queue_inv_def)
  have "cq_running q \<le> cq_limit q - 1 + b"
    if "cq_limit q \<noteq> 0" "\<forall>d \<in> set (hi_arrived h). length (dl_handlers d) \<le> b" for b
  proof -
    have lim: "cq_limit (hi_queue h) = cq_limit q" using take_ready_from_spec [OF t] by simp
    have "\<forall>d \<in> set (cq_waiting (hi_queue h)). length (dl_handlers d) \<le> b"
      using that(2) assms(2) unfolding queue_inv_def by auto
    moreover have "cq_running (hi_queue h) \<le> cq_limit (hi_queue h) - 1 + b"
      using that assms(2) lim unfolding queue_inv_def by metis
    ultimately show ?thesis using that(1) lim take_ready_from_bound [OF t, of b] by simp
  qed
  moreover have "\<forall>d \<in> set (hi_arrived h). dl_handlers d \<noteq> []"
    using assms(2) by (simp add: queue_inv_def)
  moreover have "hi_arrived h = hi_started h @ ready @ cq_waiting q"
    "cq_running q + Suc (hi_finished h) = runs_of (hi_started h @ ready)"
    using take_ready_from_spec [OF t] assms(2) pos by (simp_all add: queue_inv_def)
  ultimately show ?thesis using take_ready_from_spec [OF t] unfolding finish(1) queue_inv_def by simp
qed

interpretation channel: inv_system "\<lambda>h. \<exists>l. h = new_history l" queue_step queue_inv
proof unfold_locales
  show "queue_inv s" if "\<exists>l. s = new_history l" for s :: "'a history"
    using that by (auto simp: queue_inv_def new_history_def new_queue_def)
qed (rule queue_step_inv)


lemma queue_step_limit: "queue_step h h' \<Longrightarrow> cq_limit (hi_queue h') = cq_limit (hi_queue h)"
  by (auto elim!: queue_stepE simp: queue_push_def queue_finish_def take_ready_locked_def dest!: take_ready_from_spec)

lemma queue_steps_limit: "queue_step\<^sup>*\<^sup>* h h' \<Longrightarrow> cq_limit (hi_queue h') = cq_limit (hi_queue h)"
  by (induction rule: rtranclp_induct) (simp_all add: queue_step_limit)

text \<open>While something waits a run is in flight; when all runs finish one by one, everything that waits is started.\<close>

lemma queue_drains:
  assumes "queue_inv h"
  shows "\<exists>h'. queue_step\<^sup>*\<^sup>* h h' \<and> hi_arrived h' = hi_arrived h \<and> cq_waiting (hi_queue h') = []"
  using assms
proof (induction "runs_of (hi_arrived h) - hi_finished h" arbitrary: h rule: less_induct)
  case less
  show ?case
  proof (cases "cq_waiting (hi_queue h) = []")
    case False
    with less.prems have r: "hi_finished h < runs_of (hi_started h)" "runs_of (hi_started h) \<le> runs_of (hi_arrived h)"
      by (auto simp: queue_inv_def free_slot_def)
    obtain ready q where q: "queue_finish (hi_queue h) = (ready, q)" by fastforce
    let ?h = "h\<lparr>hi_queue := q, hi_started := hi_started h @ ready, hi_finished := hi_finished h + 1\<rparr>"
    have st: "queue_step h ?h" by (rule queue_step.finish [OF r(1) q])
    have lt: "runs_of (hi_arrived ?h) - hi_finished ?h < runs_of (hi_arrived h) - hi_finished h" using r by simp
    obtain h' where "queue_step\<^sup>*\<^sup>* ?h h'" "hi_arrived h' = hi_arrived ?h" "cq_waiting (hi_queue h') = []"
      using less.hyps [OF lt queue_step_inv [OF st less.prems]] by auto
    with st show ?thesis by (auto intro: converse_rtranclp_into_rtranclp)
  qed blast
qed

section \<open>Properties\<close>


definition sample_delivery :: "string \<Rightarrow> nat list \<Rightarrow> nat delivery" where
  "sample_delivery s hs = \<lparr>dl_n = \<lparr>nt_channel = ''ch'', nt_payload = s, nt_pid = 7\<rparr>, dl_handlers = hs\<rparr>"

definition after_arrivals :: "nat \<Rightarrow> 'h delivery list \<Rightarrow> 'h history" where
  "after_arrivals l ds = fold (\<lambda>d h. case queue_push d (hi_queue h) of (ready, q) \<Rightarrow>
     h\<lparr>hi_queue := q, hi_arrived := hi_arrived h @ [d], hi_started := hi_started h @ ready\<rparr>) ds (new_history l)"

lemma after_arrivals_steps: "\<forall>d \<in> set ds. dl_handlers d \<noteq> [] \<Longrightarrow> queue_step\<^sup>*\<^sup>* (new_history l) (after_arrivals l ds)"
proof (induction ds rule: rev_induct)
  case (snoc d ds)
  then have "queue_step\<^sup>*\<^sup>* (new_history l) (after_arrivals l ds)" by simp
  moreover have "queue_step (after_arrivals l ds) (after_arrivals l (ds @ [d]))"
    using snoc.prems by (auto simp: after_arrivals_def split: prod.splits intro: queue_step.arrive)
  ultimately show ?case by simp
qed (simp add: after_arrivals_def)


text \<open>C21: nothing waits forever: from every state of a channel, when the handler runs finish and nothing else happens,
  every notification that arrived is started.\<close>

theorem channel_drains:
  assumes "queue_step\<^sup>*\<^sup>* (new_history l) h"
  shows "\<exists>h'. queue_step\<^sup>*\<^sup>* h h' \<and> hi_arrived h' = hi_arrived h \<and> hi_started h' = hi_arrived h"
proof -
  have inv: "queue_inv h" using channel.reachable_inv assms by blast
  obtain h' where h': "queue_step\<^sup>*\<^sup>* h h'" "hi_arrived h' = hi_arrived h" "cq_waiting (hi_queue h') = []"
    using queue_drains [OF inv] by blast
  have "queue_inv h'" by (rule channel.steps_inv [OF h'(1) inv])
  with h' show ?thesis by (auto simp: queue_inv_def)
qed

theorem channel_drains_witness:
  "\<exists>h'. queue_step\<^sup>*\<^sup>* (after_arrivals 1 [sample_delivery ''a'' [1], sample_delivery ''b'' [1, 2]]) h'
     \<and> hi_started h' = [sample_delivery ''a'' [1], sample_delivery ''b'' [1, 2]]"
proof -
  let ?h = "after_arrivals 1 [sample_delivery ''a'' [1], sample_delivery ''b'' [1, 2]]"
  have "queue_step\<^sup>*\<^sup>* (new_history 1) ?h" by (rule after_arrivals_steps) (simp add: sample_delivery_def)
  from channel_drains [OF this] obtain h' where "queue_step\<^sup>*\<^sup>* ?h h'" "hi_started h' = hi_arrived ?h" by blast
  moreover have "hi_arrived ?h = [sample_delivery ''a'' [1], sample_delivery ''b'' [1, 2]]"
    by (simp add: after_arrivals_def queue_push_def take_ready_locked_def sample_delivery_def new_history_def
        new_queue_def free_slot_def)
  ultimately show ?thesis by auto
qed

text \<open>The limit does not bound the runs in flight: even with the limit 1, a single notification for a channel with
  \<open>k\<close> handlers starts all \<open>k\<close> of them at once.\<close>

theorem channel_limit_exceeded:
  assumes "0 < k"
  shows "\<exists>h :: nat history. queue_step\<^sup>*\<^sup>* (new_history 1) h \<and> cq_limit (hi_queue h) = 1 \<and> cq_running (hi_queue h) = k"
proof (intro exI conjI)
  let ?h = "after_arrivals 1 [sample_delivery ''a'' (replicate k 0)]"
  show "queue_step\<^sup>*\<^sup>* (new_history 1) ?h" using assms by (intro after_arrivals_steps) (simp add: sample_delivery_def)
  show "cq_limit (hi_queue ?h) = 1" "cq_running (hi_queue ?h) = k"
    by (simp_all add: after_arrivals_def queue_push_def take_ready_locked_def sample_delivery_def new_history_def
        new_queue_def free_slot_def)
qed

theorem channel_limit_exceeded_witness:
  "\<exists>h :: nat history. queue_step\<^sup>*\<^sup>* (new_history 1) h \<and> cq_limit (hi_queue h) = 1 \<and> cq_running (hi_queue h) = 3"
  by (rule channel_limit_exceeded) simp

end
