(* ===== verification/Pg_Notify.thy ===== *)
theory Pg_Notify
  imports Pg_Notify_Queue Pg_Transaction "HOL-Library.AList"
begin

text \<open>
  LISTEN/NOTIFY: the multiplexer (\<^verbatim>\<open>PgNotificationMultiplexer\<close>) and the single-channel listener
  (\<^verbatim>\<open>PgNotificationListener\<close>). The shared objects of the code are stores: commands and channel queues are addressed
  by their index. Each function models one section under \<^verbatim>\<open>mtx_\<close> with the calls around it; the coroutines are the
  sequences of these sections, with the environment (\<open>others\<close>) acting on the state at each await. The tables are
  association lists; the order of an \<^verbatim>\<open>unordered_map\<close> is that of the list. \<open>notifies\<close> stands for \<^verbatim>\<open>PQnotifies\<close>.
\<close>

section \<open>State\<close>

record command =
  cm_channel :: string
  cm_listen :: bool
  cm_done :: bool
  cm_ok :: bool
  cm_finished :: bool               \<comment> \<open>the event \<^verbatim>\<open>finished\<close> is set\<close>

type_synonym 'h handlers = "(u64 \<times> 'h) list"

record handler_handle =
  hh_id :: u64
  hh_channel :: string
  hh_wildcard :: bool

record ('c, 'h) mux =
  mx_conn :: "'c conn option"
  mx_capacity :: nat                \<comment> \<open>\<^verbatim>\<open>cfg_.channel_queue_capacity\<close>\<close>
  mx_next_handler_id :: u64
  mx_exact :: "(string \<times> 'h handlers) list"
  mx_wildcard :: "(string \<times> 'h handlers) list"
  mx_channels :: "(string \<times> nat) list"
  mx_queues :: "'h chan_queue list"
  mx_cmds :: "command list"
  mx_commands :: "nat list"
  mx_inflight :: "nat option"
  mx_inflight_ok :: bool
  mx_running :: bool
  mx_conn_ready :: bool
  mx_direct_busy :: int
  mx_shut_down :: bool              \<comment> \<open>the socket was shut down to wake the run loop\<close>
  mx_spawned :: "('h \<times> nat \<times> notification) list"  \<comment> \<open>handler runs started, with their queue\<close>

definition new_mux :: "'c conn option \<Rightarrow> nat \<Rightarrow> ('c, 'h) mux" where
  "new_mux conn capacity = \<lparr>mx_conn = conn, mx_capacity = capacity, mx_next_handler_id = 1, mx_exact = [], mx_wildcard = [],
     mx_channels = [], mx_queues = [], mx_cmds = [], mx_commands = [], mx_inflight = None, mx_inflight_ok = True,
     mx_running = False, mx_conn_ready = False, mx_direct_busy = 0, mx_shut_down = False, mx_spawned = []\<rparr>"

definition is_wildcard :: "string \<Rightarrow> bool" where
  "is_wildcard ch \<longleftrightarrow> 2 \<le> length ch \<and> ch ! (length ch - 1) = CHR ''*'' \<and> ch ! (length ch - 2) = CHR ''.''"

definition wildcard_matches :: "string \<Rightarrow> string \<Rightarrow> bool" where
  "wildcard_matches pattern channel \<longleftrightarrow> take (length pattern - 1) channel = take (length pattern - 1) pattern"

fun erase_handler :: "'h handlers \<Rightarrow> u64 \<Rightarrow> bool \<times> 'h handlers" where
  "erase_handler [] i = (False, [])"
| "erase_handler (h # hs) i =
     (if fst h = i then (True, hs) else case erase_handler hs i of (b, hs') \<Rightarrow> (b, h # hs'))"

definition listening :: "string \<Rightarrow> ('c, 'h) mux \<Rightarrow> bool" where
  "listening ch mx \<longleftrightarrow> map_of (mx_exact mx) ch \<noteq> None"

definition channel_state_locked :: "string \<Rightarrow> ('c, 'h) mux \<Rightarrow> nat \<times> ('c, 'h) mux" where
  "channel_state_locked ch mx =
     (case map_of (mx_channels mx) ch of
        Some q \<Rightarrow> (q, mx)
      | None \<Rightarrow> (length (mx_queues mx), mx\<lparr>mx_channels := AList.update ch (length (mx_queues mx)) (mx_channels mx),
                                     mx_queues := mx_queues mx @ [new_queue (mx_capacity mx)]\<rparr>))"

section \<open>Subscription changes\<close>

definition raw_conn :: "('c, 'h) mux \<Rightarrow> 'c option" where
  "raw_conn mx = (case mx_conn mx of None \<Rightarrow> None | Some c \<Rightarrow> cn_pq c)"

definition set_raw :: "'c \<Rightarrow> ('c, 'h) mux \<Rightarrow> ('c, 'h) mux" where
  "set_raw p mx = mx\<lparr>mx_conn := map_option (\<lambda>c. c\<lparr>cn_pq := Some p\<rparr>) (mx_conn mx)\<rparr>"

definition set_cmd :: "nat \<Rightarrow> (command \<Rightarrow> command) \<Rightarrow> ('c, 'h) mux \<Rightarrow> ('c, 'h) mux" where
  "set_cmd i f mx = mx\<lparr>mx_cmds := (mx_cmds mx)[i := f (mx_cmds mx ! i)]\<rparr>"

text \<open>\<^verbatim>\<open>PQsendQuery(raw, sql) == 0 || PQflush(raw) != 0\<close>, negated.\<close>

definition send_statement :: "'c libpq \<Rightarrow> string \<Rightarrow> 'c \<Rightarrow> bool \<times> 'c" where
  "send_statement L sql p =
     (case pq_send_query L sql p of (sent, p1) \<Rightarrow>
        if \<not> sent then (False, p1) else case pq_flush L p1 of (fr, p2) \<Rightarrow> (fr = 0, p2))"

text \<open>The loop of \<^verbatim>\<open>start_next_command_locked\<close> over the queued commands; the list returned is \<^verbatim>\<open>completed\<close>.\<close>

fun start_commands :: "'c libpq \<Rightarrow> nat list \<Rightarrow> ('c, 'h) mux \<Rightarrow> nat list \<times> ('c, 'h) mux" where
  "start_commands L [] mx = ([], mx\<lparr>mx_commands := []\<rparr>)"
| "start_commands L (i # is) mx =
     (let cmd = mx_cmds mx ! i in
      if cm_listen cmd \<noteq> listening (cm_channel cmd) mx
      then (case start_commands L is (set_cmd i (\<lambda>c. c\<lparr>cm_ok := True, cm_done := True\<rparr>) mx) of
              (completed, mx') \<Rightarrow> (i # completed, mx'))
      else case raw_conn mx of
          None \<Rightarrow> ([], mx\<lparr>mx_commands := i # is, mx_conn_ready := False\<rparr>)
        | Some p \<Rightarrow>
            (case send_statement L (listen_statement (cm_listen cmd) (cm_channel cmd)) p of (ok, p') \<Rightarrow>
               if \<not> ok
               then ([], (set_raw p' mx)\<lparr>mx_commands := i # is, mx_conn_ready := False,
                           mx_shut_down := (mx_shut_down mx \<or> pq_socket L p' \<ge> 0)\<rparr>)
               else ([], (set_raw p' mx)\<lparr>mx_commands := is, mx_inflight := Some i, mx_inflight_ok := True\<rparr>)))"

definition start_next_command_locked :: "'c libpq \<Rightarrow> ('c, 'h) mux \<Rightarrow> nat list \<times> ('c, 'h) mux" where
  "start_next_command_locked L mx =
     (if mx_inflight mx = None \<and> mx_conn_ready mx then start_commands L (mx_commands mx) mx else ([], mx))"

definition finish_commands :: "nat list \<Rightarrow> ('c, 'h) mux \<Rightarrow> ('c, 'h) mux" where
  "finish_commands completed mx = fold (\<lambda>i. set_cmd i (\<lambda>c. c\<lparr>cm_finished := True\<rparr>)) completed mx"

text \<open>\<^verbatim>\<open>start_next_command_locked(completed)\<close> and, behind the lock, \<^verbatim>\<open>finish_commands(completed)\<close>.\<close>

definition start_and_finish :: "'c libpq \<Rightarrow> ('c, 'h) mux \<Rightarrow> ('c, 'h) mux" where
  "start_and_finish L mx = (case start_next_command_locked L mx of (completed, mx') \<Rightarrow> finish_commands completed mx')"

definition push_command :: "string \<Rightarrow> bool \<Rightarrow> ('c, 'h) mux \<Rightarrow> ('c, 'h) mux" where
  "push_command ch lsn mx = mx\<lparr>mx_cmds := mx_cmds mx @ [\<lparr>cm_channel = ch, cm_listen = lsn, cm_done = False, cm_ok = False,
     cm_finished = False\<rparr>], mx_commands := mx_commands mx @ [length (mx_cmds mx)]\<rparr>"

definition queue_unlisten :: "'c libpq \<Rightarrow> string \<Rightarrow> ('c, 'h) mux \<Rightarrow> ('c, 'h) mux" where
  "queue_unlisten L ch mx =
     (let mx = push_command ch False mx in if mx_running mx then start_and_finish L mx else mx)"

definition erase_exact :: "'c libpq \<Rightarrow> string \<Rightarrow> u64 \<Rightarrow> ('c, 'h) mux \<Rightarrow> bool \<times> ('c, 'h) mux" where
  "erase_exact L ch i mx =
     (case map_of (mx_exact mx) ch of
        None \<Rightarrow> (False, mx)
      | Some hs \<Rightarrow>
          (case erase_handler hs i of (found, hs') \<Rightarrow>
             if \<not> found then (False, mx)
             else if hs' = []
             then (True, queue_unlisten L ch (mx\<lparr>mx_exact := AList.delete ch (mx_exact mx),
                                                 mx_channels := AList.delete ch (mx_channels mx)\<rparr>))
             else (True, mx\<lparr>mx_exact := AList.update ch hs' (mx_exact mx)\<rparr>)))"

text \<open>
  \<^verbatim>\<open>add_handler\<close> up to its first await: what it waits for. \<^verbatim>\<open>AddCommand\<close> is the command of a running multiplexer,
  \<^verbatim>\<open>AddDirect\<close> a LISTEN on a connection that no run loop owns yet.
\<close>

datatype add_wait = AddDone | AddCommand nat | AddDirect

definition add_begin :: "'c libpq \<Rightarrow> string \<Rightarrow> 'h \<Rightarrow> ('c, 'h) mux \<Rightarrow> handler_handle \<times> add_wait \<times> ('c, 'h) mux" where
  "add_begin L ch h mx =
     (let hid = mx_next_handler_id mx;
          mx = mx\<lparr>mx_next_handler_id := hid + 1\<rparr>;
          hh = \<lparr>hh_id = hid, hh_channel = ch, hh_wildcard = is_wildcard ch\<rparr>
      in if is_wildcard ch
         then (hh, AddDone, mx\<lparr>mx_wildcard := AList.update ch ((case map_of (mx_wildcard mx) ch of None \<Rightarrow> [] | Some hs \<Rightarrow> hs)
                                               @ [(hid, h)]) (mx_wildcard mx)\<rparr>)
         else
           let hs = (case map_of (mx_exact mx) ch of None \<Rightarrow> [] | Some hs \<Rightarrow> hs);
               first = (hs = []);
               mx = snd (channel_state_locked ch (mx\<lparr>mx_exact := AList.update ch (hs @ [(hid, h)]) (mx_exact mx)\<rparr>))
           in if first \<and> mx_running mx
              then (hh, AddCommand (length (mx_cmds mx)), start_and_finish L (push_command ch True mx))
              else if first then (hh, AddDirect, mx\<lparr>mx_direct_busy := mx_direct_busy mx + 1\<rparr>)
              else (hh, AddDone, mx))"

text \<open>The rest of it: \<open>ok\<close> is the outcome of the command or of the direct LISTEN.\<close>

definition add_end :: "'c libpq \<Rightarrow> handler_handle \<Rightarrow> bool \<Rightarrow> ('c, 'h) mux \<Rightarrow> handler_handle option \<times> ('c, 'h) mux" where
  "add_end L hh ok mx =
     (if \<not> ok then (None, snd (erase_exact L (hh_channel hh) (hh_id hh) mx)) else (Some hh, mx))"

definition add_command_done :: "'c libpq \<Rightarrow> handler_handle \<Rightarrow> nat \<Rightarrow> ('c, 'h) mux \<Rightarrow> handler_handle option \<times> ('c, 'h) mux" where
  "add_command_done L hh i mx = add_end L hh (cm_done (mx_cmds mx ! i) \<and> cm_ok (mx_cmds mx ! i)) mx"

definition add_direct_done :: "'c libpq \<Rightarrow> handler_handle \<Rightarrow> bool \<Rightarrow> ('c, 'h) mux \<Rightarrow> handler_handle option \<times> ('c, 'h) mux" where
  "add_direct_done L hh ok mx = add_end L hh ok (mx\<lparr>mx_direct_busy := mx_direct_busy mx - 1\<rparr>)"

definition listen_direct ::
  "'c libpq \<Rightarrow> string \<Rightarrow> 'c wake list \<Rightarrow> ('c, 'h) mux \<Rightarrow> (bool \<times> ('c, 'h) mux) async" where
  "listen_direct L ch ws mx =
     (case mx_conn mx of
        None \<Rightarrow> Finished (False, mx)
      | Some c \<Rightarrow>
          if \<not> connected L c then Finished (False, mx)
          else bind_async (exec_simple L (listen_statement True ch) ws c) (\<lambda>(qr, c', _).
                 Finished (qr_ok qr, mx\<lparr>mx_conn := Some c'\<rparr>)))"

definition remove_handler :: "'c libpq \<Rightarrow> handler_handle \<Rightarrow> ('c, 'h) mux \<Rightarrow> bool \<times> ('c, 'h) mux" where
  "remove_handler L hh mx =
     (if hh_wildcard hh
      then (case map_of (mx_wildcard mx) (hh_channel hh) of
          None \<Rightarrow> (False, mx)
        | Some hs \<Rightarrow>
            (case erase_handler hs (hh_id hh) of (removed, hs') \<Rightarrow>
               (removed, mx\<lparr>mx_wildcard := (if hs' = [] then AList.delete (hh_channel hh) (mx_wildcard mx)
                                            else AList.update (hh_channel hh) hs' (mx_wildcard mx))\<rparr>)))
      else erase_exact L (hh_channel hh) (hh_id hh) mx)"

definition remove_channel :: "'c libpq \<Rightarrow> string \<Rightarrow> ('c, 'h) mux \<Rightarrow> bool \<times> ('c, 'h) mux" where
  "remove_channel L ch mx =
     (if is_wildcard ch
      then (map_of (mx_wildcard mx) ch \<noteq> None, mx\<lparr>mx_wildcard := AList.delete ch (mx_wildcard mx)\<rparr>)
      else if map_of (mx_exact mx) ch = None then (False, mx)
      else (True, queue_unlisten L ch (mx\<lparr>mx_exact := AList.delete ch (mx_exact mx),
                                          mx_channels := AList.delete ch (mx_channels mx)\<rparr>)))"

section \<open>Dispatch\<close>

definition start_runs :: "nat \<Rightarrow> 'h delivery list \<Rightarrow> ('c, 'h) mux \<Rightarrow> ('c, 'h) mux" where
  "start_runs q ready mx = mx\<lparr>mx_spawned := mx_spawned mx @ concat (map (\<lambda>d. map (\<lambda>h. (h, q, dl_n d)) (dl_handlers d)) ready)\<rparr>"

definition matching_handlers :: "notification \<Rightarrow> ('c, 'h) mux \<Rightarrow> 'h list" where
  "matching_handlers n mx =
     (case map_of (mx_exact mx) (nt_channel n) of None \<Rightarrow> [] | Some hs \<Rightarrow> map snd hs)
     @ concat (map (\<lambda>(pat, hs). if wildcard_matches pat (nt_channel n) then map snd hs else []) (mx_wildcard mx))"

definition dispatch :: "notification \<Rightarrow> ('c, 'h) mux \<Rightarrow> ('c, 'h) mux" where
  "dispatch n mx =
     (let hs = matching_handlers n mx in
      if hs = [] then mx
      else case channel_state_locked (nt_channel n) mx of (q, mx) \<Rightarrow>
        (case queue_push \<lparr>dl_n = n, dl_handlers = hs\<rparr> (mx_queues mx ! q) of (ready, qu) \<Rightarrow>
           start_runs q ready (mx\<lparr>mx_queues := (mx_queues mx)[q := qu]\<rparr>)))"

text \<open>\<^verbatim>\<open>run_handler\<close> behind the handler, which may have thrown.\<close>

definition run_handler_done :: "nat \<Rightarrow> ('c, 'h) mux \<Rightarrow> ('c, 'h) mux" where
  "run_handler_done q mx =
     (case queue_finish (mx_queues mx ! q) of (ready, qu) \<Rightarrow>
        start_runs q ready (mx\<lparr>mx_queues := (mx_queues mx)[q := qu]\<rparr>))"

definition mux_waiting :: "('c, 'h) mux \<Rightarrow> nat" where
  "mux_waiting mx = sum_list (map (\<lambda>(_, q). length (cq_waiting (mx_queues mx ! q))) (mx_channels mx))"


section \<open>The run loop\<close>

text \<open>\<^verbatim>\<open>while (PGnotify *n = PQnotifies(raw))\<close>, appending to \<^verbatim>\<open>batch\<close>.\<close>

partial_function (option) collect_notifies ::
  "('c \<Rightarrow> notification option \<times> 'c) \<Rightarrow> notification list \<Rightarrow> 'c \<Rightarrow> (notification list \<times> 'c) option" where
  "collect_notifies notifies batch p =
     (case notifies p of (n, p') \<Rightarrow>
        (case n of None \<Rightarrow> Some (batch, p') | Some x \<Rightarrow> collect_notifies notifies (batch @ [x]) p'))"

text \<open>\<^verbatim>\<open>while (inflight_ && !PQisBusy(raw))\<close>: whether the statement is finished, and its \<^verbatim>\<open>inflight_ok_\<close>.\<close>

partial_function (option) inflight_results :: "'c libpq \<Rightarrow> bool \<Rightarrow> 'c \<Rightarrow> (bool \<times> bool \<times> 'c) option" where
  "inflight_results L ok p =
     (if pq_busy L p then Some (False, ok, p)
      else case pq_get_result L p of (r, p') \<Rightarrow>
        (case r of
           None \<Rightarrow> Some (True, ok, p')
         | Some res \<Rightarrow> inflight_results L (ok \<and> rs_status res = PGRES_COMMAND_OK) p'))"

text \<open>The completion of the statement in flight.\<close>

definition complete_inflight :: "bool \<Rightarrow> ('c, 'h) mux \<Rightarrow> nat list \<times> ('c, 'h) mux" where
  "complete_inflight ok mx =
     (case mx_inflight mx of
        None \<Rightarrow> ([], mx)
      | Some i \<Rightarrow> ([i], (set_cmd i (\<lambda>c. c\<lparr>cm_ok := ok, cm_done := True\<rparr>) mx)\<lparr>mx_inflight := None\<rparr>))"

text \<open>
  \<^verbatim>\<open>drain_locked\<close> up to the result of the statement in flight: the batch, whether that statement is finished, and its
  outcome. \<open>None\<close> when libpq never stops handing things out.
\<close>

definition drain_input ::
  "'c libpq \<Rightarrow> ('c \<Rightarrow> notification option \<times> 'c) \<Rightarrow> 'c \<Rightarrow> ('c, 'h) mux
    \<Rightarrow> (notification list \<times> bool \<times> bool \<times> ('c, 'h) mux) option" where
  "drain_input L notifies p mx =
     (case collect_notifies notifies [] (snd (pq_consume_input L p)) of
        None \<Rightarrow> None
      | Some (batch, p1) \<Rightarrow>
          map_option (\<lambda>(fin, ok, p2). (batch, fin, ok, (set_raw p2 mx)\<lparr>mx_inflight_ok := ok\<rparr>))
            (if mx_inflight mx = None then Some (False, mx_inflight_ok mx, p1)
             else inflight_results L (mx_inflight_ok mx) p1))"

text \<open>The rest of it: \<^verbatim>\<open>completed\<close> and the state.\<close>

definition drain_complete :: "'c libpq \<Rightarrow> bool \<Rightarrow> bool \<Rightarrow> ('c, 'h) mux \<Rightarrow> nat list \<times> ('c, 'h) mux" where
  "drain_complete L fin ok mx =
     (case (if fin then complete_inflight ok mx else ([], mx)) of (c1, mx1) \<Rightarrow>
        (case start_next_command_locked L mx1 of (c2, mx2) \<Rightarrow> (c1 @ c2, mx2)))"

definition drain_locked ::
  "'c libpq \<Rightarrow> ('c \<Rightarrow> notification option \<times> 'c) \<Rightarrow> ('c, 'h) mux \<Rightarrow> (notification list \<times> nat list \<times> ('c, 'h) mux) option" where
  "drain_locked L notifies mx =
     (case raw_conn mx of
        None \<Rightarrow> Some ([], [], mx)
      | Some p \<Rightarrow> map_option (\<lambda>(batch, fin, ok, mx1). (batch, drain_complete L fin ok mx1)) (drain_input L notifies p mx))"

definition connection_lost_locked :: "('c, 'h) mux \<Rightarrow> ('c, 'h) mux" where
  "connection_lost_locked mx =
     (case mx_inflight mx of
        None \<Rightarrow> mx\<lparr>mx_conn_ready := False\<rparr>
      | Some i \<Rightarrow> mx\<lparr>mx_conn_ready := False, mx_commands := i # mx_commands mx, mx_inflight := None\<rparr>)"

text \<open>\<^verbatim>\<open>conn_ && conn_->connected()\<close>.\<close>

definition mux_alive :: "'c libpq \<Rightarrow> ('c, 'h) mux \<Rightarrow> bool" where
  "mux_alive L mx = (case mx_conn mx of None \<Rightarrow> False | Some c \<Rightarrow> connected L c)"

text \<open>The first section of \<^verbatim>\<open>run\<close>: \<^verbatim>\<open>started\<close>.\<close>

definition run_start :: "'c libpq \<Rightarrow> ('c, 'h) mux \<Rightarrow> bool \<times> ('c, 'h) mux" where
  "run_start L mx =
     (if mx_direct_busy mx = 0
      then (True, start_and_finish L (mx\<lparr>mx_running := True, mx_conn_ready := mux_alive L mx\<rparr>))
      else (False, mx))"

text \<open>
  \<^verbatim>\<open>resubscribe_all\<close>: the names are those of the table when it starts; while each LISTEN waits, the others act on the
  state (\<open>others\<close>, one per name).
\<close>

fun resubscribe ::
  "'c libpq \<Rightarrow> (('c, 'h) mux \<Rightarrow> ('c, 'h) mux) list \<Rightarrow> string list \<Rightarrow> 'c wake list \<Rightarrow> ('c, 'h) mux \<Rightarrow> (bool \<times> ('c, 'h) mux) async" where
  "resubscribe L others [] ws mx = Finished (True, mx)"
| "resubscribe L [] (name # names) ws mx = Parked"
| "resubscribe L (act # others) (name # names) ws mx =
     (case mx_conn mx of
        None \<Rightarrow> Stuck
      | Some c \<Rightarrow>
          bind_async (exec_simple L (listen_statement True name) ws c) (\<lambda>(qr, c', ws').
            let mx' = act (mx\<lparr>mx_conn := Some c'\<rparr>) in
            if \<not> qr_ok qr then Finished (False, mx') else resubscribe L others names ws' mx'))"

definition resubscribe_all where
  "resubscribe_all L others ws mx = resubscribe L others (map fst (mx_exact mx)) ws mx"

text \<open>\<^verbatim>\<open>reconnect\<close>: one environment per round: the connect attempt, the actions of the others during it and during the
  LISTENs, the wakes, and whether the sleep behind the round ended normally (\<open>at_slept\<close>).\<close>

record ('c, 'h) reconnect_env =
  rn_attempt :: "'c attempt"
  rn_during :: "('c, 'h) mux \<Rightarrow> ('c, 'h) mux"
  rn_others :: "(('c, 'h) mux \<Rightarrow> ('c, 'h) mux) list"
  rn_wakes :: "'c wake list"

fun reconnect ::
  "'c libpq \<Rightarrow> (string + string) \<Rightarrow> ('c, 'h) reconnect_env list \<Rightarrow> ('c, 'h) mux \<Rightarrow> (bool \<times> ('c, 'h) mux) async" where
  "reconnect L conninfo [] mx = Parked"
| "reconnect L conninfo (e # es) mx =
     (let a = rn_attempt e;
          again = (\<lambda>mx. if at_slept a then reconnect L conninfo es mx else Finished (False, mx))
      in case conninfo of
           Inl _ \<Rightarrow> again mx
         | Inr ci \<Rightarrow>
             bind_async (connect_async (at_start a) (at_nonblocking a) (at_rounds a) (at_watched a) 5000 ci new_conn)
               (\<lambda>(err, fresh).
                  let mx = rn_during e mx in
                  if err \<noteq> None then again mx
                  else bind_async (resubscribe_all L (rn_others e) (rn_wakes e) (mx\<lparr>mx_conn := Some fresh\<rparr>))
                         (\<lambda>(subscribed, mx').
                            if subscribed then Finished (True, start_and_finish L (mx'\<lparr>mx_conn_ready := True\<rparr>))
                            else again mx')))"

text \<open>The body of the second loop of \<^verbatim>\<open>run\<close> behind the wait: drain, signal, dispatch the batch.\<close>

definition run_read ::
  "'c libpq \<Rightarrow> ('c \<Rightarrow> notification option \<times> 'c) \<Rightarrow> ('c, 'h) mux \<Rightarrow> ('c, 'h) mux option" where
  "run_read L notifies mx =
     (case drain_locked L notifies mx of
        None \<Rightarrow> None
      | Some (batch, completed, mx') \<Rightarrow> Some (fold dispatch batch (finish_commands completed mx')))"

record ('c, 'h) run_env =
  re_reconnect :: "('c, 'h) reconnect_env list"
  re_arrive :: "'c \<Rightarrow> 'c"             \<comment> \<open>what the wait changed in libpq's state\<close>
  re_others :: "('c, 'h) mux \<Rightarrow> ('c, 'h) mux"
  re_cancel :: bool

fun run_loop ::
  "'c libpq \<Rightarrow> ('c \<Rightarrow> notification option \<times> 'c) \<Rightarrow> (string + string) \<Rightarrow> ('c, 'h) run_env list \<Rightarrow> ('c, 'h) mux
    \<Rightarrow> ('c, 'h) mux async" where
  "run_loop L notifies conninfo [] mx = Parked"
| "run_loop L notifies conninfo (e # es) mx =
     (if \<not> mux_alive L mx
      then bind_async (reconnect L conninfo (re_reconnect e) (connection_lost_locked mx)) (\<lambda>(ok, mx').
             if \<not> ok then Finished mx' else run_loop L notifies conninfo es mx')
      else
        let mx1 = re_others e (mx\<lparr>mx_conn := map_option (\<lambda>c. c\<lparr>cn_pq := map_option (re_arrive e) (cn_pq c)\<rparr>) (mx_conn mx)\<rparr>)
        in if re_cancel e then Finished mx1
           else (case run_read L notifies mx1 of
               None \<Rightarrow> Stuck
             | Some mx2 \<Rightarrow> run_loop L notifies conninfo es mx2))"

section \<open>The single-channel listener\<close>

record 'h listener =
  ls_channel :: string
  ls_handler :: "'h option"           \<comment> \<open>\<^verbatim>\<open>handler_\<close>, if \<^verbatim>\<open>has_handler_\<close>\<close>
  ls_spawned :: "('h \<times> notification) list"

definition dispatch_async :: "notification \<Rightarrow> 'h listener \<Rightarrow> 'h listener" where
  "dispatch_async n l =
     (case ls_handler l of None \<Rightarrow> l | Some h \<Rightarrow> l\<lparr>ls_spawned := ls_spawned l @ [(h, n)]\<rparr>)"

text \<open>One environment per wake: what arrived, and whether a sleep behind it ended normally. An established connection that is
  not \<^verbatim>\<open>CONNECTION_OK\<close> is \<^verbatim>\<open>CONNECTION_BAD\<close>.\<close>

fun listener_loop ::
  "'c libpq \<Rightarrow> ('c \<Rightarrow> notification option \<times> 'c) \<Rightarrow> (('c \<Rightarrow> 'c) \<times> bool) list \<Rightarrow> 'c conn \<Rightarrow> 'h listener
    \<Rightarrow> ('c conn \<times> 'h listener) async" where
  "listener_loop L notifies [] c l = Parked"
| "listener_loop L notifies ((arrive, slept) # es) c l =
     (case map_option arrive (cn_pq c) of
        None \<Rightarrow> Finished (c, l)
      | Some p \<Rightarrow>
          (case pq_consume_input L p of (ok, p1) \<Rightarrow>
             if \<not> ok
             then (if \<not> pq_status_ok L p1 \<or> \<not> slept then Finished (c\<lparr>cn_pq := Some p1\<rparr>, l)
                   else listener_loop L notifies es (c\<lparr>cn_pq := Some p1\<rparr>) l)
             else (case collect_notifies notifies [] p1 of
                 None \<Rightarrow> Stuck
               | Some (ns, p2) \<Rightarrow>
                   listener_loop L notifies es (c\<lparr>cn_pq := Some p2\<rparr>) (fold dispatch_async ns l))))"

definition listener_run ::
  "'c libpq \<Rightarrow> ('c \<Rightarrow> notification option \<times> 'c) \<Rightarrow> 'c wake list \<Rightarrow> (('c \<Rightarrow> 'c) \<times> bool) list \<Rightarrow> 'c conn \<Rightarrow> 'h listener
    \<Rightarrow> ('c conn \<times> 'h listener) async" where
  "listener_run L notifies ws es c l =
     (if \<not> connected L c then Finished (c, l)
      else case quote_ident_strict (ls_channel l) of
          None \<Rightarrow> Finished (c, l)
        | Some q \<Rightarrow>
            bind_async (exec_simple L (''LISTEN '' @ q @ '';'') ws c) (\<lambda>(qr, c', _).
              if \<not> qr_ok qr then Finished (c', l) else listener_loop L notifies es c' l))"

end
