(* ===== verification/Pg_Notify_Subs.thy ===== *)
theory Pg_Notify_Subs
  imports Pg_Notify
begin

text \<open>
  The subscriptions of the notification multiplexer: an abstract view of its state (channels wanted, statements queued
  and in flight), the sessions of the server as ghost state, an interleaving semantics of the sections under the lock,
  and the invariant that what is on its way always covers the difference between the channels wanted and those the
  server has confirmed. The run loop of \<^theory_text>\<open>Pg_Notify\<close> is shown to be a sequence of these steps.
\<close>

section \<open>The view of the subscriptions\<close>

record subs =
  sb_wanted :: "string set"                    \<comment> \<open>channels with a handler\<close>
  sb_running :: bool
  sb_ready :: bool
  sb_direct :: int
  sb_pending :: "(string \<times> bool) list"         \<comment> \<open>queued statements: channel and whether it is a LISTEN\<close>
  sb_flight :: "(string \<times> bool) option"

definition key :: "command list \<Rightarrow> nat \<Rightarrow> string \<times> bool" where
  "key cs i = (cm_channel (cs ! i), cm_listen (cs ! i))"

definition view :: "('c, 'h) mux \<Rightarrow> subs" where
  "view mx = \<lparr>sb_wanted = {ch. listening ch mx}, sb_running = mx_running mx, sb_ready = mx_conn_ready mx,
     sb_direct = mx_direct_busy mx, sb_pending = map (key (mx_cmds mx)) (mx_commands mx),
     sb_flight = map_option (key (mx_cmds mx)) (mx_inflight mx)\<rparr>"

definition ids_ok :: "('c, 'h) mux \<Rightarrow> bool" where
  "ids_ok mx \<longleftrightarrow> (\<forall>i \<in> set (mx_commands mx) \<union> set_option (mx_inflight mx). i < length (mx_cmds mx))"

lemma key_set_cmd:
  assumes "\<And>c. cm_channel (f c) = cm_channel c" "\<And>c. cm_listen (f c) = cm_listen c"
  shows "key (cs[i := f (cs ! i)]) = key cs"
proof
  fix j
  show "key (cs[i := f (cs ! i)]) j = key cs j"
  proof (cases "i < length cs \<and> j = i")
    case True then show ?thesis by (simp add: key_def assms)
  next
    case False
    then have "cs[i := f (cs ! i)] ! j = cs ! j" by (cases "i < length cs") (simp_all add: list_update_beyond)
    then show ?thesis by (simp add: key_def)
  qed
qed

lemma set_cmd_view:
  assumes "\<And>c. cm_channel (f c) = cm_channel c" "\<And>c. cm_listen (f c) = cm_listen c"
  shows "view (set_cmd i f mx) = view mx" "ids_ok (set_cmd i f mx) = ids_ok mx"
  using key_set_cmd [of f, OF assms] by (simp_all add: view_def set_cmd_def listening_def ids_ok_def)

lemma finish_commands_view [simp]:
  "view (finish_commands cs mx) = view mx" "ids_ok (finish_commands cs mx) = ids_ok mx"
  unfolding finish_commands_def by (induction cs arbitrary: mx) (simp_all add: set_cmd_view)

lemma push_command_view:
  assumes "ids_ok mx"
  shows "view (push_command ch l mx) = (view mx)\<lparr>sb_pending := sb_pending (view mx) @ [(ch, l)]\<rparr>"
    "ids_ok (push_command ch l mx)"
  using assms
  by (auto simp: view_def push_command_def listening_def ids_ok_def key_def nth_append less_Suc_eq intro!: option.map_cong0)

text \<open>
  Starting commands: superseded ones are dropped, then at most one is sent; the connection is no longer ready when that
  fails, and otherwise nothing stays queued without a statement in flight.
\<close>

definition starts :: "subs \<Rightarrow> subs \<Rightarrow> bool" where
  "starts v v' \<longleftrightarrow>
     (\<exists>dropped pend fl rdy. v' = v\<lparr>sb_pending := pend, sb_flight := fl, sb_ready := rdy\<rparr>
        \<and> sb_pending v = dropped @ (case fl of None \<Rightarrow> [] | Some k \<Rightarrow> [k]) @ pend
        \<and> (\<forall>(ch, l) \<in> set dropped. l \<noteq> (ch \<in> sb_wanted v)) \<and> (\<forall>(ch, l) \<in> set_option fl. l = (ch \<in> sb_wanted v))
        \<and> (rdy \<longrightarrow> fl = None \<longrightarrow> pend = []))"

lemma set_raw_view [simp]: "view (set_raw p mx) = view mx" "ids_ok (set_raw p mx) = ids_ok mx"
  "mx_cmds (set_raw p mx) = mx_cmds mx" "mx_inflight (set_raw p mx) = mx_inflight mx"
  by (simp_all add: view_def set_raw_def listening_def ids_ok_def)

lemma view_updates [simp]:
  "view (mx\<lparr>mx_conn := c\<rparr>) = view mx" "view (mx\<lparr>mx_shut_down := b\<rparr>) = view mx" "view (mx\<lparr>mx_inflight_ok := b\<rparr>) = view mx"
  "view (mx\<lparr>mx_queues := q\<rparr>) = view mx" "view (mx\<lparr>mx_spawned := sp\<rparr>) = view mx" "view (mx\<lparr>mx_channels := cs\<rparr>) = view mx"
  "view (mx\<lparr>mx_wildcard := w\<rparr>) = view mx" "view (mx\<lparr>mx_next_handler_id := u\<rparr>) = view mx"
  "view (mx\<lparr>mx_conn_ready := b\<rparr>) = (view mx)\<lparr>sb_ready := b\<rparr>"
  "view (mx\<lparr>mx_running := b\<rparr>) = (view mx)\<lparr>sb_running := b\<rparr>"
  "view (mx\<lparr>mx_direct_busy := n\<rparr>) = (view mx)\<lparr>sb_direct := n\<rparr>"
  "view (mx\<lparr>mx_commands := is\<rparr>) = (view mx)\<lparr>sb_pending := map (key (mx_cmds mx)) is\<rparr>"
  "view (mx\<lparr>mx_inflight := fl\<rparr>) = (view mx)\<lparr>sb_flight := map_option (key (mx_cmds mx)) fl\<rparr>"
  "view (mx\<lparr>mx_exact := ex\<rparr>) = (view mx)\<lparr>sb_wanted := {ch. map_of ex ch \<noteq> None}\<rparr>"
  by (simp_all add: view_def listening_def)

lemma ids_ok_updates [simp]:
  "ids_ok (mx\<lparr>mx_conn := c\<rparr>) = ids_ok mx" "ids_ok (mx\<lparr>mx_shut_down := b\<rparr>) = ids_ok mx"
  "ids_ok (mx\<lparr>mx_inflight_ok := b\<rparr>) = ids_ok mx" "ids_ok (mx\<lparr>mx_queues := q\<rparr>) = ids_ok mx"
  "ids_ok (mx\<lparr>mx_spawned := sp\<rparr>) = ids_ok mx" "ids_ok (mx\<lparr>mx_channels := cs\<rparr>) = ids_ok mx"
  "ids_ok (mx\<lparr>mx_wildcard := w\<rparr>) = ids_ok mx" "ids_ok (mx\<lparr>mx_next_handler_id := u\<rparr>) = ids_ok mx"
  "ids_ok (mx\<lparr>mx_conn_ready := b\<rparr>) = ids_ok mx" "ids_ok (mx\<lparr>mx_running := b\<rparr>) = ids_ok mx"
  "ids_ok (mx\<lparr>mx_direct_busy := n\<rparr>) = ids_ok mx" "ids_ok (mx\<lparr>mx_exact := ex\<rparr>) = ids_ok mx"
  by (simp_all add: ids_ok_def)

lemma view_select [simp]:
  "sb_wanted (view mx) = {ch. listening ch mx}" "sb_running (view mx) = mx_running mx" "sb_ready (view mx) = mx_conn_ready mx"
  "sb_direct (view mx) = mx_direct_busy mx" "sb_pending (view mx) = map (key (mx_cmds mx)) (mx_commands mx)"
  "sb_flight (view mx) = map_option (key (mx_cmds mx)) (mx_inflight mx)"
  by (simp_all add: view_def)

lemma view_own: "(view mx)\<lparr>sb_pending := map (key (mx_cmds mx)) (mx_commands mx)\<rparr> = view mx"
  by (simp add: view_def)

lemma starts_drop:
  assumes "starts (v\<lparr>sb_pending := ks\<rparr>) v'" "l \<noteq> (ch \<in> sb_wanted v)"
  shows "starts (v\<lparr>sb_pending := (ch, l) # ks\<rparr>) v'"
proof -
  obtain dropped pend fl rdy where v': "v' = v\<lparr>sb_pending := pend, sb_flight := fl, sb_ready := rdy\<rparr>"
    and d: "ks = dropped @ (case fl of None \<Rightarrow> [] | Some k \<Rightarrow> [k]) @ pend"
    "\<forall>(ch, l) \<in> set dropped. l \<noteq> (ch \<in> sb_wanted v)" "\<forall>(ch, l) \<in> set_option fl. l = (ch \<in> sb_wanted v)"
    "rdy \<longrightarrow> fl = None \<longrightarrow> pend = []"
    using assms(1) unfolding starts_def by auto
  show ?thesis unfolding starts_def
    by (rule exI [of _ "(ch, l) # dropped"], rule exI [of _ pend], rule exI [of _ fl], rule exI [of _ rdy])
       (use d assms(2) v' in simp)
qed

lemma starts_idle: "sb_pending v = [] \<Longrightarrow> sb_flight v = None \<Longrightarrow> starts v v"
  unfolding starts_def
  by (rule exI [of _ "[]"], rule exI [of _ "[]"], rule exI [of _ None], rule exI [of _ "sb_ready v"]) auto

lemma starts_stop: "sb_flight v = None \<Longrightarrow> starts v (v\<lparr>sb_ready := False\<rparr>)"
  unfolding starts_def by (rule exI [of _ "[]"], rule exI [of _ "sb_pending v"], rule exI [of _ None], rule exI [of _ False]) auto

lemma starts_send:
  "snd k = (fst k \<in> sb_wanted v) \<Longrightarrow> starts (v\<lparr>sb_pending := k # ks\<rparr>) (v\<lparr>sb_pending := ks, sb_flight := Some k\<rparr>)"
  unfolding starts_def
  by (rule exI [of _ "[]"], rule exI [of _ ks], rule exI [of _ "Some k"], rule exI [of _ "sb_ready v"]) auto

text \<open>Without a connection or when the statement cannot be sent, the command stays at the head of the queue.\<close>

lemma start_commands_unsent:
  assumes "start_commands L (i # is) mx = (cs, mx')" "cm_listen (mx_cmds mx ! i) = listening (cm_channel (mx_cmds mx ! i)) mx"
    and "\<nexists>p p'. raw_conn mx = Some p
      \<and> send_statement L (listen_statement (cm_listen (mx_cmds mx ! i)) (cm_channel (mx_cmds mx ! i))) p = (True, p')"
  shows "\<exists>mx0 b. mx' = mx0\<lparr>mx_commands := i # is, mx_conn_ready := False, mx_shut_down := b\<rparr>
    \<and> view mx0 = view mx \<and> mx_cmds mx0 = mx_cmds mx \<and> mx_inflight mx0 = mx_inflight mx"
proof (cases "raw_conn mx")
  case None
  with assms(1,2) have "mx' = mx\<lparr>mx_commands := i # is, mx_conn_ready := False\<rparr>" by (simp add: Let_def)
  then show ?thesis by (intro exI [of _ mx] exI [of _ "mx_shut_down mx"]) simp
next
  case (Some p)
  obtain b p' where "send_statement L (listen_statement (cm_listen (mx_cmds mx ! i)) (cm_channel (mx_cmds mx ! i))) p = (b, p')"
    by fastforce
  with Some assms have "mx' = (set_raw p' mx)\<lparr>mx_commands := i # is, mx_conn_ready := False,
      mx_shut_down := (mx_shut_down mx \<or> pq_socket L p' \<ge> 0)\<rparr>" by (auto simp: Let_def)
  then show ?thesis by (intro exI [of _ "set_raw p' mx"] exI [of _ "mx_shut_down mx \<or> pq_socket L p' \<ge> 0"]) simp
qed

lemma start_commands_view:
  assumes "start_commands L is mx = (cs, mx')" "mx_inflight mx = None" "\<forall>i \<in> set is. i < length (mx_cmds mx)"
  shows "starts ((view mx)\<lparr>sb_pending := map (key (mx_cmds mx)) is\<rparr>) (view mx') \<and> ids_ok mx'"
  using assms
proof (induction "is" arbitrary: mx cs)
  case Nil
  then show ?case by (auto simp: ids_ok_def starts_idle)
next
  case (Cons i "is")
  let ?cmd = "mx_cmds mx ! i"
  have k: "key (mx_cmds mx) i = (cm_channel ?cmd, cm_listen ?cmd)" by (simp add: key_def)
  show ?case
  proof (cases "cm_listen ?cmd = listening (cm_channel ?cmd) mx")
    case False
    let ?mx = "set_cmd i (\<lambda>c. c\<lparr>cm_ok := True, cm_done := True\<rparr>) mx"
    have c: "key (mx_cmds ?mx) = key (mx_cmds mx)" "length (mx_cmds ?mx) = length (mx_cmds mx)" "mx_inflight ?mx = mx_inflight mx"
      using key_set_cmd [of "\<lambda>c. c\<lparr>cm_ok := True, cm_done := True\<rparr>" "mx_cmds mx" i] by (simp_all add: set_cmd_def)
    obtain cs' where "start_commands L is ?mx = (cs', mx')"
      using Cons.prems(1) False by (auto simp: Let_def split: prod.splits)
    from Cons.IH [OF this] Cons.prems(2,3) c
    have "starts ((view mx)\<lparr>sb_pending := map (key (mx_cmds mx)) is\<rparr>) (view mx') \<and> ids_ok mx'"
      by (simp add: set_cmd_view)
    with False show ?thesis by (simp add: k starts_drop)
  next
    case True
    show ?thesis
    proof (cases "\<exists>p p'. raw_conn mx = Some p \<and> send_statement L (listen_statement (cm_listen ?cmd) (cm_channel ?cmd)) p = (True, p')")
      case sent: True
      then obtain p' where "mx' = (set_raw p' mx)\<lparr>mx_commands := is, mx_inflight := Some i, mx_inflight_ok := True\<rparr>"
        using Cons.prems(1) True by (auto simp: Let_def)
      then show ?thesis using Cons.prems(3) True by (auto simp: k ids_ok_def starts_send)
    next
      case unsent: False
      from start_commands_unsent [OF Cons.prems(1) True this]
      obtain mx0 b where mx': "mx' = mx0\<lparr>mx_commands := i # is, mx_conn_ready := False, mx_shut_down := b\<rparr>"
        and mx0: "view mx0 = view mx" "mx_cmds mx0 = mx_cmds mx" "mx_inflight mx0 = mx_inflight mx" by blast
      have "ids_ok mx'" using Cons.prems(2,3) mx0 by (auto simp: mx' ids_ok_def)
      moreover have "view mx' = (view mx)\<lparr>sb_pending := map (key (mx_cmds mx)) (i # is), sb_ready := False\<rparr>"
        by (simp add: mx' mx0)
      ultimately show ?thesis using Cons.prems(2) by (simp add: starts_stop)
    qed
  qed
qed

lemma start_view:
  assumes "ids_ok mx"
  shows "ids_ok (start_and_finish L mx)"
    "if sb_flight (view mx) = None \<and> sb_ready (view mx) then starts (view mx) (view (start_and_finish L mx))
     else view (start_and_finish L mx) = view mx"
proof -
  obtain cs mx' where s: "start_next_command_locked L mx = (cs, mx')" by fastforce
  have sf: "start_and_finish L mx = finish_commands cs mx'" by (simp add: start_and_finish_def s)
  have "if sb_flight (view mx) = None \<and> sb_ready (view mx) then starts (view mx) (view mx') \<and> ids_ok mx' else mx' = mx"
    using s assms start_commands_view [of L "mx_commands mx" mx cs mx', unfolded view_own] unfolding start_next_command_locked_def
    by (auto simp: ids_ok_def)
  with assms show "ids_ok (start_and_finish L mx)"
    "if sb_flight (view mx) = None \<and> sb_ready (view mx) then starts (view mx) (view (start_and_finish L mx))
     else view (start_and_finish L mx) = view mx"
    by (simp_all add: sf split: if_splits)
qed


section \<open>The sessions of the server\<close>

text \<open>
  What the server has confirmed: the channels of the session the run loop is connected to, none while it reconnects, and
  the channels being subscribed again on a fresh session.
\<close>

datatype session = Session "string set" | Lost | Resub "string list"

definition answered :: "(string \<times> bool) option \<Rightarrow> string set \<Rightarrow> string set" where
  "answered fl S = (case fl of None \<Rightarrow> S | Some (ch, True) \<Rightarrow> insert ch S | Some (ch, False) \<Rightarrow> S - {ch})"

text \<open>
  One section of the multiplexer under its lock, with the session and the channels of direct LISTENs (before \<^verbatim>\<open>run()\<close>)
  still unanswered. Every answer of the server confirms its statement; sends and connections may fail at any time.
\<close>

inductive sub_step ::
  "'c libpq \<Rightarrow> ('c, 'h) mux \<times> session \<times> string list \<Rightarrow> ('c, 'h) mux \<times> session \<times> string list \<Rightarrow> bool" for L where
  add: "add_begin L ch h mx = (hh, w, mx') \<Longrightarrow> sub_step L (mx, ses, D) (mx', ses, if w = AddDirect then ch # D else D)"
| direct: "hh_channel hh \<in> set D \<Longrightarrow> add_direct_done L hh True mx = (r, mx')
    \<Longrightarrow> sub_step L (mx, Session S, D) (mx', Session (insert (hh_channel hh) S), remove1 (hh_channel hh) D)"
| remove: "remove_handler L hh mx = (b, mx') \<Longrightarrow> sub_step L (mx, ses, D) (mx', ses, D)"
| remove_chan: "remove_channel L ch mx = (b, mx') \<Longrightarrow> sub_step L (mx, ses, D) (mx', ses, D)"
| start: "\<not> mx_running mx \<Longrightarrow> run_start L mx = (True, mx') \<Longrightarrow> sub_step L (mx, ses, D) (mx', ses, D)"
| drain: "mx_running mx \<Longrightarrow> raw_conn mx = Some p \<Longrightarrow> drain_input L notifies p mx = Some (batch, fin, ok, mx1)
    \<Longrightarrow> ok \<Longrightarrow> drain_complete L fin ok mx1 = (cs, mx2)
    \<Longrightarrow> sub_step L (mx, Session S, D) (finish_commands cs mx2, Session (if fin then answered (sb_flight (view mx)) S else S), D)"
| dispatched: "sub_step L (mx, ses, D) (dispatch n mx, ses, D)"
| handler_done: "sub_step L (mx, ses, D) (run_handler_done q mx, ses, D)"
| lost: "mx_running mx \<Longrightarrow> sub_step L (mx, Session S, D) (connection_lost_locked mx, Lost, D)"
| fresh: "sub_step L (mx, Lost, D) (mx\<lparr>mx_conn := c\<rparr>, Resub (map fst (mx_exact mx)), D)"
| refused: "sub_step L (mx, Resub N, D) (mx, Lost, D)"
| resubscribed: "sub_step L (mx, Resub N, D) (start_and_finish L (mx\<lparr>mx_conn_ready := True\<rparr>), Session (set N), D)"
| network: "sub_step L (mx, ses, D) (mx\<lparr>mx_conn := c\<rparr>, ses, D)"

text \<open>
  What is queued, in flight or being sent directly covers the difference between the channels wanted and those confirmed.
\<close>

definition covers :: "string set \<Rightarrow> string list \<Rightarrow> subs \<Rightarrow> bool" where
  "covers S D v \<longleftrightarrow>
     (\<forall>ch \<in> sb_wanted v. ch \<in> set D \<or> (ch, True) \<in> set (sb_pending v) \<or> sb_flight v = Some (ch, True)
        \<or> ch \<in> S \<and> sb_flight v \<noteq> Some (ch, False))
     \<and> (\<forall>ch. ch \<notin> sb_wanted v \<longrightarrow> (ch, False) \<in> set (sb_pending v) \<or> sb_flight v = Some (ch, False)
        \<or> ch \<notin> S \<and> sb_flight v \<noteq> Some (ch, True) \<and> ch \<notin> set D)"

definition session_ok :: "session \<Rightarrow> string list \<Rightarrow> subs \<Rightarrow> bool" where
  "session_ok ses D v \<longleftrightarrow>
     int (length D) = sb_direct v \<and> (sb_running v \<longrightarrow> D = [])
     \<and> (\<not> sb_running v \<longrightarrow> sb_flight v = None \<and> \<not> sb_ready v \<and> (\<exists>S. ses = Session S))
     \<and> (case ses of
          Session S \<Rightarrow> covers S D v
        | Lost \<Rightarrow> sb_flight v = None \<and> \<not> sb_ready v
        | Resub N \<Rightarrow> sb_flight v = None \<and> \<not> sb_ready v \<and> covers (set N) D v)"

definition not_idle :: "subs \<Rightarrow> bool" where
  "not_idle v \<longleftrightarrow> (sb_ready v \<longrightarrow> sb_flight v = None \<longrightarrow> sb_pending v = [])"

definition sub_inv :: "('c, 'h) mux \<times> session \<times> string list \<Rightarrow> bool" where
  "sub_inv st \<longleftrightarrow> (case st of (mx, ses, D) \<Rightarrow> ids_ok mx \<and> session_ok ses D (view mx) \<and> not_idle (view mx))"

lemma covers_starts:
  assumes "starts v v'" "sb_flight v = None" "covers S D v"
  shows "covers S D v'"
proof -
  obtain dropped pend fl rdy where v': "v' = v\<lparr>sb_pending := pend, sb_flight := fl, sb_ready := rdy\<rparr>"
    and d: "sb_pending v = dropped @ (case fl of None \<Rightarrow> [] | Some k \<Rightarrow> [k]) @ pend"
    "\<forall>(ch, l) \<in> set dropped. l \<noteq> (ch \<in> sb_wanted v)" "\<forall>(ch, l) \<in> set_option fl. l = (ch \<in> sb_wanted v)"
    using assms(1) unfolding starts_def by auto
  show ?thesis
  proof (cases fl)
    case None
    then show ?thesis using assms(2,3) d unfolding covers_def v' by fastforce
  next
    case (Some k)
    then show ?thesis using assms(2,3) d unfolding covers_def v' by (cases k) fastforce
  qed
qed

lemma start_keeps:
  assumes "ids_ok mx" "session_ok ses D (view mx)"
  shows "ids_ok (start_and_finish L mx) \<and> session_ok ses D (view (start_and_finish L mx)) \<and> not_idle (view (start_and_finish L mx))"
proof (cases "sb_flight (view mx) = None \<and> sb_ready (view mx)")
  case True
  with start_view(2) [OF assms(1), of L] have st: "starts (view mx) (view (start_and_finish L mx))" by simp
  obtain S where S: "ses = Session S" "covers S D (view mx)" "sb_running (view mx)"
    using True assms(2) by (auto simp: session_ok_def split: session.splits)
  from st obtain pend fl rdy where v': "view (start_and_finish L mx) = (view mx)\<lparr>sb_pending := pend, sb_flight := fl, sb_ready := rdy\<rparr>"
    and n: "rdy \<longrightarrow> fl = None \<longrightarrow> pend = []"
    unfolding starts_def by auto
  have "covers S D (view (start_and_finish L mx))" using covers_starts [OF st _ S(2)] True by simp
  with S assms(2) n start_view(1) [OF assms(1)] show ?thesis
    unfolding v' by (auto simp: session_ok_def not_idle_def)
next
  case False
  with start_view [OF assms(1), of L] assms(2) show ?thesis by (auto simp: not_idle_def)
qed

lemma session_ok_change:
  assumes "session_ok ses D v" "\<And>S. covers S D v \<Longrightarrow> covers S D' v'" "sb_flight v' = sb_flight v" "sb_ready v' = sb_ready v"
    and "sb_running v' = sb_running v" "int (length D') = sb_direct v'" "sb_running v \<Longrightarrow> D' = []"
  shows "session_ok ses D' v'"
  using assms unfolding session_ok_def by (auto split: session.splits)

lemma session_ok_not_idle: "session_ok ses D v \<Longrightarrow> \<not> sb_running v \<Longrightarrow> not_idle v"
  by (simp add: session_ok_def not_idle_def)

lemma session_ok_add:
  "session_ok ses D v \<Longrightarrow>
   session_ok ses D (v\<lparr>sb_wanted := insert ch (sb_wanted v), sb_pending := sb_pending v @ [(ch, True)]\<rparr>)"
  by (rule session_ok_change) (auto simp: session_ok_def covers_def)

lemma session_ok_remove:
  "session_ok ses D v \<Longrightarrow> session_ok ses D (v\<lparr>sb_wanted := sb_wanted v - {ch}, sb_pending := sb_pending v @ [(ch, False)]\<rparr>)"
  by (rule session_ok_change) (auto simp: session_ok_def covers_def)

lemma session_ok_add_direct:
  "session_ok ses D v \<Longrightarrow> \<not> sb_running v \<Longrightarrow>
   session_ok ses (ch # D) (v\<lparr>sb_wanted := insert ch (sb_wanted v), sb_direct := sb_direct v + 1\<rparr>)"
  by (rule session_ok_change) (auto simp: session_ok_def covers_def)

lemma covers_direct: "covers S D v \<Longrightarrow> ch \<in> set D \<Longrightarrow> sb_flight v = None \<Longrightarrow> covers (insert ch S) (remove1 ch D) (v\<lparr>sb_direct := n\<rparr>)"
  unfolding covers_def by (auto dest: notin_set_remove1) (metis in_set_remove1)

lemma covers_answered: "covers S [] v \<Longrightarrow> covers (answered (sb_flight v) S) [] (v\<lparr>sb_flight := None\<rparr>)"
  unfolding covers_def answered_def by (auto split: option.splits bool.splits)

lemma channel_state_view [simp]:
  "view (snd (channel_state_locked ch mx)) = view mx" "ids_ok (snd (channel_state_locked ch mx)) = ids_ok mx"
  "mx_running (snd (channel_state_locked ch mx)) = mx_running mx"
  "mx_direct_busy (snd (channel_state_locked ch mx)) = mx_direct_busy mx"
  by (simp_all add: channel_state_locked_def split: option.split)

lemma insert_wanted: "{c. map_of (AList.update ch hs (mx_exact mx)) c \<noteq> None} = insert ch {c. listening c mx}"
  by (auto simp: AList.update_conv' listening_def)

lemma add_keeps:
  assumes "add_begin L ch h mx = (hh, w, mx')" "sub_inv (mx, ses, D)"
  shows "sub_inv (mx', ses, if w = AddDirect then ch # D else D)"
proof -
  let ?hs = "case map_of (mx_exact mx) ch of None \<Rightarrow> [] | Some hs \<Rightarrow> hs"
  let ?mx1 = "snd (channel_state_locked ch (mx\<lparr>mx_next_handler_id := mx_next_handler_id mx + 1,
     mx_exact := AList.update ch (?hs @ [(mx_next_handler_id mx, h)]) (mx_exact mx)\<rparr>))"
  have inv: "ids_ok mx" "session_ok ses D (view mx)" "not_idle (view mx)" using assms(2) by (auto simp: sub_inv_def)
  have ids: "ids_ok ?mx1" using inv(1) by simp
  have v1: "view ?mx1 = (view mx)\<lparr>sb_wanted := insert ch (sb_wanted (view mx))\<rparr>"
    using insert_wanted [of ch "?hs @ [(mx_next_handler_id mx, h)]" mx] by simp
  consider (wild) "is_wildcard ch" | (cmd) "\<not> is_wildcard ch" "?hs = []" "mx_running mx"
    | (direct) "\<not> is_wildcard ch" "?hs = []" "\<not> mx_running mx" | (known) "\<not> is_wildcard ch" "?hs \<noteq> []" by blast
  then show ?thesis
  proof cases
    case wild
    with assms(1) have "w \<noteq> AddDirect" "view mx' = view mx" "ids_ok mx' = ids_ok mx" by (auto simp: add_begin_def Let_def)
    with inv show ?thesis by (simp add: sub_inv_def)
  next
    case cmd
    with assms(1) have "mx' = start_and_finish L (push_command ch True ?mx1)" "w \<noteq> AddDirect"
      by (auto simp: add_begin_def Let_def)
    moreover have "session_ok ses D (view (push_command ch True ?mx1))"
      unfolding push_command_view(1) [OF ids] v1 using session_ok_add [OF inv(2), of ch] by simp
    ultimately show ?thesis using start_keeps [OF push_command_view(2) [OF ids]] by (simp add: sub_inv_def)
  next
    case direct
    with assms(1) have "mx' = ?mx1\<lparr>mx_direct_busy := mx_direct_busy mx + 1\<rparr>" "w = AddDirect"
      by (auto simp: add_begin_def Let_def)
    moreover have "session_ok ses (ch # D) (view (?mx1\<lparr>mx_direct_busy := mx_direct_busy mx + 1\<rparr>))"
      unfolding view_updates v1 using session_ok_add_direct [OF inv(2), of ch] direct(3) by simp
    moreover have "\<not> sb_running (view (?mx1\<lparr>mx_direct_busy := mx_direct_busy mx + 1\<rparr>))"
      unfolding view_updates v1 using direct(3) by simp
    ultimately show ?thesis using ids session_ok_not_idle by (auto simp: sub_inv_def)
  next
    case known
    then have "listening ch mx" by (auto simp: listening_def split: option.splits)
    then have "view ?mx1 = view mx" unfolding v1 by (simp add: view_def insert_absorb)
    moreover from known assms(1) have "mx' = ?mx1" "w \<noteq> AddDirect" by (auto simp: add_begin_def Let_def)
    ultimately show ?thesis using inv ids by (simp add: sub_inv_def)
  qed
qed

lemma drop_channel_keeps:
  assumes "sub_inv (mx, ses, D)"
  shows "sub_inv (queue_unlisten L ch (mx\<lparr>mx_exact := AList.delete ch (mx_exact mx), mx_channels := AList.delete ch (mx_channels mx)\<rparr>), ses, D)"
proof -
  let ?mx1 = "mx\<lparr>mx_exact := AList.delete ch (mx_exact mx), mx_channels := AList.delete ch (mx_channels mx)\<rparr>"
  have inv: "ids_ok mx" "session_ok ses D (view mx)" "not_idle (view mx)" using assms by (auto simp: sub_inv_def)
  have ids: "ids_ok ?mx1" using inv(1) by simp
  have "{c. map_of (AList.delete ch (mx_exact mx)) c \<noteq> None} = sb_wanted (view mx) - {ch}"
    by (auto simp: AList.delete_conv' listening_def)
  then have v1: "view ?mx1 = (view mx)\<lparr>sb_wanted := sb_wanted (view mx) - {ch}\<rparr>" by simp
  have ok: "session_ok ses D (view (push_command ch False ?mx1))"
    unfolding push_command_view(1) [OF ids] v1 using session_ok_remove [OF inv(2), of ch] by simp
  show ?thesis
  proof (cases "mx_running (push_command ch False ?mx1)")
    case True
    then show ?thesis
      using start_keeps [OF push_command_view(2) [OF ids] ok] by (simp add: queue_unlisten_def sub_inv_def Let_def)
  next
    case False
    then have "\<not> sb_ready (view (push_command ch False ?mx1))" using ok by (simp add: session_ok_def)
    with False show ?thesis
      using push_command_view(2) [OF ids] ok by (simp add: queue_unlisten_def sub_inv_def Let_def not_idle_def)
  qed
qed

lemma erase_exact_keeps:
  assumes "sub_inv (mx, ses, D)"
  shows "sub_inv (snd (erase_exact L ch i mx), ses, D)"
proof (cases "map_of (mx_exact mx) ch")
  case (Some hs)
  then have "{c. map_of (AList.update ch hs' (mx_exact mx)) c \<noteq> None} = {c. listening c mx}" for hs'
    by (auto simp: AList.update_conv' listening_def split: if_splits)
  then have "view (mx\<lparr>mx_exact := AList.update ch hs' (mx_exact mx)\<rparr>) = view mx" for hs' by (simp add: view_def listening_def)
  with Some assms drop_channel_keeps [OF assms, of L ch] show ?thesis
    by (auto simp: erase_exact_def sub_inv_def split: prod.split)
qed (use assms in \<open>simp add: erase_exact_def\<close>)

lemma remove_keeps:
  assumes "sub_inv (mx, ses, D)"
  shows "sub_inv (snd (remove_handler L hh mx), ses, D)" "sub_inv (snd (remove_channel L ch mx), ses, D)"
  using assms erase_exact_keeps [OF assms] drop_channel_keeps [OF assms]
  by (auto simp: remove_handler_def remove_channel_def sub_inv_def split: option.split prod.split)

lemma dispatch_view [simp]:
  "view (dispatch n mx) = view mx" "ids_ok (dispatch n mx) = ids_ok mx"
  "view (run_handler_done q mx) = view mx" "ids_ok (run_handler_done q mx) = ids_ok mx"
proof -
  obtain q' mx1 where c: "channel_state_locked (nt_channel n) mx = (q', mx1)" by fastforce
  have "view mx1 = view mx" "ids_ok mx1 = ids_ok mx"
    using channel_state_view(1,2) [of "nt_channel n" mx] by (simp_all add: c)
  then show "view (dispatch n mx) = view mx" "ids_ok (dispatch n mx) = ids_ok mx"
    by (simp_all add: dispatch_def Let_def c start_runs_def split: prod.split)
qed (simp_all add: run_handler_done_def start_runs_def split: prod.split)

lemma direct_keeps:
  assumes "sub_inv (mx, Session S, D)" "ch \<in> set D"
  shows "sub_inv (mx\<lparr>mx_direct_busy := mx_direct_busy mx - 1\<rparr>, Session (insert ch S), remove1 ch D)"
proof -
  have ok: "session_ok (Session S) D (view mx)" "\<not> sb_running (view mx)" using assms by (auto simp: sub_inv_def session_ok_def)
  then have "covers (insert ch S) (remove1 ch D) ((view mx)\<lparr>sb_direct := mx_direct_busy mx - 1\<rparr>)"
    by (intro covers_direct [OF _ assms(2)]) (auto simp: session_ok_def)
  moreover have "int (length (remove1 ch D)) = mx_direct_busy mx - 1"
    using ok length_pos_if_in_set [OF assms(2)] assms(2) by (cases "length D") (auto simp: session_ok_def length_remove1)
  ultimately show ?thesis using assms(1) ok by (auto simp: sub_inv_def session_ok_def not_idle_def)
qed

lemma run_start_keeps:
  assumes "sub_inv (mx, ses, D)" "\<not> mx_running mx" "run_start L mx = (True, mx')"
  shows "sub_inv (mx', ses, D)"
proof -
  let ?mx1 = "mx\<lparr>mx_running := True, mx_conn_ready := mux_alive L mx\<rparr>"
  have mx': "mx' = start_and_finish L ?mx1" "mx_direct_busy mx = 0" using assms(3) by (auto simp: run_start_def split: if_splits)
  have "session_ok ses D (view ?mx1)"
    using assms(1,2) mx'(2) by (auto simp: sub_inv_def session_ok_def covers_def)
  with start_keeps [of ?mx1 ses D L] assms(1) show ?thesis by (simp add: sub_inv_def mx'(1))
qed

lemma drain_keeps:
  assumes "sub_inv (mx, Session S, D)" "mx_running mx" "raw_conn mx = Some p"
    and "drain_input L notifies p mx = Some (batch, fin, ok, mx1)" ok "drain_complete L fin ok mx1 = (cs, mx2)"
  shows "sub_inv (finish_commands cs mx2, Session (if fin then answered (sb_flight (view mx)) S else S), D)"
proof -
  let ?S = "if fin then answered (sb_flight (view mx)) S else S"
  define mx3 where "mx3 = (if fin then snd (complete_inflight ok mx1) else mx1)"
  have end_view: "view (finish_commands cs mx2) = view (start_and_finish L mx3)"
    "ids_ok (finish_commands cs mx2) = ids_ok (start_and_finish L mx3)"
    using assms(6) by (auto simp: drain_complete_def start_and_finish_def mx3_def split: prod.splits if_splits)
  have v1: "view mx1 = view mx" "ids_ok mx1 = ids_ok mx" "mx_cmds mx1 = mx_cmds mx" "mx_inflight mx1 = mx_inflight mx"
    using assms(4) by (auto simp: drain_input_def split: option.splits)
  have f: "fin \<Longrightarrow> mx_inflight mx \<noteq> None" using assms(4) by (auto simp: drain_input_def split: option.splits if_splits)
  have inv: "ids_ok mx" "session_ok (Session S) D (view mx)" "D = []" using assms(1,2) by (auto simp: sub_inv_def session_ok_def)
  have "ids_ok mx3 \<and> session_ok (Session ?S) D (view mx3)"
  proof (cases fin)
    case True
    with f obtain i where i: "mx_inflight mx = Some i" by auto
    have "view mx3 = (view mx)\<lparr>sb_flight := None\<rparr>" "ids_ok mx3"
      using True i v1 inv(1) by (auto simp: mx3_def complete_inflight_def set_cmd_view) (auto simp: ids_ok_def set_cmd_def)
    then show ?thesis using True inv(2,3) covers_answered [of S "view mx"] assms(2) by (auto simp: session_ok_def)
  next
    case False
    then show ?thesis using inv v1 by (simp add: mx3_def)
  qed
  then show ?thesis unfolding sub_inv_def prod.case end_view using start_keeps [of mx3 "Session ?S" D L] by blast
qed

lemma lost_keeps:
  assumes "sub_inv (mx, Session S, D)" "mx_running mx"
  shows "sub_inv (connection_lost_locked mx, Lost, D)"
  using assms by (auto simp: sub_inv_def session_ok_def not_idle_def connection_lost_locked_def ids_ok_def split: option.splits)

lemma resub_keeps:
  assumes "sub_inv (mx, Lost, D)"
  shows "sub_inv (mx\<lparr>mx_conn := c\<rparr>, Resub (map fst (mx_exact mx)), D)"
  using assms by (auto simp: sub_inv_def session_ok_def covers_def listening_def map_of_eq_None_iff dest: map_of_SomeD weak_map_of_SomeI)

lemma resubscribed_keeps:
  assumes "sub_inv (mx, Resub N, D)"
  shows "sub_inv (start_and_finish L (mx\<lparr>mx_conn_ready := True\<rparr>), Session (set N), D)"
proof -
  let ?mx1 = "mx\<lparr>mx_conn_ready := True\<rparr>"
  have "session_ok (Session (set N)) D (view ?mx1)" using assms by (auto simp: sub_inv_def session_ok_def covers_def)
  with start_keeps [of ?mx1 "Session (set N)" D L] assms show ?thesis by (simp add: sub_inv_def)
qed

lemma sub_step_inv: "sub_step L st st' \<Longrightarrow> sub_inv st \<Longrightarrow> sub_inv st'"
proof (induction rule: sub_step.induct)
  case (add ch h mx hh w mx' ses D)
  then show ?case by (rule add_keeps)
next
  case (direct hh D mx r mx' S)
  then show ?case using direct_keeps [of mx S D "hh_channel hh"] by (auto simp: add_direct_done_def add_end_def)
next
  case (remove hh mx b mx' ses D)
  then show ?case using remove_keeps(1) [of mx ses D L hh] by simp
next
  case (remove_chan ch mx b mx' ses D)
  then show ?case using remove_keeps(2) [of mx ses D L ch] by simp
next
  case (start mx mx' ses D)
  then show ?case by (blast intro: run_start_keeps)
next
  case (drain mx p notifies batch fin ok mx1 cs mx2 S D)
  then show ?case by (blast intro: drain_keeps)
next
  case (refused mx N D)
  then show ?case by (auto simp: sub_inv_def session_ok_def)
next
  case (lost mx S D)
  then show ?case by (blast intro: lost_keeps)
next
  case (fresh mx D c)
  then show ?case by (blast intro: resub_keeps)
next
  case (resubscribed mx N D)
  then show ?case by (blast intro: resubscribed_keeps)
qed (simp_all add: sub_inv_def)

lemma new_mux_inv: "sub_inv (new_mux conn cap, Session {}, [])"
  by (simp add: sub_inv_def session_ok_def covers_def not_idle_def new_mux_def ids_ok_def listening_def)

interpretation subscriptions: inv_system "\<lambda>st. \<exists>conn cap. st = (new_mux conn cap, Session {}, [])" "sub_step L" sub_inv for L
  by unfold_locales (auto simp: new_mux_inv intro: sub_step_inv)

lemma subscribed_exactly:
  assumes "sub_inv (mx, ses, D)" "mx_conn_ready mx" "mx_inflight mx = None"
  shows "ses = Session {ch. listening ch mx} \<and> mx_commands mx = []"
proof -
  from assms obtain S where S: "ses = Session S" "covers S [] (view mx)" "mx_commands mx = []"
    by (auto simp: sub_inv_def session_ok_def not_idle_def split: session.splits)
  with assms(3) show ?thesis by (auto simp: covers_def)
qed


section \<open>The run loop takes steps\<close>

text \<open>
  The other tasks act by steps of their own while the run loop waits, and the server confirms every statement.
\<close>

definition acts :: "'c libpq \<Rightarrow> (('c, 'h) mux \<Rightarrow> ('c, 'h) mux) \<Rightarrow> bool" where
  "acts L f \<longleftrightarrow> (\<forall>mx ses. mx_running mx \<longrightarrow> (sub_step L)\<^sup>*\<^sup>* (mx, ses, []) (f mx, ses, []))"

definition confirms :: "'c libpq \<Rightarrow> bool" where
  "confirms L \<longleftrightarrow> (\<forall>p r p'. pq_get_result L p = (Some r, p') \<longrightarrow> rs_status r = PGRES_COMMAND_OK)"

lemma set_cmd_frame [simp]: "mx_running (set_cmd i f mx) = mx_running mx" "mx_inflight_ok (set_cmd i f mx) = mx_inflight_ok mx"
  by (simp_all add: set_cmd_def)

lemma finish_commands_frame [simp]:
  "mx_running (finish_commands cs mx) = mx_running mx" "mx_inflight_ok (finish_commands cs mx) = mx_inflight_ok mx"
  unfolding finish_commands_def by (induction cs arbitrary: mx) simp_all

lemma set_raw_frame [simp]: "mx_running (set_raw p mx) = mx_running mx" "mx_inflight_ok (set_raw p mx) = mx_inflight_ok mx"
  by (simp_all add: set_raw_def)

lemma start_commands_frame:
  "mx_running (snd (start_commands L is mx)) = mx_running mx"
  "mx_inflight_ok mx \<Longrightarrow> mx_inflight_ok (snd (start_commands L is mx))"
  by (induction "is" arbitrary: mx) (simp_all add: Let_def case_prod_beta split: option.split)

lemma start_next_frame [simp]:
  "mx_running (snd (start_next_command_locked L mx)) = mx_running mx"
  "mx_inflight_ok mx \<Longrightarrow> mx_inflight_ok (snd (start_next_command_locked L mx))"
  by (simp_all add: start_next_command_locked_def start_commands_frame)

lemma start_frame [simp]:
  "mx_running (start_and_finish L mx) = mx_running mx" "mx_inflight_ok mx \<Longrightarrow> mx_inflight_ok (start_and_finish L mx)"
  by (simp_all add: start_and_finish_def case_prod_beta)

lemma push_frame [simp]:
  "mx_running (push_command ch l mx) = mx_running mx" "mx_inflight_ok (push_command ch l mx) = mx_inflight_ok mx"
  by (simp_all add: push_command_def)

lemma queue_unlisten_frame [simp]:
  "mx_running (queue_unlisten L ch mx) = mx_running mx" "mx_inflight_ok mx \<Longrightarrow> mx_inflight_ok (queue_unlisten L ch mx)"
  by (simp_all add: queue_unlisten_def Let_def)

lemma erase_exact_frame [simp]:
  "mx_running (snd (erase_exact L ch i mx)) = mx_running mx"
  "mx_inflight_ok mx \<Longrightarrow> mx_inflight_ok (snd (erase_exact L ch i mx))"
  by (simp_all add: erase_exact_def case_prod_beta split: option.split)

lemma channel_state_frame [simp]: "mx_inflight_ok (snd (channel_state_locked ch mx)) = mx_inflight_ok mx"
  by (simp add: channel_state_locked_def split: option.split)

lemma add_frame:
  "mx_running (snd (snd (add_begin L ch h mx))) = mx_running mx"
  "mx_inflight_ok mx \<Longrightarrow> mx_inflight_ok (snd (snd (add_begin L ch h mx)))"
  by (simp_all add: add_begin_def Let_def)

lemma remove_frame:
  "mx_running (snd (remove_handler L hh mx)) = mx_running mx" "mx_running (snd (remove_channel L ch mx)) = mx_running mx"
  "mx_inflight_ok mx \<Longrightarrow> mx_inflight_ok (snd (remove_handler L hh mx))"
  "mx_inflight_ok mx \<Longrightarrow> mx_inflight_ok (snd (remove_channel L ch mx))"
  by (simp_all add: remove_handler_def remove_channel_def case_prod_beta split: option.split)

lemma dispatch_frame:
  "mx_running (dispatch n mx) = mx_running mx" "mx_inflight_ok (dispatch n mx) = mx_inflight_ok mx"
  "mx_running (run_handler_done q mx) = mx_running mx" "mx_inflight_ok (run_handler_done q mx) = mx_inflight_ok mx"
  by (simp_all add: dispatch_def run_handler_done_def start_runs_def Let_def case_prod_beta)

lemma drain_complete_frame:
  "mx_running (snd (drain_complete L fin ok mx)) = mx_running mx"
  "mx_inflight_ok mx \<Longrightarrow> mx_inflight_ok (snd (drain_complete L fin ok mx))"
  by (simp_all add: drain_complete_def complete_inflight_def case_prod_beta split: option.split)

lemma drain_input_frame:
  "drain_input L notifies p mx = Some (batch, fin, ok, mx1) \<Longrightarrow> mx_running mx1 = mx_running mx \<and> mx_inflight_ok mx1 = ok"
  by (auto simp: drain_input_def split: option.splits)

lemma sub_step_keeps:
  "sub_step L st st' \<Longrightarrow>
   (mx_running (fst st) \<longrightarrow> mx_running (fst st')) \<and> (mx_inflight_ok (fst st) \<longrightarrow> mx_inflight_ok (fst st'))"
proof (induction rule: sub_step.induct)
  case (add ch h mx hh w mx' ses D)
  then show ?case using add_frame [where L = L and ch = ch and h = h and mx = mx] by simp
next
  case (remove hh mx b mx' ses D)
  then show ?case using remove_frame(1,3) [where L = L and hh = hh and mx = mx] by simp
next
  case (remove_chan ch mx b mx' ses D)
  then show ?case using remove_frame(2,4) [where L = L and ch = ch and mx = mx] by simp
next
  case (drain mx p notifies batch fin ok mx1 cs mx2 S D)
  then show ?case
    using drain_complete_frame [where L = L and fin = fin and ok = ok and mx = mx1] drain_input_frame [OF drain(3)] by simp
qed (auto simp: add_direct_done_def add_end_def run_start_def dispatch_frame connection_lost_locked_def split: if_splits option.splits)

lemma sub_steps_keep:
  "(sub_step L)\<^sup>*\<^sup>* st st' \<Longrightarrow>
   (mx_running (fst st) \<longrightarrow> mx_running (fst st')) \<and> (mx_inflight_ok (fst st) \<longrightarrow> mx_inflight_ok (fst st'))"
  by (induction rule: rtranclp_induct) (auto dest: sub_step_keeps)

definition on_duty :: "('c, 'h) mux \<Rightarrow> bool" where
  "on_duty mx \<longleftrightarrow> mx_running mx \<and> mx_inflight_ok mx"

text \<open>Paths of a running multiplexer whose statement in flight has no rejected answer.\<close>

definition leads_to :: "'c libpq \<Rightarrow> ('c, 'h) mux \<Rightarrow> session \<Rightarrow> ('c, 'h) mux \<Rightarrow> session \<Rightarrow> bool" where
  "leads_to L mx ses mx' ses' \<longleftrightarrow> on_duty mx \<and> (sub_step L)\<^sup>*\<^sup>* (mx, ses, []) (mx', ses', [])"

lemma leads_to_trans [trans]: "leads_to L a s b t \<Longrightarrow> leads_to L b t c u \<Longrightarrow> leads_to L a s c u"
  by (auto simp: leads_to_def)

lemma leads_to_on_duty: "leads_to L a s b t \<Longrightarrow> mx_running b \<and> mx_inflight_ok b"
  by (auto simp: leads_to_def on_duty_def dest!: sub_steps_keep)

lemma leads_to_step: "leads_to L a s b t \<Longrightarrow> sub_step L (b, t, []) (c, u, []) \<Longrightarrow> leads_to L a s c u"
  by (auto simp: leads_to_def)

lemma leads_to_acts: "leads_to L a s b t \<Longrightarrow> acts L f \<Longrightarrow> leads_to L a s (f b) t"
  using leads_to_on_duty [of L a s b t] by (auto simp: leads_to_def acts_def intro: rtranclp_trans)

lemma resubscribe_leads:
  assumes "resubscribe L others names ws mx = Finished (b, mx')" "leads_to L mx0 s0 mx ses" "\<forall>f \<in> set others. acts L f"
  shows "leads_to L mx0 s0 mx' ses"
  using assms
proof (induction names arbitrary: others ws mx)
  case (Cons name names)
  obtain act os where o: "others = act # os" using Cons.prems(1) by (cases others) auto
  obtain c where c: "mx_conn mx = Some c" using Cons.prems(1) by (auto simp: o split: option.splits)
  obtain qr c' ws' where q: "exec_simple L (listen_statement True name) ws c = Finished (qr, c', ws')"
    using Cons.prems(1) by (auto simp: o c bind_eq_Finished)
  have "leads_to L mx0 s0 (act (mx\<lparr>mx_conn := Some c'\<rparr>)) ses"
    using leads_to_acts [OF leads_to_step [OF Cons.prems(2) sub_step.network [where c = "Some c'"]]] Cons.prems(3)
    by (simp add: o)
  with Cons.IH [of os ws' "act (mx\<lparr>mx_conn := Some c'\<rparr>)"] Cons.prems(1,3) show ?case
    by (auto simp: o c q Let_def split: if_splits)
qed simp

definition reconnect_acts :: "'c libpq \<Rightarrow> ('c, 'h) reconnect_env \<Rightarrow> bool" where
  "reconnect_acts L e \<longleftrightarrow> acts L (rn_during e) \<and> (\<forall>f \<in> set (rn_others e). acts L f)"

lemma reconnect_leads:
  assumes "reconnect L ci es mx = Finished (b, mx')" "leads_to L mx0 s0 mx Lost" "\<forall>e \<in> set es. reconnect_acts L e"
  shows "\<exists>ses. leads_to L mx0 s0 mx' ses \<and> (b \<longrightarrow> (\<exists>S. ses = Session S))"
  using assms
proof (induction es arbitrary: mx)
  case (Cons e es)
  have again: ?case if "(if at_slept (rn_attempt e) then reconnect L ci es mx1 else Finished (False, mx1)) = Finished (b, mx')"
    "leads_to L mx0 s0 mx1 Lost" for mx1
    using that Cons.IH [of mx1] Cons.prems(3) by (auto split: if_splits)
  show ?case
  proof (cases ci)
    case (Inl x)
    show ?thesis by (rule again [OF _ Cons.prems(2)]) (use Cons.prems(1) Inl in \<open>simp add: Let_def split: if_splits\<close>)
  next
    case (Inr c)
    let ?a = "rn_attempt e"
    obtain err fresh where f: "connect_async (at_start ?a) (at_nonblocking ?a) (at_rounds ?a) (at_watched ?a) 5000 c new_conn
        = Finished (err, fresh)"
      using Cons.prems(1) by (auto simp: Inr Let_def bind_eq_Finished)
    have d: "leads_to L mx0 s0 (rn_during e mx) Lost"
      using leads_to_acts [OF Cons.prems(2)] Cons.prems(3) by (simp add: reconnect_acts_def)
    show ?thesis
    proof (cases "err = None")
      case False
      then show ?thesis by (intro again [OF _ d]) (use Cons.prems(1) in \<open>simp add: Inr f Let_def split: if_splits\<close>)
    next
      case True
      let ?mx1 = "(rn_during e mx)\<lparr>mx_conn := Some fresh\<rparr>" let ?N = "map fst (mx_exact (rn_during e mx))"
      obtain sub mx2 where r: "resubscribe_all L (rn_others e) (rn_wakes e) ?mx1 = Finished (sub, mx2)"
        using Cons.prems(1) True by (auto simp: Inr f Let_def bind_eq_Finished)
      have "leads_to L mx0 s0 ?mx1 (Resub ?N)" by (rule leads_to_step [OF d sub_step.fresh])
      then have 2: "leads_to L mx0 s0 mx2 (Resub ?N)"
        using resubscribe_leads [OF r [unfolded resubscribe_all_def]] Cons.prems(3) by (simp add: reconnect_acts_def)
      show ?thesis
      proof (cases sub)
        case True
        then show ?thesis using Cons.prems(1) \<open>err = None\<close> leads_to_step [OF 2 sub_step.resubscribed]
          by (auto simp: Inr f r Let_def)
      next
        case False
        then show ?thesis
          by (intro again [OF _ leads_to_step [OF 2 sub_step.refused]])
             (use Cons.prems(1) \<open>err = None\<close> in \<open>simp add: Inr f r Let_def split: if_splits\<close>)
      qed
    qed
  qed
qed simp

lemma inflight_results_ok:
  "inflight_results L ok p = Some r \<Longrightarrow> confirms L \<longrightarrow> ok \<longrightarrow> fst (snd r)"
proof (erule inflight_results.raw_induct [rotated])
  fix rec L ok p r
  assume IH: "\<And>L ok p r. rec L ok p = Some r \<Longrightarrow> confirms L \<longrightarrow> ok \<longrightarrow> fst (snd r)"
    and eq: "(if pq_busy L p then Some (False, ok, p)
      else case pq_get_result L p of (x, p') \<Rightarrow>
        (case x of None \<Rightarrow> Some (True, ok, p')
         | Some res \<Rightarrow> rec L (ok \<and> rs_status res = PGRES_COMMAND_OK) p')) = Some r"
  show "confirms L \<longrightarrow> ok \<longrightarrow> fst (snd r)"
  proof (intro impI)
    assume c: "confirms L" ok
    obtain x p' where x: "pq_get_result L p = (x, p')" by fastforce
    show "fst (snd r)"
    proof (cases "pq_busy L p \<or> x = None")
      case True
      then show ?thesis using eq x c(2) by (auto split: if_splits)
    next
      case False
      then obtain res where "x = Some res" by auto
      with x c(1) have "rs_status res = PGRES_COMMAND_OK" by (auto simp: confirms_def)
      with \<open>x = Some res\<close> False eq x c(2) have "rec L True p' = Some r" by simp
      then show ?thesis using IH c(1) by blast
    qed
  qed
qed

lemma drain_input_ok:
  assumes "confirms L" "drain_input L notifies p mx = Some (batch, fin, ok, mx1)" "mx_inflight_ok mx"
  shows ok
  using assms inflight_results_ok [of L True]
  by (fastforce simp: drain_input_def split: option.splits if_splits)

lemma dispatch_leads: "leads_to L mx0 s0 mx ses \<Longrightarrow> leads_to L mx0 s0 (fold dispatch batch mx) ses"
  by (induction batch arbitrary: mx) (auto intro: leads_to_step sub_step.dispatched)

lemma run_read_leads:
  assumes "run_read L notifies mx = Some mx'" "leads_to L mx0 s0 mx (Session S)" "confirms L"
  shows "\<exists>S'. leads_to L mx0 s0 mx' (Session S')"
proof (cases "raw_conn mx")
  case None
  then show ?thesis using assms(1,2) by (auto simp: run_read_def drain_locked_def finish_commands_def)
next
  case (Some p)
  with assms(1) obtain batch fin ok mx1 where d: "drain_input L notifies p mx = Some (batch, fin, ok, mx1)"
    and mx': "mx' = fold dispatch batch (finish_commands (fst (drain_complete L fin ok mx1)) (snd (drain_complete L fin ok mx1)))"
    by (auto simp: run_read_def drain_locked_def split: option.splits prod.splits)
  have on: "mx_running mx" "mx_inflight_ok mx" using leads_to_on_duty [OF assms(2)] by auto
  have ok by (rule drain_input_ok [OF assms(3) d on(2)])
  with sub_step.drain [OF on(1) Some d _ surjective_pairing] show ?thesis
    unfolding mx' by (blast intro: dispatch_leads leads_to_step [OF assms(2)])
qed

definition run_acts :: "'c libpq \<Rightarrow> ('c, 'h) run_env \<Rightarrow> bool" where
  "run_acts L e \<longleftrightarrow> acts L (re_others e) \<and> (\<forall>r \<in> set (re_reconnect e). reconnect_acts L r)"

lemma run_loop_leads:
  assumes "run_loop L notifies ci es mx = Finished mx'" "leads_to L mx0 s0 mx (Session S)" "confirms L" "\<forall>e \<in> set es. run_acts L e"
  shows "\<exists>ses. leads_to L mx0 s0 mx' ses"
  using assms
proof (induction es arbitrary: mx S)
  case (Cons e es)
  show ?case
  proof (cases "mux_alive L mx")
    case False
    obtain ok mx1 where r: "reconnect L ci (re_reconnect e) (connection_lost_locked mx) = Finished (ok, mx1)"
      using Cons.prems(1) False by (auto simp: bind_eq_Finished)
    have "leads_to L mx0 s0 (connection_lost_locked mx) Lost"
      using leads_to_step [OF Cons.prems(2) sub_step.lost] leads_to_on_duty [OF Cons.prems(2)] by blast
    from reconnect_leads [OF r this] Cons.prems(4)
    obtain ses where s: "leads_to L mx0 s0 mx1 ses" "ok \<longrightarrow> (\<exists>S. ses = Session S)" by (auto simp: run_acts_def)
    show ?thesis
    proof (cases ok)
      case True
      with s obtain S' where "leads_to L mx0 s0 mx1 (Session S')" by auto
      with Cons.IH [of mx1 S'] Cons.prems False r True show ?thesis by simp
    next
      case False
      then show ?thesis using s Cons.prems(1) r \<open>\<not> mux_alive L mx\<close> by auto
    qed
  next
    case True
    let ?mx1 = "re_others e (mx\<lparr>mx_conn := map_option (\<lambda>c. c\<lparr>cn_pq := map_option (re_arrive e) (cn_pq c)\<rparr>) (mx_conn mx)\<rparr>)"
    have 1: "leads_to L mx0 s0 ?mx1 (Session S)"
      using leads_to_acts [OF leads_to_step [OF Cons.prems(2) sub_step.network]] Cons.prems(4) by (simp add: run_acts_def)
    show ?thesis
    proof (cases "re_cancel e")
      case True
      then show ?thesis using 1 Cons.prems(1) \<open>mux_alive L mx\<close> by (auto simp: Let_def)
    next
      case False
      obtain mx2 where r: "run_read L notifies ?mx1 = Some mx2" "run_loop L notifies ci es mx2 = Finished mx'"
        using Cons.prems(1) True False by (auto simp: Let_def split: option.splits)
      from run_read_leads [OF r(1) 1 assms(3)] obtain S' where "leads_to L mx0 s0 mx2 (Session S')" by blast
      with Cons.IH [OF r(2)] Cons.prems(3,4) show ?thesis by simp
    qed
  qed
qed simp

section \<open>Properties\<close>


definition sample_handle :: handler_handle where
  "sample_handle = \<lparr>hh_id = 1, hh_channel = ''jobs'', hh_wildcard = False\<rparr>"

definition sample_added :: "(pg_result list, nat) mux" where
  "sample_added = snd (snd (add_begin list_libpq ''jobs'' 7 (new_mux (Some (open_conn [])) 4)))"

definition sample_mux :: "(pg_result list, nat) mux" where
  "sample_mux = snd (run_start list_libpq (snd (add_direct_done list_libpq sample_handle True sample_added)))"

lemmas sample_mux_defs = sample_mux_def sample_added_def sample_handle_def add_begin_def add_direct_done_def add_end_def
  new_mux_def is_wildcard_def channel_state_locked_def run_start_def mux_alive_def start_and_finish_def
  start_next_command_locked_def finish_commands_def connected_def open_conn_def new_conn_def list_libpq_def Let_def


text \<open>The first handler of a channel on an idle, subscribed connection, a second one, and the rejection of the LISTEN.\<close>

lemma first_add_sent:
  assumes "mx_running mx" "mx_conn_ready mx" "mx_inflight mx = None" "mx_commands mx = []" "\<not> is_wildcard ch"
    and "map_of (mx_exact mx) ch = None" "raw_conn mx = Some p" "send_statement L (listen_statement True ch) p = (True, p')"
  shows "\<exists>mx1. add_begin L ch h mx
      = (\<lparr>hh_id = mx_next_handler_id mx, hh_channel = ch, hh_wildcard = False\<rparr>, AddCommand (length (mx_cmds mx)), mx1)
    \<and> map_of (mx_exact mx1) ch = Some [(mx_next_handler_id mx, h)] \<and> mx_commands mx1 = []
    \<and> mx_inflight mx1 = Some (length (mx_cmds mx)) \<and> length (mx_cmds mx) < length (mx_cmds mx1)
    \<and> mx_next_handler_id mx1 = mx_next_handler_id mx + 1"
proof -
  define mx0 where "mx0 = snd (channel_state_locked ch (mx\<lparr>mx_next_handler_id := mx_next_handler_id mx + 1,
    mx_exact := AList.update ch [(mx_next_handler_id mx, h)] (mx_exact mx)\<rparr>))"
  have mx0: "mx_cmds mx0 = mx_cmds mx" "mx_commands mx0 = []" "mx_inflight mx0 = None" "mx_running mx0" "mx_conn_ready mx0"
    "raw_conn mx0 = Some p" "mx_next_handler_id mx0 = mx_next_handler_id mx + 1"
    "map_of (mx_exact mx0) ch = Some [(mx_next_handler_id mx, h)]"
    using assms by (auto simp: mx0_def channel_state_locked_def raw_conn_def AList.update_conv' split: option.splits)
  have "add_begin L ch h mx = (\<lparr>hh_id = mx_next_handler_id mx, hh_channel = ch, hh_wildcard = False\<rparr>,
      AddCommand (length (mx_cmds mx)), start_and_finish L (push_command ch True mx0))"
    using assms(1,5,6) mx0 by (simp add: add_begin_def Let_def mx0_def [symmetric])
  then show ?thesis
    using mx0 assms(8)
    by (simp add: start_and_finish_def start_next_command_locked_def push_command_def listening_def raw_conn_def
        set_raw_def finish_commands_def Let_def)
qed

lemma second_add_done:
  assumes "\<not> is_wildcard ch" "map_of (mx_exact mx) ch = Some (x # xs)"
  shows "\<exists>hh mx1. add_begin L ch h mx = (hh, AddDone, mx1)
    \<and> map_of (mx_exact mx1) ch = Some (x # xs @ [(hh_id hh, h)]) \<and> mx_commands mx1 = mx_commands mx
    \<and> mx_inflight mx1 = mx_inflight mx \<and> mx_cmds mx1 = mx_cmds mx"
  using assms by (auto simp: add_begin_def Let_def channel_state_locked_def AList.update_conv' split: option.split)

lemma rejected_listen:
  assumes "mx_inflight mx = Some i" "mx_commands mx = []" "i < length (mx_cmds mx)" "hh_id hh = a" "hh_channel hh = ch"
    and "map_of (mx_exact mx) ch = Some ((a, h) # x # xs)"
  shows "\<exists>cs mx3 mx4. drain_complete L True False mx = (cs, mx3) \<and> add_command_done L hh i (finish_commands cs mx3) = (None, mx4)
    \<and> map_of (mx_exact mx4) ch = Some (x # xs) \<and> mx_commands mx4 = [] \<and> mx_inflight mx4 = None"
  using assms
  by (simp add: drain_complete_def complete_inflight_def start_next_command_locked_def set_cmd_def finish_commands_def
      add_command_done_def add_end_def erase_exact_def AList.update_conv')

text \<open>C39: a handler can stay registered without a subscription: while the LISTEN of the first handler of a channel is
  in flight, \<^verbatim>\<open>add_handler\<close> for a second one returns its handle at once; when the server then rejects the LISTEN, only the
  first caller is told, the second handler stays in the table, and nothing is queued or in flight for its channel.\<close>

theorem late_handler_unsubscribed:
  assumes "mx_running mx" "mx_conn_ready mx" "mx_inflight mx = None" "mx_commands mx = []" "\<not> is_wildcard ch"
    and "map_of (mx_exact mx) ch = None" "raw_conn mx = Some p" "send_statement L (listen_statement True ch) p = (True, p')"
  shows "\<exists>hh1 i mx1 hh2 mx2 cs mx3 mx4. add_begin L ch h1 mx = (hh1, AddCommand i, mx1)
    \<and> add_begin L ch h2 mx1 = (hh2, AddDone, mx2)
    \<and> drain_complete L True False mx2 = (cs, mx3)
    \<and> add_command_done L hh1 i (finish_commands cs mx3) = (None, mx4)
    \<and> map_of (mx_exact mx4) ch = Some [(hh_id hh2, h2)] \<and> mx_commands mx4 = [] \<and> mx_inflight mx4 = None"
proof -
  let ?i = "length (mx_cmds mx)"
  obtain mx1 hh1 where 1: "add_begin L ch h1 mx = (hh1, AddCommand ?i, mx1)" "hh_id hh1 = mx_next_handler_id mx"
    "hh_channel hh1 = ch" "map_of (mx_exact mx1) ch = Some [(mx_next_handler_id mx, h1)]" "mx_commands mx1 = []"
    "mx_inflight mx1 = Some ?i" "?i < length (mx_cmds mx1)"
    using first_add_sent [OF assms, of h1] by auto
  obtain mx2 hh2 where 2: "add_begin L ch h2 mx1 = (hh2, AddDone, mx2)"
    "map_of (mx_exact mx2) ch = Some [(mx_next_handler_id mx, h1), (hh_id hh2, h2)]" "mx_commands mx2 = []"
    "mx_inflight mx2 = Some ?i" "mx_cmds mx2 = mx_cmds mx1"
    using second_add_done [OF assms(5) 1(4), of L h2] 1(5,6) by auto
  obtain cs mx3 mx4 where "drain_complete L True False mx2 = (cs, mx3)"
    "add_command_done L hh1 ?i (finish_commands cs mx3) = (None, mx4)"
    "map_of (mx_exact mx4) ch = Some [(hh_id hh2, h2)] \<and> mx_commands mx4 = [] \<and> mx_inflight mx4 = None"
    using rejected_listen [OF 2(4,3) _ 1(2,3) 2(2), of L] 1(7) 2(5) by auto
  with 1(1) 2(1) show ?thesis by blast
qed

theorem late_handler_unsubscribed_witness:
  "\<exists>hh1 i mx1 hh2 mx2 cs mx3 mx4. add_begin list_libpq ''logs'' 1 sample_mux = (hh1, AddCommand i, mx1)
    \<and> add_begin list_libpq ''logs'' 2 mx1 = (hh2, AddDone, mx2)
    \<and> drain_complete list_libpq True False mx2 = (cs, mx3)
    \<and> add_command_done list_libpq hh1 i (finish_commands cs mx3) = (None, mx4)
    \<and> map_of (mx_exact mx4) ''logs'' = Some [(hh_id hh2, 2)] \<and> mx_commands mx4 = [] \<and> mx_inflight mx4 = None"
  by (rule late_handler_unsubscribed [where p = "[]" and p' = "[]"])
     (simp_all add: sample_mux_defs raw_conn_def send_statement_def)

text \<open>The run loop refines the steps: from every state before it and whatever the other tasks do while it waits, the loop
  (draining, dispatching, losing the connection, reconnecting and resubscribing) is a sequence of the steps above; so
  when it stops with a subscribed connection and no statement in flight, the server session listens to exactly the
  channels that have a handler.\<close>

theorem run_loop_subscribed:
  assumes "(sub_step L)\<^sup>*\<^sup>* (new_mux conn cap, Session {}, []) (mx, Session S, [])" "mx_running mx" "confirms L"
    and "\<forall>e \<in> set es. run_acts L e" "run_loop L notifies ci es mx = Finished mx'"
  shows "\<exists>ses. (sub_step L)\<^sup>*\<^sup>* (mx, Session S, []) (mx', ses, [])
    \<and> (mx_conn_ready mx' \<longrightarrow> mx_inflight mx' = None \<longrightarrow> ses = Session {ch. listening ch mx'})"
proof -
  have "mx_inflight_ok mx" using sub_steps_keep [OF assms(1)] by (simp add: new_mux_def)
  with assms(2) have "leads_to L mx (Session S) mx (Session S)" by (simp add: leads_to_def on_duty_def)
  from run_loop_leads [OF assms(5) this assms(3,4)] obtain ses where s: "(sub_step L)\<^sup>*\<^sup>* (mx, Session S, []) (mx', ses, [])"
    by (auto simp: leads_to_def)
  have "sub_inv (mx', ses, [])" using subscriptions.steps_inv [OF rtranclp_trans [OF assms(1) s] new_mux_inv] .
  with s show ?thesis using subscribed_exactly by blast
qed

text \<open>A server that confirms every statement: the state counts the results not yet fetched.\<close>

definition ok_libpq :: "nat libpq" where
  "ok_libpq = \<lparr>pq_status_ok = (\<lambda>_. True), pq_trans_idle = (\<lambda>_. True), pq_trans_inerror = (\<lambda>_. False),
     pq_busy = (\<lambda>_. False),
     pq_error = (\<lambda>_. []), pq_socket = (\<lambda>_. 3), pq_flush = (\<lambda>p. (0, p)),
     pq_consume_input = (\<lambda>p. (True, p)),
     pq_get_result = (\<lambda>p. if p = 0 then (None, 0) else (Some (sample_pg_result PGRES_COMMAND_OK), p - 1)),
     pq_send_query = (\<lambda>_ p. (True, p + 1)), pq_put_copy_data = (\<lambda>_ _ p. (1, p)),
     pq_put_copy_end = (\<lambda>_ p. (1, p)), pq_get_copy_data = (\<lambda>p. (- 1, [], p)),
     pq_peek = (\<lambda>_. (- 1, True))\<rparr>"

lemma ok_libpq_confirms: "confirms ok_libpq"
  by (auto simp: confirms_def ok_libpq_def sample_pg_result_def)

definition quiet_env :: "bool \<Rightarrow> (nat, nat) run_env" where
  "quiet_env cancel = \<lparr>re_reconnect = [], re_arrive = id, re_others = id, re_cancel = cancel\<rparr>"

definition started_mux :: "(nat, nat) mux" where
  "started_mux = snd (run_start ok_libpq (new_mux (Some (open_conn 0)) 4))"

definition asking_mux :: "(nat, nat) mux" where
  "asking_mux = snd (snd (add_begin ok_libpq ''jobs'' 7 started_mux))"

lemmas asking_mux_defs = asking_mux_def started_mux_def add_begin_def new_mux_def is_wildcard_def channel_state_locked_def
  run_start_def mux_alive_def start_and_finish_def start_next_command_locked_def finish_commands_def push_command_def
  connected_def open_conn_def new_conn_def raw_conn_def set_raw_def set_cmd_def listening_def send_statement_def Let_def

lemma asking_mux_reached: "(sub_step ok_libpq)\<^sup>*\<^sup>* (new_mux (Some (open_conn 0)) 4, Session {}, []) (asking_mux, Session {}, [])"
proof -
  have "sub_step ok_libpq (new_mux (Some (open_conn 0)) 4, Session {}, []) (started_mux, Session {}, [])"
    by (rule sub_step.start) (simp_all add: new_mux_def run_start_def started_mux_def)
  moreover have "fst (snd (add_begin ok_libpq ''jobs'' 7 started_mux)) \<noteq> AddDirect"
    by (simp add: asking_mux_defs ok_libpq_def)
  then have "sub_step ok_libpq (started_mux, Session {}, []) (asking_mux, Session {}, [])"
    using sub_step.add [of ok_libpq "''jobs''" 7 started_mux "fst (add_begin ok_libpq ''jobs'' 7 started_mux)"
        "fst (snd (add_begin ok_libpq ''jobs'' 7 started_mux))" asking_mux "Session {}" "[]"]
    by (simp add: asking_mux_def)
  ultimately show ?thesis by (meson rtranclp.rtrancl_into_rtrancl rtranclp.rtrancl_refl)
qed

theorem run_loop_subscribed_witness:
  "\<exists>ses mx'. run_loop ok_libpq (\<lambda>p. (None, p)) (Inr []) [quiet_env False, quiet_env True] asking_mux = Finished mx'
    \<and> (sub_step ok_libpq)\<^sup>*\<^sup>* (asking_mux, Session {}, []) (mx', ses, []) \<and> ses = Session {''jobs''}"
proof -
  let ?es = "[quiet_env False, quiet_env True]"
  obtain mx' where r: "run_loop ok_libpq (\<lambda>p. (None, p)) (Inr []) ?es asking_mux = Finished mx'" "mx_conn_ready mx'"
    "mx_inflight mx' = None" "{ch. listening ch mx'} = {''jobs''}"
    by (simp add: asking_mux_defs ok_libpq_def quiet_env_def run_read_def drain_locked_def drain_input_def drain_complete_def
        complete_inflight_def collect_notifies.simps inflight_results.simps sample_pg_result_def)
  have "mx_running asking_mux" by (simp add: asking_mux_defs ok_libpq_def)
  moreover have "\<forall>e \<in> set ?es. run_acts ok_libpq e" by (auto simp: run_acts_def acts_def quiet_env_def)
  ultimately show ?thesis
    using run_loop_subscribed [OF asking_mux_reached _ ok_libpq_confirms _ r(1)] r by auto
qed

end
