(* ===== verification/Pg_Notify_Run.thy ===== *)
theory Pg_Notify_Run
  imports Pg_Notify_Subs
begin

text \<open>
  The notification coroutines as a whole: the configuration of the multiplexer and its statistics, \<^verbatim>\<open>run\<close> from its start behind
  the direct LISTENs to its end, the detached run of a handler with the exceptions it catches, and the set-up of the listener.
\<close>

section \<open>Configuration and statistics\<close>

record mux_config =
  mc_channel_queue_capacity :: u64
  mc_pending_after_disconnect_capacity :: u64
  mc_reconnect_backoff_us :: u64
  mc_max_recursive_depth :: u32
  mc_rate_limit_per_sec :: u32

definition default_mux_config :: mux_config where
  "default_mux_config = \<lparr>mc_channel_queue_capacity = 256, mc_pending_after_disconnect_capacity = 1024,
     mc_reconnect_backoff_us = 100000, mc_max_recursive_depth = 4, mc_rate_limit_per_sec = 1000\<rparr>"

definition make_mux :: "'c conn option \<Rightarrow> mux_config \<Rightarrow> ('c, 'h) mux" where
  "make_mux conn cfg = new_mux conn (unat (mc_channel_queue_capacity cfg))"

record mux_stats =
  ms_dropped_overflow :: u64
  ms_dropped_recursive :: u64
  ms_dropped_rate_limited :: u64
  ms_waiting :: u64

definition stats :: "('c, 'h) mux \<Rightarrow> mux_stats" where
  "stats mx = \<lparr>ms_dropped_overflow = 0, ms_dropped_recursive = 0, ms_dropped_rate_limited = 0,
     ms_waiting = of_nat (mux_waiting mx)\<rparr>"

section \<open>Handler runs\<close>

text \<open>How a handler ends, and the line it leaves on \<^verbatim>\<open>stderr\<close>.\<close>

datatype handler_end = HandlerReturned | HandlerThrew string | HandlerThrewUnknown

definition handler_log :: "string \<Rightarrow> handler_end \<Rightarrow> string list" where
  "handler_log channel ended =
     (case ended of
        HandlerReturned \<Rightarrow> []
      | HandlerThrew what \<Rightarrow> [''[UPQ/notify] handler for channel '' @ takeWhile (\<lambda>c. c \<noteq> CHR 0x00) channel @ '' threw: '' @ what @ [CHR 0x0A]]
      | HandlerThrewUnknown \<Rightarrow> [''[UPQ/notify] handler for channel '' @ takeWhile (\<lambda>c. c \<noteq> CHR 0x00) channel @ '' threw'' @ [CHR 0x0A]])"

definition run_handler :: "nat \<Rightarrow> string \<Rightarrow> handler_end \<Rightarrow> ('c, 'h) mux \<Rightarrow> string list \<times> ('c, 'h) mux" where
  "run_handler q channel ended mx = (handler_log channel ended, run_handler_done q mx)"

section \<open>run\<close>

text \<open>
  The first loop of \<^verbatim>\<open>run\<close>: whether it started, before a sleep was cancelled. One environment per sleep: what the
  others did meanwhile, and whether it ended normally.
\<close>

fun run_begin :: "'c libpq \<Rightarrow> ((('c, 'h) mux \<Rightarrow> ('c, 'h) mux) \<times> bool) list \<Rightarrow> ('c, 'h) mux \<Rightarrow> (bool \<times> ('c, 'h) mux) async" where
  "run_begin L ss mx =
     (case run_start L mx of (started, mx1) \<Rightarrow>
        if started then Finished (True, mx1)
        else (case ss of
            [] \<Rightarrow> Parked
          | (others, slept) # ss' \<Rightarrow> if \<not> slept then Finished (False, others mx1) else run_begin L ss' (others mx1)))"

declare run_begin.simps [simp del]

definition mux_run ::
  "'c libpq \<Rightarrow> ('c \<Rightarrow> notification option \<times> 'c) \<Rightarrow> (string + string) \<Rightarrow> ((('c, 'h) mux \<Rightarrow> ('c, 'h) mux) \<times> bool) list
    \<Rightarrow> ('c, 'h) run_env list \<Rightarrow> ('c, 'h) mux \<Rightarrow> ('c, 'h) mux async" where
  "mux_run L notifies conninfo ss es mx =
     bind_async (run_begin L ss mx) (\<lambda>(started, mx1).
       if \<not> started then Finished mx1 else run_loop L notifies conninfo es mx1)"

section \<open>The listener\<close>

definition new_listener :: "string \<Rightarrow> 'h listener" where
  "new_listener channel = \<lparr>ls_channel = channel, ls_handler = None, ls_spawned = []\<rparr>"

definition setHandler :: "'h \<Rightarrow> 'h listener \<Rightarrow> 'h listener" where
  "setHandler h l = l\<lparr>ls_handler := Some h\<rparr>"

section \<open>Lemmas\<close>

text \<open>What the others do before \<^verbatim>\<open>run\<close> has started: paths of the steps, with LISTENs of their own answered on the way.\<close>

fun early_acts ::
  "'c libpq \<Rightarrow> ((('c, 'h) mux \<Rightarrow> ('c, 'h) mux) \<times> bool) list \<Rightarrow> ('c, 'h) mux \<times> string set \<times> string list \<Rightarrow> bool" where
  "early_acts L [] st = True"
| "early_acts L ((f, slept) # ss) (mx, S, D) \<longleftrightarrow>
     (\<exists>S' D'. (sub_step L)\<^sup>*\<^sup>* (mx, Session S, D) (f mx, Session S', D') \<and> \<not> mx_running (f mx) \<and> early_acts L ss (f mx, S', D'))"

lemma run_begin_path:
  assumes "run_begin L ss mx = Finished (started, mx')" "early_acts L ss (mx, S, D)" "\<not> mx_running mx"
  shows "\<exists>S' D'. (sub_step L)\<^sup>*\<^sup>* (mx, Session S, D) (mx', Session S', D') \<and> (started \<longrightarrow> mx_running mx')"
  using assms
proof (induction L ss mx arbitrary: S D rule: run_begin.induct)
  case (1 L ss mx)
  show ?case
  proof (cases "mx_direct_busy mx = 0")
    case True
    then obtain mx1 where r: "run_start L mx = (True, mx1)" by (simp add: run_start_def)
    with "1.prems" have m: "mx' = mx1" started by (simp_all add: run_begin.simps [of L ss])
    have "sub_step L (mx, Session S, D) (mx1, Session S, D)"
      using r "1.prems"(3) by (rule sub_step.start [rotated])
    moreover have "mx_running mx1"
      using r True by (auto simp: run_start_def)
    ultimately show ?thesis using m by blast
  next
    case False
    then have r: "run_start L mx = (False, mx)" by (simp add: run_start_def)
    with "1.prems"(1) obtain f slept ss' where ss: "ss = (f, slept) # ss'"
      by (auto simp: run_begin.simps [of L ss] split: list.splits)
    then obtain S1 D1 where p: "(sub_step L)\<^sup>*\<^sup>* (mx, Session S, D) (f mx, Session S1, D1)" "\<not> mx_running (f mx)"
      "early_acts L ss' (f mx, S1, D1)"
      using "1.prems"(2) by auto
    show ?thesis
    proof (cases slept)
      case True
      then have "run_begin L ss' (f mx) = Finished (started, mx')"
        using "1.prems"(1) r by (simp add: ss run_begin.simps [of L "(f, True) # ss'"])
      with "1.IH" [OF r [symmetric] _ ss refl _ _ p(3,2)] True p(1) show ?thesis
        by (fastforce intro: rtranclp_trans)
    next
      case False
      then show ?thesis using "1.prems"(1) r p(1) by (auto simp: ss run_begin.simps [of L "(f, False) # ss'"])
    qed
  qed
qed


text \<open>A handler that throws gives its slot to the next notification as one that returns, and only leaves a line in the log.\<close>

lemma thrown_handler_frees_slot: "snd (run_handler q ch ended mx) = snd (run_handler q ch HandlerReturned mx)"
  by (simp add: run_handler_def)

text \<open>
  No wake ends the loop of the listener while reading succeeds: it never asks whether its task was cancelled. The run loop of the
  multiplexer returns at the first wait behind which it was.
\<close>

lemma listener_goes_on:
  assumes "\<And>p. fst (pq_consume_input L p)" "\<And>p. collect_notifies notifies [] p \<noteq> None" "cn_pq c \<noteq> None"
  shows "listener_loop L notifies es c l = Parked"
  using assms(3)
proof (induction es arbitrary: c l)
  case (Cons e es)
  obtain arrive slept where e: "e = (arrive, slept)" by fastforce
  obtain p where p: "cn_pq c = Some p" using Cons.prems by blast
  obtain p1 where p1: "pq_consume_input L (arrive p) = (True, p1)"
    using assms(1) [of "arrive p"] by (metis (full_types) eq_fst_iff)
  obtain ns p2 where "collect_notifies notifies [] p1 = Some (ns, p2)"
    using assms(2) [of p1] by auto
  with Cons.IH p p1 e show ?case by simp
qed simp

lemma run_loop_canceled:
  "mux_alive L mx \<Longrightarrow> re_cancel e \<Longrightarrow> \<exists>mx'. run_loop L notifies ci (e # es) mx = Finished mx'"
  by (simp add: Let_def)

section \<open>Properties\<close>


definition early_mux :: "(nat, nat) mux" where
  "early_mux = snd (snd (add_begin ok_libpq ''jobs'' 7 (make_mux (Some (open_conn 0)) default_mux_config)))"

definition answers :: "(nat, nat) mux \<Rightarrow> (nat, nat) mux" where
  "answers mx = snd (add_direct_done ok_libpq sample_handle True mx)"

lemmas early_mux_defs = early_mux_def make_mux_def default_mux_config_def sample_handle_def answers_def add_direct_done_def add_end_def
  asking_mux_defs ok_libpq_def


end
