(* ===== verification/Spec2Isabelle.thy ===== *)
theory Spec2Isabelle
  imports Pg_Types Pg_Wire Pg_Text Pg_Retry Pg_Params Pg_Reflect Pg_Json Pg_Result Pg_Conn Pg_Copy Pg_Socket Pg_IoWait Pg_Pool Pg_Compat Pg_Pool_Steps
    Pg_Transaction Pg_Stream Pg_RowStream Pg_Calls Pg_Routing Pg_Notify_Queue Pg_Notify Pg_Notify_Subs Pg_Notify_Run
begin

text \<open>
  A verification of upq, an asynchronous C++23 client library for PostgreSQL on top of libpq and the event loop uvent.

  \<^bold>\<open>The program and its model.\<close> A statement travels through the layers below; each theory models the files named, its
  definitions keep the order and the names of the code (a prefix tells methods of different classes apart).

  \<^item> \<^theory_text>\<open>Upq_Prelude\<close>: machine words, decimal text, lists, and the locales that the components share: \<open>codec\<close> (an encoder
    and its decoder) and \<open>inv_system\<close> (a transition system with an inductive invariant).
  \<^item> \<^theory_text>\<open>Pg_Types\<close> (\<^verbatim>\<open>PgTypes.h\<close>): error codes, results, rows, the typed accessors of a cell.
  \<^item> \<^theory_text>\<open>Pg_Wire\<close> (\<^verbatim>\<open>PgTypes.cpp\<close>): the message framing and the parsers of ErrorResponse, RowDescription and DataRow over byte
    vectors with 32-bit lengths, the messages the client builds.
  \<^item> \<^theory_text>\<open>Pg_Text\<close> (\<^verbatim>\<open>PgTypes.h\<close>, \<^verbatim>\<open>PgReflect.h\<close>, \<^verbatim>\<open>utils/*.h\<close>): array literals, quoting of identifiers, connection strings.
  \<^item> \<^theory_text>\<open>Pg_Retry\<close> (\<^verbatim>\<open>PgRetry.h\<close>): classification of failures, retry budget, backoff on 32 bits.
  \<^item> \<^theory_text>\<open>Pg_Params\<close> (\<^verbatim>\<open>PgParams.h\<close>): encoding of arguments into the fixed parameter block.
  \<^item> \<^theory_text>\<open>Pg_Reflect\<close> (\<^verbatim>\<open>PgReflect.h\<close>): decoding of rows into structs, by position and by name.
  \<^item> \<^theory_text>\<open>Pg_Json\<close> (\<^verbatim>\<open>PgJsonCodec.h\<close>): the JSON backends and the codec that parameters and decoder share.
  \<^item> \<^theory_text>\<open>Pg_Result\<close>, \<^theory_text>\<open>Pg_Conn\<close>, \<^theory_text>\<open>Pg_Copy\<close> (\<^verbatim>\<open>PgConnection.h\<close>, \<^verbatim>\<open>PgConnection.cpp\<close>): a connection: the collection of results,
    the round trip of a statement with its awaits and the watchdog's abort, connecting, COPY in both directions.
  \<^item> \<^theory_text>\<open>Pg_Socket\<close> (\<^verbatim>\<open>PgConnection.cpp\<close>): the file descriptors of a connection and who owns them, as a step relation over
    the coroutine, its deadline timer, the poller, the watchdog, libpq and the rest of the process.
  \<^item> \<^theory_text>\<open>Pg_IoWait\<close> (\<^verbatim>\<open>PgConnection.h\<close>, \<^verbatim>\<open>PgConnection.cpp\<close>): the wait for a socket behind every await of a connection, interleaved
    with the poller and the kernel; the socket header of uvent is a parameter with the laws of its wake-up protocol.
  \<^item> \<^theory_text>\<open>Pg_Compat\<close> (\<^verbatim>\<open>utils/UventCompat.h\<close>): the adapter to releases of uvent without cancellation, over the pool's environments.
  \<^item> \<^theory_text>\<open>Pg_Pool\<close>, \<^theory_text>\<open>Pg_Pool_Steps\<close> (\<^verbatim>\<open>PgPool.h\<close>, \<^verbatim>\<open>PgPool.cpp\<close>): the pool as sequential calls with their retries, and the
    interleaving semantics of its atomic actions over any number of tasks, with the abstract specification of leases.
  \<^item> \<^theory_text>\<open>Pg_Transaction\<close> (\<^verbatim>\<open>PgTransaction.h\<close>, \<^verbatim>\<open>PgTransaction.cpp\<close>): transactions, savepoints and \<^verbatim>\<open>run_tx\<close>.
  \<^item> \<^theory_text>\<open>Pg_Stream\<close> (\<^verbatim>\<open>PgStream.h\<close>) and \<^theory_text>\<open>Pg_RowStream\<close> (\<^verbatim>\<open>PgRowStream.h\<close>, \<^verbatim>\<open>PgRowStream.cpp\<close>): pull streams with their adaptors and
    terminals (the locale \<open>pull_stream\<close> is their contract), and the cursor-backed row streams that satisfy it.
  \<^item> \<^theory_text>\<open>Pg_Calls\<close> (\<^verbatim>\<open>PgConnection.h\<close>, \<^verbatim>\<open>PgPool.h\<close>, \<^verbatim>\<open>PgTransaction.h\<close>): the overloads of the statement calls, from the check of
    the placeholders over the encoding of the arguments to the conversion of the result (the locale \<open>statement_calls\<close> is the
    contract between typed and untyped calls).
  \<^item> \<^theory_text>\<open>Pg_Routing\<close> (\<^verbatim>\<open>PgRouting.h\<close>, \<^verbatim>\<open>PgRouting.cpp\<close>, \<^verbatim>\<open>PgRoutingBuilder.*\<close>): choosing a node by role, health, lag and detected leader,
    the circuit breaker, the health loop, the builder (the locale \<open>ranking\<close> is the contract of the two comparisons).
  \<^item> \<^theory_text>\<open>Pg_Notify_Queue\<close>, \<^theory_text>\<open>Pg_Notify\<close>, \<^theory_text>\<open>Pg_Notify_Subs\<close>, \<^theory_text>\<open>Pg_Notify_Run\<close> (\<^verbatim>\<open>PgNotificationMultiplexer.h\<close>, \<^verbatim>\<open>PgNotificationListener.h\<close>): the queue
    of a channel, the multiplexer and the listener, the subscriptions of the server session they maintain, and their coroutines from
    call to return.

  \<^bold>\<open>How effects are modelled.\<close> State is passed explicitly: a connection, a pool, a transaction, a stream, a connector and a
  multiplexer are records; shared objects (\<^verbatim>\<open>shared_ptr\<close>) are indices into a list. libpq is a record of functions over an
  unspecified state type (\<^verbatim>\<open>PQconsumeInput\<close>, \<^verbatim>\<open>PQgetResult\<close> and so on), the user's callables are functions on a user
  state. A coroutine is a function into \<open>async\<close>: \<open>Finished\<close> with its result, \<open>Parked\<close> when the environment given ends in the
  middle of an await, \<open>Stuck\<close> when it never suspends again or its behaviour is undefined. What an await meets (input,
  a deadline, a cancellation, the actions of other tasks) is an argument, one list element per await; so no bound or fuel
  is hidden in a definition, and that a call returns is proved for every environment that cuts the awaits
  (\<open>env_ends\<close>, \<open>interrupts\<close>), with the number of tries the retry budget allows. Loops over libpq that may not end are
  \<^theory_text>\<open>partial_function (option)\<close>, all other loops terminate. Counters keep their width (\<open>u32\<close>, \<open>u64\<close>).

  \<^bold>\<open>What is shown.\<close>

  \<^item> Concurrency: in every interleaving the pool hands a connection to one client at a time and never
  exceeds its maximum, no wake-up is lost, and it refines a specification by leases; the sequential calls are sequences of
  its steps. A coroutine parked on a socket is woken whatever happened between its probe and its park. A connection closes and shuts down only descriptors of its own, as long as libpq keeps its socket inside the
  watchdog's abort. A notification channel delivers everything in order and drains; the session of the multiplexer converges to
  the channels that have handlers, and its run is a sequence of the steps of that system.
  \<^item> Completion: pooled statements, \<^verbatim>\<open>run_tx\<close>, connecting and closing a stream return when the awaits are cut, within the
  retry budget; no retry happens without the caller's consent when the outcome is unknown; a commit is reported only
  when the server confirmed it. Typed calls return what the untyped call returns, converted, and send one parameter per
  argument.
  \<^item> Data: the parsers stay within their input and invert the encoders; array literals,
  identifiers and connection strings read back as written; rows are mapped completely or rejected; streams and their
  pipelines deliver what the list functions give.
  \<^item> Routing: the replica chosen is optimal, writes follow the detected
  leader, a failed node is quarantined, and every statement on an accepted configuration is routed and answered (the
  theorem of this theory, which composes routing, pool, connection and result collection).
  \<^item> Theorems about defects state the behaviour of the code as it is: the hang of a COPY in the wrong direction, the overflow
  of nested parameters, the pool starved by \<^verbatim>\<open>close_all\<close>, the watchdog's shutdown of a reused descriptor, a handler without subscription.

  \<^bold>\<open>Not modelled.\<close> The uvent runtime, libpq, the JSON libraries, \<^verbatim>\<open>inet_pton\<close>, MD5 and floating-point
  output are not part of the sources and are parameters.
  The compile-time reflection of structs is data (\<open>struct_info\<close>). The encoder of PgReflect.h behind \<^verbatim>\<open>UPQ_ENABLE_PARAM_ENCODER\<close> is
  off by default and does not compile (it names a trait that is not declared). Memory ordering of atomics is not modelled: the pool's steps are atomic actions in a
  sequentially consistent order; a lock-free queue operation is one step. \<^verbatim>\<open>QueryState\<close>, \<^verbatim>\<open>QueryAwaiter\<close> and
  \<^verbatim>\<open>QueryFuture\<close> of PgTypes.h are declared and never used. The examples and the benchmark only call the library.
\<close>

section \<open>Routing, pool and connection together\<close>


definition cutting_env :: "nat \<Rightarrow> 'c try_env" where
  "cutting_env n = cancelling_env\<lparr>te_attempts := replicate n \<lparr>at_start = (\<lambda>_. None), at_nonblocking = True,
     at_rounds = [\<lparr>hs_watched = True, hs_cancel = True, hs_fired = None, hs_poll = PollReading, hs_error = []\<rparr>],
     at_watched = True, at_slept = True\<rparr>\<rparr>"


end
